(* ===== verification/Goblin_Prelude.thy ===== *)
theory Goblin_Prelude
  imports Main "HOL-Library.Word" "HOL-Library.Char_ord" "HOL-Library.List_Lexorder"
    "HOL-Library.Monad_Syntax"
begin

text \<open>
  Shared vocabulary of the development: the types of \<^verbatim>\<open>kv-engine/types.h\<close>, the
  \<^verbatim>\<open>Status\<close> class every fallible call returns, the decimal printer behind
  \<^verbatim>\<open>std::to_string\<close>, \<^verbatim>\<open>std::set\<close> as a sorted list, and the
  generic lemmas the component theories use.

  A call that may run into a failing \<^verbatim>\<open>assert\<close> (asserts are compiled in: the build never
  defines \<^verbatim>\<open>NDEBUG\<close>), into undefined behaviour or that can not return from the given
  state has an \<^typ>\<open>'a option\<close> result and is \<^const>\<open>None\<close> there. An error the
  code reports is a \<^verbatim>\<open>Status\<close> value, never \<^const>\<open>None\<close>.
\<close>

named_theorems status_simps \<open>predicates and constructors of the Status class\<close>
named_theorems store_defs \<open>definitions of the operations of the stores\<close>
named_theorems cmd_defs \<open>definitions of the operations of the commands\<close>

section \<open>Types\<close>

type_synonym KeyType = string
type_synonym ValueType = string
type_synonym VersionType = "64 word"
type_synonym MilestoneType = "64 word"
type_synonym TTLType = "32 word"
type_synonym TimeType = "32 word"
type_synonym WSName = string

section \<open>Status\<close>

datatype Code = OK | ERROR | OOM | NOTFOUND | PRECOND_UNMATCHED | NOTSUPPORTED | INVALID_ARG
  | EXPIRED | NOT_LEADER | STOPPED | CLIENT_ROUTE_OUT_OF_DATE | SERVER_ROUTE_OUT_OF_DATE
  | OUT_OF_SERVICE | WRONG_ROUTE | MIGRATED_ROUTE

record Status =
  mCode :: Code
  mMsg :: string

definition Status_ok :: Status where
  "Status_ok = \<lparr>mCode = OK, mMsg = []\<rparr>"

definition Status_error :: "string \<Rightarrow> Status" where
  "Status_error msg = \<lparr>mCode = ERROR, mMsg = msg\<rparr>"

definition Status_notFound :: "string \<Rightarrow> Status" where
  "Status_notFound msg = \<lparr>mCode = NOTFOUND, mMsg = msg\<rparr>"

definition Status_precondUnmatched :: "string \<Rightarrow> Status" where
  "Status_precondUnmatched msg = \<lparr>mCode = PRECOND_UNMATCHED, mMsg = msg\<rparr>"

definition Status_notSupported :: "string \<Rightarrow> Status" where
  "Status_notSupported msg = \<lparr>mCode = NOTSUPPORTED, mMsg = msg\<rparr>"

definition Status_invalidArg :: "string \<Rightarrow> Status" where
  "Status_invalidArg msg = \<lparr>mCode = INVALID_ARG, mMsg = msg\<rparr>"

definition Status_expired :: "string \<Rightarrow> Status" where
  "Status_expired msg = \<lparr>mCode = EXPIRED, mMsg = msg\<rparr>"

definition Status_notLeader :: "string \<Rightarrow> Status" where
  "Status_notLeader msg = \<lparr>mCode = NOT_LEADER, mMsg = msg\<rparr>"

definition Status_stopped :: "string \<Rightarrow> Status" where
  "Status_stopped msg = \<lparr>mCode = STOPPED, mMsg = msg\<rparr>"

definition Status_clientRouteOutOfDate :: "string \<Rightarrow> Status" where
  "Status_clientRouteOutOfDate msg = \<lparr>mCode = CLIENT_ROUTE_OUT_OF_DATE, mMsg = msg\<rparr>"

definition Status_serverRouteOutOfDate :: "string \<Rightarrow> Status" where
  "Status_serverRouteOutOfDate msg = \<lparr>mCode = SERVER_ROUTE_OUT_OF_DATE, mMsg = msg\<rparr>"

definition Status_outOfService :: "string \<Rightarrow> Status" where
  "Status_outOfService msg = \<lparr>mCode = OUT_OF_SERVICE, mMsg = msg\<rparr>"

definition Status_wrongRoute :: "string \<Rightarrow> Status" where
  "Status_wrongRoute msg = \<lparr>mCode = WRONG_ROUTE, mMsg = msg\<rparr>"

definition Status_migratedRoute :: "string \<Rightarrow> Status" where
  "Status_migratedRoute msg = \<lparr>mCode = MIGRATED_ROUTE, mMsg = msg\<rparr>"

definition isOK :: "Status \<Rightarrow> bool" where
  "isOK s = (mCode s = OK)"

definition isNotFound :: "Status \<Rightarrow> bool" where
  "isNotFound s = (mCode s = NOTFOUND)"

definition isPrecondUnMatched :: "Status \<Rightarrow> bool" where
  "isPrecondUnMatched s = (mCode s = PRECOND_UNMATCHED)"

definition isNotSupported :: "Status \<Rightarrow> bool" where
  "isNotSupported s = (mCode s = NOTSUPPORTED)"

definition isInvalidArg :: "Status \<Rightarrow> bool" where
  "isInvalidArg s = (mCode s = INVALID_ARG)"

definition isExpired :: "Status \<Rightarrow> bool" where
  "isExpired s = (mCode s = EXPIRED)"

definition isNotLeader :: "Status \<Rightarrow> bool" where
  "isNotLeader s = (mCode s = NOT_LEADER)"

definition isClientRouteOutOfDate :: "Status \<Rightarrow> bool" where
  "isClientRouteOutOfDate s = (mCode s = CLIENT_ROUTE_OUT_OF_DATE)"

definition isServerRouteOutOfDate :: "Status \<Rightarrow> bool" where
  "isServerRouteOutOfDate s = (mCode s = SERVER_ROUTE_OUT_OF_DATE)"

definition isOutOfService :: "Status \<Rightarrow> bool" where
  "isOutOfService s = (mCode s = OUT_OF_SERVICE)"

definition isWrongRoute :: "Status \<Rightarrow> bool" where
  "isWrongRoute s = (mCode s = WRONG_ROUTE)"

definition isMigratedRoute :: "Status \<Rightarrow> bool" where
  "isMigratedRoute s = (mCode s = MIGRATED_ROUTE)"

text \<open>\<^verbatim>\<open>assert(b)\<close>: the process ends when the condition is false.\<close>

definition assert :: "bool \<Rightarrow> unit option" where
  "assert b = (if b then Some () else None)"

lemmas status_predicate_defs =
  isOK_def isNotFound_def isPrecondUnMatched_def isNotSupported_def isInvalidArg_def isExpired_def
  isNotLeader_def isClientRouteOutOfDate_def isServerRouteOutOfDate_def isOutOfService_def
  isWrongRoute_def isMigratedRoute_def

lemmas status_constructor_defs =
  Status_ok_def Status_error_def Status_notFound_def Status_precondUnmatched_def
  Status_notSupported_def Status_invalidArg_def Status_expired_def Status_notLeader_def
  Status_stopped_def Status_clientRouteOutOfDate_def Status_serverRouteOutOfDate_def
  Status_outOfService_def Status_wrongRoute_def Status_migratedRoute_def

declare status_predicate_defs [status_simps] status_constructor_defs [status_simps]

lemma isOK_simps [simp]:
  "isOK Status_ok" "\<not> isOK (Status_error m)" "\<not> isOK (Status_notFound m)"
  "\<not> isOK (Status_precondUnmatched m)" "\<not> isOK (Status_notSupported m)"
  "\<not> isOK (Status_invalidArg m)" "\<not> isOK (Status_notLeader m)"
  by (simp_all add: status_simps)

lemma isNotFound_simps [simp]:
  "isNotFound (Status_notFound m)" "\<not> isNotFound Status_ok" "\<not> isNotFound (Status_error m)"
  by (simp_all add: status_simps)

lemma assert_simps [simp]:
  "assert True = Some ()" "assert False = None"
  by (simp_all add: assert_def)

lemma assert_eq_Some [simp]: "assert b = Some u \<longleftrightarrow> b"
  by (simp add: assert_def)

text \<open>A value of type \<^verbatim>\<open>char\<close>, which is signed.\<close>

definition signed_char :: "char \<Rightarrow> int" where
  "signed_char c = (let n = of_char c in if n < 128 then int n else int n - 256)"

section \<open>std::to\_string\<close>

fun to_string :: "nat \<Rightarrow> string" where
  "to_string n = (if n < 10 then [char_of (48 + n)]
                  else to_string (n div 10) @ [char_of (48 + n mod 10)])"

declare to_string.simps [simp del]

text \<open>\<^verbatim>\<open>std::stoull\<close>: white space, an optional sign, then the longest run of digits; an
  exception (which nothing catches) when there is no digit or the number does not fit.\<close>

definition is_space :: "char \<Rightarrow> bool" where
  "is_space c = (c = CHR '' '' \<or> (9 \<le> (of_char c :: nat) \<and> (of_char c :: nat) \<le> 13))"

definition is_digit :: "char \<Rightarrow> bool" where
  "is_digit c = (48 \<le> (of_char c :: nat) \<and> (of_char c :: nat) \<le> 57)"

definition decimal :: "string \<Rightarrow> nat" where
  "decimal ds = foldl (\<lambda>n c. 10 * n + (of_char c - 48)) 0 ds"

definition stoull :: "string \<Rightarrow> 64 word option" where
  "stoull str =
     (let s1 = dropWhile is_space str;
          neg = (s1 \<noteq> [] \<and> hd s1 = CHR ''-'');
          s2 = (if s1 \<noteq> [] \<and> (hd s1 = CHR ''-'' \<or> hd s1 = CHR ''+'') then tl s1 else s1);
          ds = takeWhile is_digit s2
      in if ds = [] \<or> 2 ^ 64 \<le> decimal ds then None
         else Some (if neg then - of_nat (decimal ds) else of_nat (decimal ds)))"

lemma unat_less_64: "unat (w :: 64 word) < 2 ^ 64"
  by (rule less_le_trans [OF unsigned_less]) simp

lemma unat_less_32: "unat (w :: 32 word) < 2 ^ 32"
  by (rule less_le_trans [OF unsigned_less]) simp

lemma to_string_digits: "\<forall>c \<in> set (to_string n). is_digit c"
proof (induction n rule: to_string.induct)
  case (1 n)
  have d: "is_digit (char_of (48 + m))" if "m < 10" for m :: nat
    using that by (simp add: is_digit_def of_char_of)
  show ?case
    using 1 d [of n] d [of "n mod 10"] by (subst to_string.simps) auto
qed

lemma to_string_nonempty: "to_string n \<noteq> []"
  by (subst to_string.simps) simp

lemma decimal_snoc: "decimal (ds @ [c]) = 10 * decimal ds + (of_char c - 48)"
  by (simp add: decimal_def)

lemma decimal_to_string [simp]: "decimal (to_string n) = n"
proof (induction n rule: to_string.induct)
  case (1 n)
  have d: "(of_char (char_of (48 + m) :: char) :: nat) = 48 + m" if "m < 10" for m :: nat
    using that by (simp add: of_char_of)
  show ?case
  proof (cases "n < 10")
    case True
    then show ?thesis
      by (subst to_string.simps) (simp add: decimal_def d)
  next
    case False
    then show ?thesis
      using 1 by (subst to_string.simps) (simp add: decimal_snoc d)
  qed
qed

lemma to_string_inject [simp]: "to_string m = to_string n \<longleftrightarrow> m = n"
  using decimal_to_string by metis

lemma stoull_to_string: "n < 2 ^ 64 \<Longrightarrow> stoull (to_string n) = Some (of_nat n)"
proof -
  assume n: "n < 2 ^ 64"
  obtain c cs where cs: "to_string n = c # cs"
    using to_string_nonempty [of n] by (cases "to_string n") auto
  have digits: "is_digit c" "\<forall>x \<in> set (to_string n). is_digit x"
    using to_string_digits [of n] cs by auto
  then have "\<not> is_space c" "c \<noteq> CHR ''-''" "c \<noteq> CHR ''+''"
    by (auto simp: is_digit_def is_space_def)
  moreover have "takeWhile is_digit (to_string n) = to_string n"
    using digits by (simp add: takeWhile_eq_all_conv)
  ultimately show ?thesis
    using n decimal_to_string [of n] by (simp add: stoull_def Let_def cs)
qed

section \<open>std::set as a sorted list without repetitions\<close>

definition std_set :: "('a::linorder) list \<Rightarrow> 'a list" where
  "std_set xs = sorted_list_of_set (set xs)"

definition set_insert :: "('a::linorder) \<Rightarrow> 'a list \<Rightarrow> 'a list" where
  "set_insert x xs = insort_insert x xs"

end
