(* ===== verification/Version_Store.thy ===== *)
theory Version_Store
  imports Goblin_Prelude
begin

text \<open>
  \<^verbatim>\<open>kv-engine/store/VersionStore\<close>: the allocator of the versions a leader stamps on
  committed changes, and the largest version known to be committed. Versions are 64-bit words,
  so that the increment and the decrement wrap the way \<^verbatim>\<open>uint64_t\<close> does.
\<close>

definition kInvalidVersion :: VersionType where
  "kInvalidVersion = 0"

record VersionStore =
  mNextVersion :: VersionType
  mMaxVersion :: VersionType

definition initVersionStore :: VersionStore where
  "initVersionStore = \<lparr>mNextVersion = 0, mMaxVersion = 0\<rparr>"

text \<open>The callback runs under the mutex right after the allocation; it receives the version and
  works on a state of its own, so the result carries both.\<close>

definition allocateNextVersion ::
  "(VersionType \<Rightarrow> 'c \<Rightarrow> 'c) \<Rightarrow> VersionType \<Rightarrow> VersionStore \<times> 'c \<Rightarrow> VersionType \<times> VersionStore \<times> 'c" where
  "allocateNextVersion cb expectedVersion = (\<lambda>(vs, c).
     let (newVersion, vs') =
           (if expectedVersion = kInvalidVersion then
              (mNextVersion vs, vs\<lparr>mNextVersion := mNextVersion vs + 1\<rparr>)
            else if expectedVersion \<le> mNextVersion vs then (expectedVersion, vs)
            else (expectedVersion, vs\<lparr>mNextVersion := expectedVersion\<rparr>))
     in (newVersion, vs', cb newVersion c))"

definition getMaxAllocatedVersion :: "VersionStore \<Rightarrow> VersionType" where
  "getMaxAllocatedVersion vs = mNextVersion vs - 1"

definition getCurMaxVersion :: "VersionStore \<Rightarrow> VersionType" where
  "getCurMaxVersion vs = mMaxVersion vs"

definition updateCurMaxVersion :: "VersionType \<Rightarrow> VersionStore \<Rightarrow> VersionStore" where
  "updateCurMaxVersion newVersion vs =
     (if newVersion < mMaxVersion vs then vs
      else vs\<lparr>mMaxVersion := max newVersion (mMaxVersion vs)\<rparr>)"

definition recoverMaxVersion :: "VersionType \<Rightarrow> VersionStore \<Rightarrow> VersionStore" where
  "recoverMaxVersion version vs = vs\<lparr>mMaxVersion := version, mNextVersion := version + 1\<rparr>"

lemmas version_store_defs =
  allocateNextVersion_def getMaxAllocatedVersion_def getCurMaxVersion_def
  updateCurMaxVersion_def recoverMaxVersion_def kInvalidVersion_def

section \<open>Sequences of allocations\<close>

text \<open>What a run of commands without an expected version receives.\<close>

primrec allocs :: "nat \<Rightarrow> VersionStore \<Rightarrow> VersionType list \<times> VersionStore" where
  "allocs 0 vs = ([], vs)"
| "allocs (Suc n) vs =
     (let (v, vs', _) = allocateNextVersion (\<lambda>_ c. c) kInvalidVersion (vs, ());
          (rest, vs'') = allocs n vs'
      in (v # rest, vs''))"

lemma allocs_eq:
  "allocs n vs = (map (\<lambda>i. mNextVersion vs + of_nat i) [0..<n],
                  vs\<lparr>mNextVersion := mNextVersion vs + of_nat n\<rparr>)"
proof (induction n arbitrary: vs)
  case (Suc n)
  have "map (\<lambda>i. mNextVersion vs + of_nat i) [0..<Suc n] =
        mNextVersion vs # map (\<lambda>i. mNextVersion vs + 1 + of_nat i) [0..<n]"
    by (simp add: upt_conv_Cons map_Suc_upt [symmetric] comp_def add.assoc del: upt_Suc)
  then show ?case
    by (simp add: Suc version_store_defs add.assoc del: upt_Suc)
qed simp

lemma unat_plus_of_nat:
  assumes "unat v + i < 2 ^ 64"
  shows "unat ((v :: 64 word) + of_nat i) = unat v + i"
  using assms by (simp add: unat_word_ariths(1) unat_of_nat take_bit_eq_mod)



end
