(* ===== verification/KV_Store.thy ===== *)
theory KV_Store
  imports Goblin_Prelude
begin

text \<open>
  The abstract class \<^verbatim>\<open>kv-engine/store/KVStore.h\<close>: the constants, the messages of
  \<^verbatim>\<open>storage.proto\<close> a store keeps beside a value, the virtual methods as a record of
  functions over the state of the implementing object, the proxy classes
  \<^verbatim>\<open>ProxyKVStore\<close>, \<^verbatim>\<open>ReadOnlyKVStore\<close> and
  \<^verbatim>\<open>WriteOnlyKVStore\<close> as functions from a method table to a method table, and the contracts
  (locales) the callers of a store rely on.

  \<^verbatim>\<open>secondsSinceEpoch()\<close> is an argument \<open>now\<close> of the methods that read the
  clock. An out-parameter is passed in and handed back, since a method may leave it as it was.
  The working-set lookup of the interface is left at its default (\<^verbatim>\<open>nullptr\<close>) by every
  caller, so the table does not carry it. Every method table has as its last component of an
  object's state the calls its observers received.
\<close>

section \<open>Constants and messages\<close>

definition INFINITE_TTL :: TTLType where
  "INFINITE_TTL = 0"

definition NEVER_EXPIRE :: TimeType where
  "NEVER_EXPIRE = 0"

definition NOT_UPDATED :: TimeType where
  "NOT_UPDATED = 0"

record UserDefinedMeta =
  uintfield :: "64 word list"
  strfield :: "string list"

definition DEFAULT_UDFMETA :: UserDefinedMeta where
  "DEFAULT_UDFMETA = \<lparr>uintfield = [], strfield = []\<rparr>"

datatype DataType = NORMAL | NORMAL_WITH_TTL | OTHERS

datatype OpType = SINGLE | SET_ADD | SET_REMOVE

record Meta =
  meta_dataType :: DataType
  meta_version :: VersionType
  meta_ttl :: TTLType
  meta_deadline :: TimeType
  meta_opType :: OpType
  meta_updateTime :: TimeType
  meta_udfMeta :: "UserDefinedMeta option"

definition defaultMeta :: Meta where
  "defaultMeta = \<lparr>meta_dataType = NORMAL, meta_version = 0, meta_ttl = 0, meta_deadline = 0, meta_opType = SINGLE,
     meta_updateTime = 0, meta_udfMeta = None\<rparr>"

record ReadOut =
  outValue :: ValueType
  outTTL :: TTLType
  outVersion :: VersionType

datatype ObserverCall =
    OnReadValue KeyType
  | OnWriteValue KeyType ValueType VersionType
  | OnDeleteKey KeyType VersionType VersionType
  | OnEvictKeys "KeyType list"

definition isTimeOut :: "TimeType \<Rightarrow> TimeType \<Rightarrow> TTLType \<Rightarrow> bool" where
  "isTimeOut now dl t = (t \<noteq> INFINITE_TTL \<and> dl \<le> now)"

definition notFoundMsg :: "KeyType \<Rightarrow> string" where
  "notFoundMsg key = key @ '' not found''"

text \<open>Appending to the repeated fields of \<^verbatim>\<open>meta->mutable_udfmeta()\<close>: the sub-message comes
  into being with the first element.\<close>

definition addUdfMeta :: "UserDefinedMeta \<Rightarrow> Meta \<Rightarrow> Meta" where
  "addUdfMeta um meta =
     (if uintfield um = [] \<and> strfield um = [] then meta
      else let old = (case meta_udfMeta meta of None \<Rightarrow> DEFAULT_UDFMETA | Some o' \<Rightarrow> o')
           in meta\<lparr>meta_udfMeta := Some \<lparr>uintfield = uintfield old @ uintfield um,
                                        strfield = strfield old @ strfield um\<rparr>\<rparr>)"

section \<open>The virtual methods\<close>

record 's KVStore =
  kv_open :: "'s \<Rightarrow> (Status \<times> 's) option"
  kv_close :: "'s \<Rightarrow> (Status \<times> 's) option"
  kv_lock :: "KeyType list \<Rightarrow> bool \<Rightarrow> 's \<Rightarrow> (Status \<times> 's) option"
  kv_unlock :: "KeyType list \<Rightarrow> bool \<Rightarrow> 's \<Rightarrow> (Status \<times> 's) option"
  kv_lockWS :: "WSName \<Rightarrow> bool \<Rightarrow> 's \<Rightarrow> (Status \<times> 's) option"
  kv_unlockWS :: "WSName \<Rightarrow> bool \<Rightarrow> 's \<Rightarrow> (Status \<times> 's) option"
  kv_writeKV :: "KeyType \<Rightarrow> ValueType \<Rightarrow> VersionType \<Rightarrow> TimeType \<Rightarrow> UserDefinedMeta \<Rightarrow>
                 's \<Rightarrow> (Status \<times> 's) option"
  kv_writeTTLKV :: "KeyType \<Rightarrow> ValueType \<Rightarrow> VersionType \<Rightarrow> TTLType \<Rightarrow> TimeType \<Rightarrow> TimeType \<Rightarrow>
                    UserDefinedMeta \<Rightarrow> 's \<Rightarrow> (Status \<times> 's) option"
  kv_readKV :: "TimeType \<Rightarrow> KeyType \<Rightarrow> ReadOut \<Rightarrow> 's \<Rightarrow> (Status \<times> ReadOut \<times> 's) option"
  kv_deleteKV :: "KeyType \<Rightarrow> VersionType \<Rightarrow> VersionType \<Rightarrow> 's \<Rightarrow> (Status \<times> 's) option"
  kv_readKVFromProxy :: "TimeType \<Rightarrow> KeyType \<Rightarrow> ReadOut \<Rightarrow> 's \<Rightarrow> (Status \<times> ReadOut \<times> 's) option"
  kv_readMetaFromProxy :: "KeyType \<Rightarrow> Meta \<Rightarrow> 's \<Rightarrow> (Status \<times> Meta \<times> 's) option"
  kv_readMeta :: "KeyType \<Rightarrow> Meta \<Rightarrow> 's \<Rightarrow> (Status \<times> Meta \<times> 's) option"
  kv_commit :: "MilestoneType \<Rightarrow> 's \<Rightarrow> (Status \<times> 's) option"
  kv_loadMilestone :: "MilestoneType \<Rightarrow> 's \<Rightarrow> (Status \<times> MilestoneType \<times> 's) option"
  kv_clear :: "'s \<Rightarrow> 's option"
  kv_flush :: "'s \<Rightarrow> (Status \<times> 's) option"
  kv_isClearState :: "'s \<Rightarrow> bool option"
  kv_evictKV :: "TimeType \<Rightarrow> KeyType list \<Rightarrow> VersionType \<Rightarrow> 's \<Rightarrow> (Status \<times> 's) option"

text \<open>The class itself: the methods with a body have it, the pure virtual ones have none to
  run.\<close>

definition KVStore_base :: "'s KVStore" where
  "KVStore_base = \<lparr>
     kv_open = \<lambda>_. None,
     kv_close = \<lambda>_. None,
     kv_lock = \<lambda>_ _ s. Some (Status_ok, s),
     kv_unlock = \<lambda>_ _ s. Some (Status_ok, s),
     kv_lockWS = \<lambda>_ _ s. Some (Status_ok, s),
     kv_unlockWS = \<lambda>_ _ s. Some (Status_ok, s),
     kv_writeKV = \<lambda>_ _ _ _ _ _. None,
     kv_writeTTLKV = \<lambda>_ _ _ _ _ _ _ _. None,
     kv_readKV = \<lambda>_ _ _ _. None,
     kv_deleteKV = \<lambda>_ _ _ _. None,
     kv_readKVFromProxy = \<lambda>_ _ _ _. None,
     kv_readMetaFromProxy = \<lambda>_ _ _. None,
     kv_readMeta = \<lambda>_ _ _. None,
     kv_commit = \<lambda>_ _. None,
     kv_loadMilestone = \<lambda>_ _. None,
     kv_clear = \<lambda>_. None,
     kv_flush = \<lambda>s. Some (Status_ok, s),
     kv_isClearState = \<lambda>_. None,
     kv_evictKV = \<lambda>_ _ _ _. None\<rparr>"

section \<open>Proxies\<close>

definition ProxyKVStore :: "'s KVStore \<Rightarrow> 's KVStore" where
  "ProxyKVStore mDelegateKVStore = KVStore_base\<lparr>
     kv_open := kv_open mDelegateKVStore,
     kv_close := kv_close mDelegateKVStore,
     kv_writeKV := kv_writeKV mDelegateKVStore,
     kv_writeTTLKV := kv_writeTTLKV mDelegateKVStore,
     kv_readKV := kv_readKV mDelegateKVStore,
     kv_deleteKV := kv_deleteKV mDelegateKVStore,
     kv_readMeta := kv_readMeta mDelegateKVStore,
     kv_commit := kv_commit mDelegateKVStore,
     kv_loadMilestone := kv_loadMilestone mDelegateKVStore,
     kv_clear := kv_clear mDelegateKVStore\<rparr>"

definition ReadOnlyKVStore :: "'s KVStore \<Rightarrow> 's KVStore" where
  "ReadOnlyKVStore mDelegateKVStore = (ProxyKVStore mDelegateKVStore)\<lparr>
     kv_writeKV := \<lambda>_ _ _ _ _ _. None,
     kv_writeTTLKV := \<lambda>_ _ _ _ _ _ _ _. None,
     kv_deleteKV := \<lambda>_ _ _ _. None,
     kv_commit := \<lambda>_ _. None,
     kv_loadMilestone := \<lambda>_ _. None,
     kv_clear := \<lambda>_. None\<rparr>"

definition WriteOnlyKVStore :: "'s KVStore \<Rightarrow> 's KVStore" where
  "WriteOnlyKVStore mDelegateKVStore = (ProxyKVStore mDelegateKVStore)\<lparr>
     kv_readKV := \<lambda>_ _ _ _. None\<rparr>"

lemma ReadOnlyKVStore_sel [simp]:
  "kv_readKV (ReadOnlyKVStore K) = kv_readKV K"
  "kv_readMeta (ReadOnlyKVStore K) = kv_readMeta K"
  by (simp_all add: ReadOnlyKVStore_def ProxyKVStore_def)

section \<open>Contracts\<close>

text \<open>What a store shows of a key: the value, its version, its time to live and its deadline.\<close>

type_synonym Entry = "ValueType \<times> VersionType \<times> TTLType \<times> TimeType"
type_synonym View = "KeyType \<Rightarrow> Entry option"

text \<open>What a reader of a view sees at a given time.\<close>

definition visible :: "TimeType \<Rightarrow> View \<Rightarrow> KeyType \<Rightarrow> (ValueType \<times> VersionType) option" where
  "visible now w k = (case w k of
      None \<Rightarrow> None
    | Some (v, ver, t, dl) \<Rightarrow> if isTimeOut now dl t then None else Some (v, ver))"

text \<open>
  A \<^emph>\<open>source\<close> answers reads and does not change by it: a key whose entry has not timed out
  is read with its value and version, any other key is not found. It is what a cache needs of the
  store it delegates to.
\<close>

locale kv_source =
  fixes D :: "'d KVStore"
    and dinv :: "'d \<Rightarrow> bool"
    and dview :: "'d \<Rightarrow> View"
  assumes source_hit: "\<lbrakk>dinv d; dview d k = Some (v, ver, t, dl); \<not> isTimeOut now dl t\<rbrakk> \<Longrightarrow>
      \<exists>t'. kv_readKV D now k out d = Some (Status_ok, \<lparr>outValue = v, outTTL = t', outVersion = ver\<rparr>, d)"
    and source_miss: "\<lbrakk>dinv d; case dview d k of None \<Rightarrow> True | Some (v, ver, t, dl) \<Rightarrow> isTimeOut now dl t\<rbrakk> \<Longrightarrow>
      \<exists>st out'. kv_readKV D now k out d = Some (st, out', d) \<and> isNotFound st"
    and source_meta: "dinv d \<Longrightarrow> \<exists>st meta'. kv_readMeta D k meta d = Some (st, meta', d)"

text \<open>
  A \<^emph>\<open>sink\<close> takes the writes and deletes of committed events: its view changes at the key
  that is written and nowhere else. A delete is promised for the keys the store holds itself
  (\<open>resident\<close>); a write may need the meta to be \<open>storable\<close>.
\<close>

locale kv_sink =
  fixes K :: "'s KVStore"
    and inv :: "'s \<Rightarrow> bool"
    and view :: "'s \<Rightarrow> View"
    and storable :: "KeyType \<Rightarrow> VersionType \<Rightarrow> TTLType \<Rightarrow> TimeType \<Rightarrow> TimeType \<Rightarrow> UserDefinedMeta \<Rightarrow> bool"
    and resident :: "'s \<Rightarrow> KeyType \<Rightarrow> bool"
  assumes writeKV_law: "\<lbrakk>inv s; storable k ver INFINITE_TTL NEVER_EXPIRE ut um\<rbrakk> \<Longrightarrow>
      \<exists>s'. kv_writeKV K k v ver ut um s = Some (Status_ok, s') \<and> inv s' \<and>
           view s' = (view s)(k \<mapsto> (v, ver, INFINITE_TTL, NEVER_EXPIRE)) \<and>
           resident s' = (resident s)(k := True)"
    and writeTTLKV_law: "\<lbrakk>inv s; storable k ver t dl ut um\<rbrakk> \<Longrightarrow>
      \<exists>s'. kv_writeTTLKV K k v ver t dl ut um s = Some (Status_ok, s') \<and> inv s' \<and>
           view s' = (view s)(k \<mapsto> (v, ver, t, dl)) \<and> resident s' = (resident s)(k := True)"
    and deleteKV_law: "\<lbrakk>inv s; resident s k\<rbrakk> \<Longrightarrow>
      \<exists>s'. kv_deleteKV K k recVer ver s = Some (Status_ok, s') \<and> inv s' \<and>
           view s' = (view s)(k := None) \<and> (\<forall>k'. k' \<noteq> k \<longrightarrow> resident s' k' = resident s k')"

text \<open>
  A \<^emph>\<open>cache\<close> also answers reads from its view: a key whose entry has not timed out is read
  with its value and version, any other key is not found. Reading changes the view at most at a
  key that timed out.
\<close>

locale kv_cache = kv_sink +
  assumes readKV_hit: "\<lbrakk>inv s; view s k = Some (v, ver, t, dl); \<not> isTimeOut now dl t\<rbrakk> \<Longrightarrow>
      \<exists>t' s'. kv_readKV K now k out s =
                Some (Status_ok, \<lparr>outValue = v, outTTL = t', outVersion = ver\<rparr>, s') \<and>
              inv s' \<and> view s' = view s \<and> resident s' = resident s \<and> (resident s k \<longrightarrow> t' = t)"
    and readKV_miss: "\<lbrakk>inv s; case view s k of None \<Rightarrow> True | Some (v, ver, t, dl) \<Rightarrow> isTimeOut now dl t\<rbrakk> \<Longrightarrow>
      \<exists>st out' s'. kv_readKV K now k out s = Some (st, out', s') \<and> isNotFound st \<and> inv s' \<and>
              (\<forall>k'. k' \<noteq> k \<longrightarrow> view s' k' = view s k' \<and> resident s' k' = resident s k') \<and>
              (view s k = None \<longrightarrow> view s' k = None)"

text \<open>
  A \<^emph>\<open>locking cache\<close> has locks that the data operations leave alone: when the locks of a set
  of keys are available they can be taken, and giving them back restores the lock state.
\<close>

locale kv_locking_cache = kv_cache +
  fixes locks :: "'s \<Rightarrow> 'l"
    and available :: "'l \<Rightarrow> KeyType list \<Rightarrow> bool \<Rightarrow> bool"
  assumes writeKV_locks: "kv_writeKV K k v ver ut um s = Some (st, s') \<Longrightarrow> locks s' = locks s"
    and writeTTLKV_locks: "kv_writeTTLKV K k v ver t dl ut um s = Some (st, s') \<Longrightarrow> locks s' = locks s"
    and deleteKV_locks: "kv_deleteKV K k recVer ver s = Some (st, s') \<Longrightarrow> locks s' = locks s"
    and readKV_locks: "kv_readKV K now k out s = Some (st, out', s') \<Longrightarrow> locks s' = locks s"
    and lock_law: "\<lbrakk>inv s; available (locks s) keys x\<rbrakk> \<Longrightarrow>
      \<exists>s'. kv_lock K keys x s = Some (Status_ok, s') \<and> inv s' \<and> view s' = view s \<and> resident s' = resident s"
    and unlock_law: "\<lbrakk>kv_lock K keys x s = Some (Status_ok, s1); inv s; inv s2; locks s2 = locks s1\<rbrakk> \<Longrightarrow>
      \<exists>s3. kv_unlock K keys x s2 = Some (Status_ok, s3) \<and> inv s3 \<and> view s3 = view s2 \<and>
           resident s3 = resident s2 \<and> locks s3 = locks s"

text \<open>
  A \<^emph>\<open>command store\<close> is what the commands run on: besides the data operations it answers reads
  of the meta and reads that go past the cache, which change nothing that can be observed, and a
  lock that is taken changes nothing but the locks.
\<close>

locale kv_command_store = kv_locking_cache +
  assumes lock_keeps: "\<lbrakk>kv_lock K keys x s = Some (st, s'); inv s\<rbrakk> \<Longrightarrow>
      st = Status_ok \<and> inv s' \<and> view s' = view s \<and> resident s' = resident s"
    and storable_any: "storable k ver t dl ut um"
    and deleteKV_any: "inv s \<Longrightarrow> \<exists>s' e. kv_deleteKV K k recVer ver s = Some (Status_ok, s') \<and> inv s' \<and>
      view s' = (view s)(k := e) \<and> (\<forall>k'. k' \<noteq> k \<longrightarrow> resident s' k' = resident s k')"
    and readMeta_law: "inv s \<Longrightarrow> \<exists>st meta' s'. kv_readMeta K k meta s = Some (st, meta', s') \<and>
      inv s' \<and> view s' = view s \<and> resident s' = resident s \<and> locks s' = locks s \<and>
      (resident s k \<longrightarrow> isOK st \<and> map_option snd (map_option snd (view s k)) = Some (meta_ttl meta', meta_deadline meta'))"
    and readKVFromProxy_law: "inv s \<Longrightarrow> \<exists>st out' s'. kv_readKVFromProxy K now k out s = Some (st, out', s') \<and>
      inv s' \<and> view s' = view s \<and> resident s' = resident s \<and> locks s' = locks s \<and> (isOK st \<or> isNotFound st)"
    and readMetaFromProxy_law: "inv s \<Longrightarrow> \<exists>st meta' s'. kv_readMetaFromProxy K k meta s = Some (st, meta', s') \<and>
      inv s' \<and> view s' = view s \<and> resident s' = resident s \<and> locks s' = locks s"

end
