(* ===== verification/RocksDB_Store.thy ===== *)
theory RocksDB_Store
  imports KV_Store
begin

text \<open>
  \<^verbatim>\<open>kv-engine/store/RocksDBKVStore\<close>: the durable store of a replica. A value is kept as a
  two-byte header, the serialised meta and the serialised data; writes and deletes gather in a
  write batch that \<^verbatim>\<open>commit\<close> and \<^verbatim>\<open>flush\<close> hand to the database in one
  write, together with the milestone; reads see the database and not the batch.

  The RocksDB library and the generated protobuf code are a record of functions \<open>L\<close>, an
  argument of the definitions. A write batch is the list of the updates recorded in it.
\<close>

section \<open>The libraries\<close>

datatype Data = DataUnset | SingleValue string | MultiValue "string list"

datatype BatchOp = BPut nat KeyType string | BDelete nat KeyType

datatype GetResult = GetOk string | GetNotFound string | GetError string

record 'db Lib =
  lib_Get :: "'db \<Rightarrow> nat \<Rightarrow> KeyType \<Rightarrow> GetResult"
  lib_Write :: "'db \<Rightarrow> BatchOp list \<Rightarrow> 'db option"
  lib_BatchAdd :: "BatchOp list \<Rightarrow> BatchOp \<Rightarrow> bool"
  lib_SerMeta :: "Meta \<Rightarrow> string"
  lib_ParseMeta :: "string \<Rightarrow> int \<Rightarrow> Meta option"
  lib_SerData :: "Data \<Rightarrow> string"
  lib_ParseData :: "string \<Rightarrow> Data option"

section \<open>Raw values\<close>

text \<open>The header is two bytes of type \<^verbatim>\<open>char\<close>.\<close>

definition headerLen :: nat where
  "headerLen = 2"

definition typeByte :: "DataType \<Rightarrow> char" where
  "typeByte ty = char_of (case ty of NORMAL \<Rightarrow> (0 :: nat) | NORMAL_WITH_TTL \<Rightarrow> 1 | OTHERS \<Rightarrow> 126)"

text \<open>The two overloads of \<^verbatim>\<open>toRawValue\<close>: without and with a time to live.\<close>

definition plainMeta :: "VersionType \<Rightarrow> TimeType \<Rightarrow> UserDefinedMeta \<Rightarrow> OpType \<Rightarrow> Meta" where
  "plainMeta ver ut um opTy =
     (addUdfMeta um (defaultMeta\<lparr>meta_version := ver, meta_updateTime := ut\<rparr>))
       \<lparr>meta_opType := opTy, meta_dataType := NORMAL\<rparr>"

definition ttlMeta :: "VersionType \<Rightarrow> TTLType \<Rightarrow> TimeType \<Rightarrow> TimeType \<Rightarrow> UserDefinedMeta \<Rightarrow> OpType \<Rightarrow> Meta" where
  "ttlMeta ver t dl ut um opTy =
     addUdfMeta um (defaultMeta\<lparr>meta_version := ver, meta_opType := opTy, meta_dataType := NORMAL_WITH_TTL,
       meta_ttl := t, meta_deadline := dl, meta_updateTime := ut\<rparr>)"

definition encodeRaw :: "'db Lib \<Rightarrow> DataType \<Rightarrow> Meta \<Rightarrow> Data \<Rightarrow> string" where
  "encodeRaw L ty meta dat =
     [typeByte ty, char_of (length (lib_SerMeta L meta) mod 256)] @ lib_SerMeta L meta @ lib_SerData L dat"

definition toRawValue :: "'db Lib \<Rightarrow> ValueType \<Rightarrow> VersionType \<Rightarrow> OpType \<Rightarrow> TimeType \<Rightarrow> UserDefinedMeta \<Rightarrow> string" where
  "toRawValue L v ver opTy ut um = encodeRaw L NORMAL (plainMeta ver ut um opTy) (SingleValue v)"

definition toRawValueTTL ::
  "'db Lib \<Rightarrow> ValueType \<Rightarrow> VersionType \<Rightarrow> TTLType \<Rightarrow> TimeType \<Rightarrow> OpType \<Rightarrow> TimeType \<Rightarrow> UserDefinedMeta \<Rightarrow> string" where
  "toRawValueTTL L v ver t dl opTy ut um = encodeRaw L NORMAL_WITH_TTL (ttlMeta ver t dl ut um opTy) (SingleValue v)"

text \<open>\<^verbatim>\<open>headerLen + header->mMetaLen\<close> is computed as a 32-bit unsigned integer from a signed
  \<^verbatim>\<open>char\<close>.\<close>

definition metaEnd :: "string \<Rightarrow> nat" where
  "metaEnd raw = nat ((int headerLen + signed_char (raw ! 1)) mod 2 ^ 32)"

definition parseMeta :: "'db Lib \<Rightarrow> string \<Rightarrow> Meta \<Rightarrow> Status \<times> Meta" where
  "parseMeta L raw meta =
     (if length raw \<le> headerLen then (Status_error ''corrupted header size'', meta)
      else if raw ! 0 \<noteq> typeByte NORMAL \<and> raw ! 0 \<noteq> typeByte NORMAL_WITH_TTL
           then (Status_error ''invalid type in header'', meta)
      else if length raw \<le> metaEnd raw then (Status_error ''corrupted payload'', meta)
      else (case lib_ParseMeta L (drop headerLen raw) (signed_char (raw ! 1)) of
              None \<Rightarrow> (Status_error ''corrupted payload'', meta)
            | Some meta' \<Rightarrow> (Status_ok, meta')))"

definition fromRawValue :: "'db Lib \<Rightarrow> string \<Rightarrow> Status \<times> Meta \<times> Data" where
  "fromRawValue L raw =
     (if length raw \<le> headerLen then (Status_error ''corrupted header size'', defaultMeta, DataUnset)
      else if raw ! 0 \<noteq> typeByte NORMAL \<and> raw ! 0 \<noteq> typeByte NORMAL_WITH_TTL
           then (Status_error ''invalid type in header'', defaultMeta, DataUnset)
      else if length raw \<le> metaEnd raw then (Status_error ''corrupted payload'', defaultMeta, DataUnset)
      else (case lib_ParseMeta L (drop headerLen raw) (signed_char (raw ! 1)) of
              None \<Rightarrow> (Status_error ''corrupted payload'', defaultMeta, DataUnset)
            | Some meta \<Rightarrow>
                if length raw \<le> metaEnd raw then (Status_error ''corrupted payload'', meta, DataUnset)
                else (case lib_ParseData L (drop (metaEnd raw) raw) of
                        None \<Rightarrow> (Status_error ''corrupted payload'', meta, DataUnset)
                      | Some dat \<Rightarrow> (Status_ok, meta, dat))))"

text \<open>The compaction filter: \<^const>\<open>True\<close> lets the compaction drop the entry. It reads the
  header before it looks at the length.\<close>

definition TTLCompactionFilter_Filter :: "'db Lib \<Rightarrow> TimeType \<Rightarrow> string \<Rightarrow> bool option" where
  "TTLCompactionFilter_Filter L now raw =
     (if raw = [] then None
      else if raw ! 0 \<noteq> typeByte NORMAL_WITH_TTL then Some False
      else let (st, meta) = parseMeta L raw defaultMeta
           in Some (isOK st \<and> isTimeOut now (meta_deadline meta) (meta_ttl meta)))"

section \<open>The store\<close>

definition kPersistedMilestone :: KeyType where
  "kPersistedMilestone = ''persistedMilestone''"

definition kCFMetaDefault :: WSName where
  "kCFMetaDefault = ''default''"

record 'db RocksDBKVStore =
  mDefaultWSLookupFunc :: "KeyType \<Rightarrow> WSName"
  mRocksDB :: 'db
  mColumnFamilyNames :: "WSName list"
  mWriteBatch :: "BatchOp list"
  mRObserved :: "ObserverCall list"

text \<open>\<^verbatim>\<open>std::find\<close> and \<^verbatim>\<open>std::distance\<close> on the vector of names.\<close>

primrec find_index :: "'a \<Rightarrow> 'a list \<Rightarrow> nat option" where
  "find_index x [] = None"
| "find_index x (y # ys) = (if y = x then Some 0 else map_option Suc (find_index x ys))"

definition findCFHandleByName :: "WSName \<Rightarrow> 'db RocksDBKVStore \<Rightarrow> nat option" where
  "findCFHandleByName wsName r =
     (if wsName = kCFMetaDefault then Some 0
      else map_option Suc (find_index wsName (mColumnFamilyNames r)))"

definition findCFHandle :: "KeyType \<Rightarrow> (KeyType \<Rightarrow> WSName) option \<Rightarrow> 'db RocksDBKVStore \<Rightarrow> nat option" where
  "findCFHandle key wsLookup r =
     (if key = kCFMetaDefault then Some 0
      else let wsName = (case wsLookup of Some f \<Rightarrow> f key | None \<Rightarrow> mDefaultWSLookupFunc r key)
           in map_option Suc (find_index wsName (mColumnFamilyNames r)))"

text \<open>Recording an update in the batch; the process ends when the library refuses it.\<close>

definition batchAdd :: "'db Lib \<Rightarrow> BatchOp \<Rightarrow> 'db RocksDBKVStore \<Rightarrow> 'db RocksDBKVStore option" where
  "batchAdd L u r = do {
     assert (lib_BatchAdd L (mWriteBatch r) u);
     Some (r\<lparr>mWriteBatch := mWriteBatch r @ [u]\<rparr>)
   }"

definition Rocks_observe :: "ObserverCall \<Rightarrow> 'db RocksDBKVStore \<Rightarrow> 'db RocksDBKVStore" where
  "Rocks_observe c r = r\<lparr>mRObserved := mRObserved r @ [c]\<rparr>"

definition Rocks_writeKV ::
  "'db Lib \<Rightarrow> (KeyType \<Rightarrow> WSName) option \<Rightarrow> KeyType \<Rightarrow> ValueType \<Rightarrow> VersionType \<Rightarrow> TimeType \<Rightarrow> UserDefinedMeta \<Rightarrow>
   'db RocksDBKVStore \<Rightarrow> (Status \<times> 'db RocksDBKVStore) option" where
  "Rocks_writeKV L wsLookup key v ver ut um r = do {
     cf \<leftarrow> findCFHandle key wsLookup r;
     r1 \<leftarrow> batchAdd L (BPut cf key (toRawValue L v ver SINGLE ut um)) r;
     Some (Status_ok, Rocks_observe (OnWriteValue key v ver) r1)
   }"

definition Rocks_writeTTLKV ::
  "'db Lib \<Rightarrow> (KeyType \<Rightarrow> WSName) option \<Rightarrow> KeyType \<Rightarrow> ValueType \<Rightarrow> VersionType \<Rightarrow> TTLType \<Rightarrow> TimeType \<Rightarrow> TimeType \<Rightarrow>
   UserDefinedMeta \<Rightarrow> 'db RocksDBKVStore \<Rightarrow> (Status \<times> 'db RocksDBKVStore) option" where
  "Rocks_writeTTLKV L wsLookup key v ver t dl ut um r = do {
     cf \<leftarrow> findCFHandle key wsLookup r;
     r1 \<leftarrow> batchAdd L (BPut cf key (toRawValueTTL L v ver t dl SINGLE ut um)) r;
     Some (Status_ok, r1)
   }"

definition Rocks_readKV ::
  "'db Lib \<Rightarrow> (KeyType \<Rightarrow> WSName) option \<Rightarrow> TimeType \<Rightarrow> KeyType \<Rightarrow> ReadOut \<Rightarrow> 'db RocksDBKVStore \<Rightarrow>
   (Status \<times> ReadOut \<times> 'db RocksDBKVStore) option" where
  "Rocks_readKV L wsLookup now key out r = do {
     cf \<leftarrow> findCFHandle key wsLookup r;
     case lib_Get L (mRocksDB r) cf key of
       GetOk raw \<Rightarrow>
         let (st, meta, dat) = fromRawValue L raw in
         if \<not> isOK st then None
         else (case dat of
             SingleValue v \<Rightarrow>
               if isTimeOut now (meta_deadline meta) (meta_ttl meta)
               then Some (Status_notFound (notFoundMsg key), out, r)
               else Some (Status_ok, out\<lparr>outValue := v, outVersion := meta_version meta\<rparr>, r)
           | _ \<Rightarrow> None)
     | GetNotFound _ \<Rightarrow> Some (Status_notFound (notFoundMsg key), out, r)
     | GetError msg \<Rightarrow> Some (Status_error msg, out, r)
   }"

definition Rocks_deleteKV ::
  "'db Lib \<Rightarrow> (KeyType \<Rightarrow> WSName) option \<Rightarrow> KeyType \<Rightarrow> VersionType \<Rightarrow> VersionType \<Rightarrow>
   'db RocksDBKVStore \<Rightarrow> (Status \<times> 'db RocksDBKVStore) option" where
  "Rocks_deleteKV L wsLookup key deleteRecordVersion deletedVersion r = do {
     cf \<leftarrow> findCFHandle key wsLookup r;
     r1 \<leftarrow> batchAdd L (BDelete cf key) r;
     Some (Status_ok, Rocks_observe (OnDeleteKey key deletedVersion deleteRecordVersion) r1)
   }"

definition Rocks_readMeta ::
  "'db Lib \<Rightarrow> (KeyType \<Rightarrow> WSName) option \<Rightarrow> KeyType \<Rightarrow> Meta \<Rightarrow> 'db RocksDBKVStore \<Rightarrow>
   (Status \<times> Meta \<times> 'db RocksDBKVStore) option" where
  "Rocks_readMeta L wsLookup key meta r = do {
     cf \<leftarrow> findCFHandle key wsLookup r;
     case lib_Get L (mRocksDB r) cf key of
       GetOk raw \<Rightarrow> let (st, meta') = parseMeta L raw meta in Some (st, meta', r)
     | GetNotFound msg \<Rightarrow> Some (Status_notFound msg, meta, r)
     | GetError msg \<Rightarrow> Some (Status_error msg, meta, r)
   }"

definition flushToRocksDB :: "'db Lib \<Rightarrow> 'db RocksDBKVStore \<Rightarrow> (Status \<times> 'db RocksDBKVStore) option" where
  "flushToRocksDB L r = do {
     db' \<leftarrow> lib_Write L (mRocksDB r) (mWriteBatch r);
     Some (Status_ok, r\<lparr>mRocksDB := db', mWriteBatch := []\<rparr>)
   }"

definition Rocks_commit ::
  "'db Lib \<Rightarrow> MilestoneType \<Rightarrow> 'db RocksDBKVStore \<Rightarrow> (Status \<times> 'db RocksDBKVStore) option" where
  "Rocks_commit L milestone r = do {
     cf \<leftarrow> findCFHandle kCFMetaDefault None r;
     r1 \<leftarrow> batchAdd L (BPut cf kPersistedMilestone (to_string (unat milestone))) r;
     flushToRocksDB L r1
   }"

definition Rocks_loadMilestone ::
  "'db Lib \<Rightarrow> MilestoneType \<Rightarrow> 'db RocksDBKVStore \<Rightarrow> (Status \<times> MilestoneType \<times> 'db RocksDBKVStore) option" where
  "Rocks_loadMilestone L milestone r = do {
     cf \<leftarrow> findCFHandle kCFMetaDefault None r;
     case lib_Get L (mRocksDB r) cf kPersistedMilestone of
       GetOk raw \<Rightarrow> do { m \<leftarrow> stoull raw; Some (Status_ok, m, r) }
     | GetNotFound msg \<Rightarrow> Some (Status_notFound msg, milestone, r)
     | GetError msg \<Rightarrow> Some (Status_error msg, milestone, r)
   }"

definition RocksDB_ops :: "'db Lib \<Rightarrow> 'db RocksDBKVStore KVStore" where
  "RocksDB_ops L = KVStore_base\<lparr>
     kv_writeKV := Rocks_writeKV L None,
     kv_writeTTLKV := Rocks_writeTTLKV L None,
     kv_readKV := Rocks_readKV L None,
     kv_deleteKV := Rocks_deleteKV L None,
     kv_readMeta := Rocks_readMeta L None,
     kv_commit := Rocks_commit L,
     kv_loadMilestone := Rocks_loadMilestone L,
     kv_flush := flushToRocksDB L,
     kv_isClearState := \<lambda>r. Some (mWriteBatch r = [])\<rparr>"

section \<open>What the libraries promise\<close>

text \<open>
  The database as a map of raw values, and what a batch does to it: the updates of a write batch
  are applied in the order they were recorded, all of them (the documented behaviour of
  \<^verbatim>\<open>DB::Write\<close>). A parser undoes its serialiser, and the encoding of a message with its
  value set is not empty.
\<close>

definition rawOf :: "GetResult \<Rightarrow> string option" where
  "rawOf g = (case g of GetOk raw \<Rightarrow> Some raw | _ \<Rightarrow> None)"

type_synonym RawMap = "nat \<times> KeyType \<Rightarrow> string option"

definition dbMap :: "'db Lib \<Rightarrow> 'db \<Rightarrow> RawMap" where
  "dbMap L db = (\<lambda>(cf, k). rawOf (lib_Get L db cf k))"

primrec batchStep :: "BatchOp \<Rightarrow> RawMap \<Rightarrow> RawMap" where
  "batchStep (BPut cf k raw) f = f((cf, k) := Some raw)"
| "batchStep (BDelete cf k) f = f((cf, k) := None)"

definition rocksdb_spec :: "'db Lib \<Rightarrow> bool" where
  "rocksdb_spec L =
     ((\<forall>db b. \<exists>db'. lib_Write L db b = Some db' \<and> dbMap L db' = fold batchStep b (dbMap L db)) \<and>
      (\<forall>b u. lib_BatchAdd L b u) \<and>
      (\<forall>db cf k msg. lib_Get L db cf k \<noteq> GetError msg))"

definition protobuf_spec :: "'db Lib \<Rightarrow> bool" where
  "protobuf_spec L =
     ((\<forall>m rest. lib_ParseMeta L (lib_SerMeta L m @ rest) (int (length (lib_SerMeta L m))) = Some m) \<and>
      (\<forall>v. lib_ParseData L (lib_SerData L (SingleValue v)) = Some (SingleValue v)) \<and>
      (\<forall>v. lib_SerData L (SingleValue v) \<noteq> []))"

section \<open>The raw value round trip\<close>

lemma typeByte_inj: "typeByte NORMAL \<noteq> typeByte NORMAL_WITH_TTL"
  by (simp add: typeByte_def)

lemma signed_char_of_small: "n < 128 \<Longrightarrow> signed_char (char_of (n mod 256)) = int n"
  by (simp add: signed_char_def of_char_of)

lemma signed_char_of_large:
  "128 \<le> n \<Longrightarrow> n < 256 \<Longrightarrow> signed_char (char_of (n mod 256)) = int n - 256"
  by (simp add: signed_char_def of_char_of)

lemma encodeRaw_shape:
  "encodeRaw L ty meta dat ! 0 = typeByte ty"
  "encodeRaw L ty meta dat ! 1 = char_of (length (lib_SerMeta L meta) mod 256)"
  "drop headerLen (encodeRaw L ty meta dat) = lib_SerMeta L meta @ lib_SerData L dat"
  "length (encodeRaw L ty meta dat) = headerLen + length (lib_SerMeta L meta) + length (lib_SerData L dat)"
  by (simp_all add: encodeRaw_def headerLen_def)

lemma signed_char_encodeRaw:
  "length (lib_SerMeta L meta) < 128 \<Longrightarrow>
   signed_char (encodeRaw L ty meta dat ! 1) = int (length (lib_SerMeta L meta))"
  unfolding encodeRaw_shape by (rule signed_char_of_small)

lemma metaEnd_encodeRaw:
  "length (lib_SerMeta L meta) < 128 \<Longrightarrow>
   metaEnd (encodeRaw L ty meta dat) = headerLen + length (lib_SerMeta L meta)"
  unfolding metaEnd_def by (simp only: signed_char_encodeRaw) (simp add: headerLen_def)

lemma drop_metaEnd_encodeRaw:
  "drop (headerLen + length (lib_SerMeta L meta)) (encodeRaw L ty meta dat) = lib_SerData L dat"
  by (simp add: encodeRaw_def headerLen_def)

lemma fromRawValue_encodeRaw:
  assumes "protobuf_spec L" and len: "length (lib_SerMeta L meta) < 128" and ty: "ty = NORMAL \<or> ty = NORMAL_WITH_TTL"
  shows "fromRawValue L (encodeRaw L ty meta (SingleValue v)) = (Status_ok, meta, SingleValue v)"
    and "parseMeta L (encodeRaw L ty meta (SingleValue v)) meta0 = (Status_ok, meta)"
proof -
  let ?raw = "encodeRaw L ty meta (SingleValue v)"
  have parse: "lib_ParseMeta L (drop headerLen ?raw) (signed_char (?raw ! 1)) = Some meta"
    using assms(1) by (simp only: signed_char_encodeRaw [OF len] encodeRaw_shape(3)) (simp add: protobuf_spec_def)
  have data: "lib_ParseData L (drop (metaEnd ?raw) ?raw) = Some (SingleValue v)" "lib_SerData L (SingleValue v) \<noteq> []"
    using assms(1) by (simp_all only: metaEnd_encodeRaw [OF len] drop_metaEnd_encodeRaw) (simp_all add: protobuf_spec_def)
  have shape: "\<not> length ?raw \<le> headerLen" "\<not> length ?raw \<le> metaEnd ?raw"
      "\<not> (?raw ! 0 \<noteq> typeByte NORMAL \<and> ?raw ! 0 \<noteq> typeByte NORMAL_WITH_TTL)"
    using ty data(2) by (auto simp: encodeRaw_shape metaEnd_encodeRaw [OF len])
  show "fromRawValue L ?raw = (Status_ok, meta, SingleValue v)"
    unfolding fromRawValue_def by (simp only: shape if_False parse data option.case)
  show "parseMeta L ?raw meta0 = (Status_ok, meta)"
    unfolding parseMeta_def by (simp only: shape if_False parse option.case)
qed

section \<open>What the store shows\<close>

definition decodeEntry :: "'db Lib \<Rightarrow> string \<Rightarrow> Entry option" where
  "decodeEntry L raw =
     (let (st, meta, dat) = fromRawValue L raw in
      if isOK st then (case dat of
          SingleValue v \<Rightarrow> Some (v, meta_version meta, meta_ttl meta, meta_deadline meta)
        | _ \<Rightarrow> None)
      else None)"

definition viewOf :: "'db Lib \<Rightarrow> 'db RocksDBKVStore \<Rightarrow> RawMap \<Rightarrow> View" where
  "viewOf L r f = (\<lambda>k. case findCFHandle k None r of
      None \<Rightarrow> None
    | Some cf \<Rightarrow> (case f (cf, k) of None \<Rightarrow> None | Some raw \<Rightarrow> decodeEntry L raw))"

definition Rocks_committed :: "'db Lib \<Rightarrow> 'db RocksDBKVStore \<Rightarrow> View" where
  "Rocks_committed L r = viewOf L r (dbMap L (mRocksDB r))"

definition pendingMap :: "'db Lib \<Rightarrow> 'db RocksDBKVStore \<Rightarrow> RawMap" where
  "pendingMap L r = fold batchStep (mWriteBatch r) (dbMap L (mRocksDB r))"

definition Rocks_pending :: "'db Lib \<Rightarrow> 'db RocksDBKVStore \<Rightarrow> View" where
  "Rocks_pending L r = viewOf L r (pendingMap L r)"

text \<open>Every raw value stored for a key can be decoded.\<close>

definition decodable :: "'db Lib \<Rightarrow> 'db RocksDBKVStore \<Rightarrow> RawMap \<Rightarrow> bool" where
  "decodable L r f = (\<forall>k cf raw. findCFHandle k None r = Some cf \<longrightarrow> f (cf, k) = Some raw \<longrightarrow> decodeEntry L raw \<noteq> None)"

definition Rocks_inv :: "'db Lib \<Rightarrow> 'db RocksDBKVStore \<Rightarrow> bool" where
  "Rocks_inv L r = (rocksdb_spec L \<and> protobuf_spec L \<and> (\<forall>k. findCFHandle k None r \<noteq> None) \<and>
     decodable L r (dbMap L (mRocksDB r)) \<and> decodable L r (pendingMap L r))"

definition Rocks_storable ::
  "'db Lib \<Rightarrow> KeyType \<Rightarrow> VersionType \<Rightarrow> TTLType \<Rightarrow> TimeType \<Rightarrow> TimeType \<Rightarrow> UserDefinedMeta \<Rightarrow> bool" where
  "Rocks_storable L k ver t dl ut um =
     (length (lib_SerMeta L (plainMeta ver ut um SINGLE)) < 128 \<and>
      length (lib_SerMeta L (ttlMeta ver t dl ut um SINGLE)) < 128)"

lemma RocksDB_ops_sel [simp]:
  "kv_writeKV (RocksDB_ops L) = Rocks_writeKV L None"
  "kv_writeTTLKV (RocksDB_ops L) = Rocks_writeTTLKV L None"
  "kv_readKV (RocksDB_ops L) = Rocks_readKV L None"
  "kv_deleteKV (RocksDB_ops L) = Rocks_deleteKV L None"
  "kv_readMeta (RocksDB_ops L) = Rocks_readMeta L None"
  "kv_commit (RocksDB_ops L) = Rocks_commit L"
  "kv_loadMilestone (RocksDB_ops L) = Rocks_loadMilestone L"
  "kv_isClearState (RocksDB_ops L) = (\<lambda>r. Some (mWriteBatch r = []))"
  by (simp_all add: RocksDB_ops_def KVStore_base_def)

lemma findCFHandle_cong [simp]:
  "findCFHandle k w (r\<lparr>mWriteBatch := b\<rparr>) = findCFHandle k w r"
  "findCFHandle k w (r\<lparr>mRocksDB := db\<rparr>) = findCFHandle k w r"
  "findCFHandle k w (Rocks_observe c r) = findCFHandle k w r"
  by (simp_all add: findCFHandle_def Rocks_observe_def cong: option.case_cong)

lemma addUdfMeta_sel [simp]:
  "meta_version (addUdfMeta um m) = meta_version m"
  "meta_ttl (addUdfMeta um m) = meta_ttl m"
  "meta_deadline (addUdfMeta um m) = meta_deadline m"
  by (simp_all add: addUdfMeta_def Let_def)

lemma decode_toRawValue:
  assumes "protobuf_spec L" and "length (lib_SerMeta L (plainMeta ver ut um opTy)) < 128"
  shows "decodeEntry L (toRawValue L v ver opTy ut um) = Some (v, ver, INFINITE_TTL, NEVER_EXPIRE)"
  using fromRawValue_encodeRaw(1) [OF assms, of NORMAL v]
  by (simp add: decodeEntry_def toRawValue_def)
    (simp add: plainMeta_def defaultMeta_def INFINITE_TTL_def NEVER_EXPIRE_def)

lemma decode_toRawValueTTL:
  assumes "protobuf_spec L" and "length (lib_SerMeta L (ttlMeta ver t dl ut um opTy)) < 128"
  shows "decodeEntry L (toRawValueTTL L v ver t dl opTy ut um) = Some (v, ver, t, dl)"
  using fromRawValue_encodeRaw(1) [OF assms, of NORMAL_WITH_TTL v]
  by (simp add: decodeEntry_def toRawValueTTL_def) (simp add: ttlMeta_def)

lemma batchAdd_eq: "rocksdb_spec L \<Longrightarrow> batchAdd L u r = Some (r\<lparr>mWriteBatch := mWriteBatch r @ [u]\<rparr>)"
  by (simp add: batchAdd_def rocksdb_spec_def)

lemma pendingMap_add [simp]:
  "pendingMap L (r\<lparr>mWriteBatch := mWriteBatch r @ [u]\<rparr>) = batchStep u (pendingMap L r)"
  by (simp add: pendingMap_def)

lemma Rocks_observe_sel [simp]:
  "pendingMap L (Rocks_observe c r) = pendingMap L r"
  "mRocksDB (Rocks_observe c r) = mRocksDB r"
  "mWriteBatch (Rocks_observe c r) = mWriteBatch r"
  by (simp_all add: pendingMap_def Rocks_observe_def)

lemma viewOf_cong [simp]:
  "viewOf L (r\<lparr>mWriteBatch := b\<rparr>) = viewOf L r"
  "viewOf L (r\<lparr>mRocksDB := db\<rparr>) = viewOf L r"
  "viewOf L (Rocks_observe c r) = viewOf L r"
  by (simp_all add: viewOf_def fun_eq_iff)

lemma decodable_cong [simp]:
  "decodable L (r\<lparr>mWriteBatch := b\<rparr>) = decodable L r"
  "decodable L (r\<lparr>mRocksDB := db\<rparr>) = decodable L r"
  "decodable L (Rocks_observe c r) = decodable L r"
  by (simp_all add: decodable_def fun_eq_iff)

lemma Rocks_observe_abs [simp]:
  "Rocks_pending L (Rocks_observe c r) = Rocks_pending L r"
  "Rocks_committed L (Rocks_observe c r) = Rocks_committed L r"
  "Rocks_inv L (Rocks_observe c r) = Rocks_inv L r"
  by (simp_all add: Rocks_pending_def Rocks_committed_def Rocks_inv_def)

lemma viewOf_put:
  "findCFHandle k None r = Some cf \<Longrightarrow>
   viewOf L r (f((cf, k) := Some raw)) = (viewOf L r f)(k := decodeEntry L raw)"
  by (auto simp: viewOf_def fun_eq_iff split: option.splits)

lemma viewOf_delete:
  "findCFHandle k None r = Some cf \<Longrightarrow> viewOf L r (f((cf, k) := None)) = (viewOf L r f)(k := None)"
  by (auto simp: viewOf_def fun_eq_iff split: option.splits)

lemma Rocks_put_effect:
  assumes inv: "Rocks_inv L r" and cf: "findCFHandle k None r = Some cf" and dec: "decodeEntry L raw = Some e"
    and r': "r' = r\<lparr>mWriteBatch := mWriteBatch r @ [BPut cf k raw]\<rparr>"
  shows "Rocks_inv L r'" and "Rocks_pending L r' = (Rocks_pending L r)(k \<mapsto> e)"
    and "Rocks_committed L r' = Rocks_committed L r"
proof -
  show "Rocks_inv L r'"
    using inv dec by (cases e) (auto simp: r' Rocks_inv_def decodable_def)
  show "Rocks_pending L r' = (Rocks_pending L r)(k \<mapsto> e)"
    by (simp add: r' Rocks_pending_def viewOf_put [OF cf] dec)
  show "Rocks_committed L r' = Rocks_committed L r"
    by (simp add: r' Rocks_committed_def)
qed

lemma Rocks_del_effect:
  assumes inv: "Rocks_inv L r" and cf: "findCFHandle k None r = Some cf"
    and r': "r' = r\<lparr>mWriteBatch := mWriteBatch r @ [BDelete cf k]\<rparr>"
  shows "Rocks_inv L r'" and "Rocks_pending L r' = (Rocks_pending L r)(k := None)"
    and "Rocks_committed L r' = Rocks_committed L r"
proof -
  show "Rocks_inv L r'"
    using inv by (auto simp: r' Rocks_inv_def decodable_def)
  show "Rocks_pending L r' = (Rocks_pending L r)(k := None)"
    by (simp add: r' Rocks_pending_def viewOf_delete [OF cf])
  show "Rocks_committed L r' = Rocks_committed L r"
    by (simp add: r' Rocks_committed_def)
qed

lemma Rocks_cf: "Rocks_inv L r \<Longrightarrow> \<exists>cf. findCFHandle k None r = Some cf"
  by (simp add: Rocks_inv_def)

lemma Rocks_writeKV_effect:
  assumes inv: "Rocks_inv L r" and st: "Rocks_storable L k ver INFINITE_TTL NEVER_EXPIRE ut um"
  shows "\<exists>r'. Rocks_writeKV L None k v ver ut um r = Some (Status_ok, r') \<and> Rocks_inv L r' \<and>
           Rocks_pending L r' = (Rocks_pending L r)(k \<mapsto> (v, ver, INFINITE_TTL, NEVER_EXPIRE)) \<and>
           Rocks_committed L r' = Rocks_committed L r"
proof -
  obtain cf where cf: "findCFHandle k None r = Some cf"
    using Rocks_cf [OF inv] by blast
  have lib: "rocksdb_spec L" "protobuf_spec L"
    using inv by (simp_all add: Rocks_inv_def)
  have "decodeEntry L (toRawValue L v ver SINGLE ut um) = Some (v, ver, INFINITE_TTL, NEVER_EXPIRE)"
    using decode_toRawValue [OF lib(2)] st by (auto simp: Rocks_storable_def)
  from Rocks_put_effect [OF inv cf this refl] show ?thesis
    by (simp add: Rocks_writeKV_def cf batchAdd_eq lib)
qed

lemma Rocks_writeTTLKV_effect:
  assumes inv: "Rocks_inv L r" and st: "Rocks_storable L k ver t dl ut um"
  shows "\<exists>r'. Rocks_writeTTLKV L None k v ver t dl ut um r = Some (Status_ok, r') \<and> Rocks_inv L r' \<and>
           Rocks_pending L r' = (Rocks_pending L r)(k \<mapsto> (v, ver, t, dl)) \<and>
           Rocks_committed L r' = Rocks_committed L r"
proof -
  obtain cf where cf: "findCFHandle k None r = Some cf"
    using Rocks_cf [OF inv] by blast
  have lib: "rocksdb_spec L" "protobuf_spec L"
    using inv by (simp_all add: Rocks_inv_def)
  have "decodeEntry L (toRawValueTTL L v ver t dl SINGLE ut um) = Some (v, ver, t, dl)"
    using decode_toRawValueTTL [OF lib(2)] st by (auto simp: Rocks_storable_def)
  from Rocks_put_effect [OF inv cf this refl] show ?thesis
    by (simp add: Rocks_writeTTLKV_def cf batchAdd_eq lib)
qed

lemma Rocks_deleteKV_effect:
  assumes inv: "Rocks_inv L r"
  shows "\<exists>r'. Rocks_deleteKV L None k recVer ver r = Some (Status_ok, r') \<and> Rocks_inv L r' \<and>
           Rocks_pending L r' = (Rocks_pending L r)(k := None) \<and> Rocks_committed L r' = Rocks_committed L r"
proof -
  obtain cf where cf: "findCFHandle k None r = Some cf"
    using Rocks_cf [OF inv] by blast
  have lib: "rocksdb_spec L"
    using inv by (simp add: Rocks_inv_def)
  from Rocks_del_effect [OF inv cf refl] show ?thesis
    by (simp add: Rocks_deleteKV_def cf batchAdd_eq lib)
qed

text \<open>A read is answered from the committed values alone.\<close>

lemma Rocks_readKV_eq:
  assumes inv: "Rocks_inv L r"
  shows "Rocks_readKV L None now k out r = Some (case visible now (Rocks_committed L r) k of
      None \<Rightarrow> (Status_notFound (notFoundMsg k), out, r)
    | Some (v, ver) \<Rightarrow> (Status_ok, out\<lparr>outValue := v, outVersion := ver\<rparr>, r))"
proof -
  obtain cf where cf: "findCFHandle k None r = Some cf"
    using Rocks_cf [OF inv] by blast
  show ?thesis
  proof (cases "lib_Get L (mRocksDB r) cf k")
    case (GetOk raw)
    then have raw: "dbMap L (mRocksDB r) (cf, k) = Some raw"
      by (simp add: dbMap_def rawOf_def)
    then have "decodeEntry L raw \<noteq> None"
      using inv cf unfolding Rocks_inv_def decodable_def by blast
    then obtain st meta v where "fromRawValue L raw = (st, meta, SingleValue v)" "isOK st"
      and dec: "decodeEntry L raw = Some (v, meta_version meta, meta_ttl meta, meta_deadline meta)"
      by (auto simp: decodeEntry_def split: prod.splits if_splits Data.splits)
    then show ?thesis
      using raw by (simp add: Rocks_readKV_def cf GetOk visible_def Rocks_committed_def viewOf_def)
  next
    case (GetNotFound msg)
    then show ?thesis
      by (simp add: Rocks_readKV_def cf visible_def Rocks_committed_def viewOf_def dbMap_def rawOf_def)
  next
    case (GetError msg)
    then show ?thesis
      using inv by (simp add: Rocks_inv_def rocksdb_spec_def)
  qed
qed

text \<open>A commit makes what is pending visible, together with the milestone, and empties the batch.\<close>

lemma Rocks_commit_effect:
  assumes inv: "Rocks_inv L r"
  shows "\<exists>r'. Rocks_commit L ms r = Some (Status_ok, r') \<and> Rocks_inv L r' \<and>
           Rocks_committed L r' = Rocks_pending L r \<and> Rocks_pending L r' = Rocks_pending L r \<and>
           mWriteBatch r' = [] \<and> Rocks_loadMilestone L ms0 r' = Some (Status_ok, ms, r')"
proof -
  have cf0: "findCFHandle kCFMetaDefault None r' = Some 0" for r' :: "'a RocksDBKVStore"
    by (simp add: findCFHandle_def)
  have lib: "rocksdb_spec L"
    using inv by (simp add: Rocks_inv_def)
  let ?b = "mWriteBatch r @ [BPut 0 kPersistedMilestone (to_string (unat ms))]"
  obtain db' where db': "lib_Write L (mRocksDB r) ?b = Some db'"
    "dbMap L db' = (pendingMap L r)((0, kPersistedMilestone) := Some (to_string (unat ms)))"
    using lib unfolding rocksdb_spec_def pendingMap_def by force
  define r' where "r' = r\<lparr>mRocksDB := db', mWriteBatch := []\<rparr>"
  have not0: "findCFHandle kPersistedMilestone None r \<noteq> Some 0"
    by (simp add: findCFHandle_def kPersistedMilestone_def kCFMetaDefault_def Let_def)
  have keep: "dbMap L db' (cf, k) = pendingMap L r (cf, k)" if "findCFHandle k None r = Some cf" for k cf
    using that not0 by (auto simp: db')
  have view: "viewOf L r (dbMap L db') = viewOf L r (pendingMap L r)"
    using keep by (auto simp: viewOf_def fun_eq_iff split: option.splits)
  have dec: "decodable L r (dbMap L db')"
    using inv keep unfolding Rocks_inv_def decodable_def by metis
  have pend: "pendingMap L r' = dbMap L db'"
    by (simp add: pendingMap_def r'_def)
  have "Rocks_commit L ms r = Some (Status_ok, r')"
    using db' by (simp add: Rocks_commit_def cf0 batchAdd_eq [OF lib] flushToRocksDB_def r'_def)
  moreover have "Rocks_inv L r'"
    using inv dec by (simp add: Rocks_inv_def pend) (simp add: r'_def)
  moreover have "Rocks_committed L r' = Rocks_pending L r" "Rocks_pending L r' = Rocks_pending L r"
    using view by (simp_all add: Rocks_committed_def Rocks_pending_def pend) (simp_all add: r'_def)
  moreover have "Rocks_loadMilestone L ms0 r' = Some (Status_ok, ms, r')"
  proof -
    have "rawOf (lib_Get L db' 0 kPersistedMilestone) = Some (to_string (unat ms))"
      using fun_cong [OF db'(2), of "(0, kPersistedMilestone)"] by (simp add: dbMap_def)
    then have "lib_Get L db' 0 kPersistedMilestone = GetOk (to_string (unat ms))"
      by (auto simp: rawOf_def split: GetResult.splits)
    then show ?thesis
      using stoull_to_string [OF unat_less_64 [of ms]]
      by (simp add: Rocks_loadMilestone_def cf0) (simp add: r'_def)
  qed
  ultimately show ?thesis
    by (simp add: r'_def)
qed

interpretation rocks: kv_sink "RocksDB_ops L" "Rocks_inv L" "Rocks_pending L" "Rocks_storable L" "\<lambda>_ _. True"
  for L
proof (unfold_locales, goal_cases)
  case (1 s k ver ut um v)
  then show ?case
    using Rocks_writeKV_effect [of L s k ver ut um v] by (auto simp: fun_eq_iff)
next
  case (2 s k ver t dl ut um v)
  then show ?case
    using Rocks_writeTTLKV_effect [of L s k ver t dl ut um v] by (auto simp: fun_eq_iff)
next
  case (3 s k recVer ver)
  then show ?case
    using Rocks_deleteKV_effect [of L s k recVer ver] by auto
qed

end
