(* ===== verification/Routed_Store.thy ===== *)
theory Routed_Store
  imports KV_Store
begin

text \<open>
  Two contracts shared by the caches. An \<^emph>\<open>overlay\<close> is a cache whose operations leave the
  store it delegates to unchanged. A \<^emph>\<open>routed\<close> store sends the operations on a key to the
  member of a family of overlays that a routing function names; such a store is an overlay again,
  which is how both the segments of a concurrent store and the working sets of the outermost
  store are verified.
\<close>

text \<open>What a family of stores shows: each key at the member it is routed to.\<close>

definition routedView :: "('c \<times> 'd \<Rightarrow> View) \<Rightarrow> ('s \<Rightarrow> 'i \<Rightarrow> 'c) \<Rightarrow> (KeyType \<Rightarrow> 'i) \<Rightarrow> 's \<times> 'd \<Rightarrow> View" where
  "routedView view get route = (\<lambda>(s, d) k. view (get s (route k), d) k)"

definition routedInv ::
  "('c \<times> 'd \<Rightarrow> bool) \<Rightarrow> ('s \<Rightarrow> 'i \<Rightarrow> 'c) \<Rightarrow> (KeyType \<Rightarrow> 'i) \<Rightarrow> ('s \<Rightarrow> bool) \<Rightarrow> 's \<times> 'd \<Rightarrow> bool" where
  "routedInv cinv get route valid = (\<lambda>(s, d). valid s \<and> (\<forall>k. cinv (get s (route k), d)))"

definition routedResident ::
  "('c \<times> 'd \<Rightarrow> KeyType \<Rightarrow> bool) \<Rightarrow> ('s \<Rightarrow> 'i \<Rightarrow> 'c) \<Rightarrow> (KeyType \<Rightarrow> 'i) \<Rightarrow> 's \<times> 'd \<Rightarrow> KeyType \<Rightarrow> bool" where
  "routedResident resident get route = (\<lambda>(s, d) k. resident (get s (route k), d) k)"

text \<open>A \<^emph>\<open>probe\<close> of a key answers, and changes nothing that can be observed; \<open>Q\<close> relates its
  answer to what the store shows of the key.\<close>

definition probes ::
  "('c \<times> 'd \<Rightarrow> bool) \<Rightarrow> ('c \<times> 'd \<Rightarrow> View) \<Rightarrow> ('c \<times> 'd \<Rightarrow> KeyType \<Rightarrow> bool) \<Rightarrow> KeyType \<Rightarrow>
   (Entry option \<Rightarrow> bool \<Rightarrow> Status \<Rightarrow> 'o \<Rightarrow> bool) \<Rightarrow> ('c \<times> 'd \<Rightarrow> (Status \<times> 'o \<times> 'c \<times> 'd) option) \<Rightarrow> bool" where
  "probes cinv view resident k Q g = (\<forall>c d. cinv (c, d) \<longrightarrow>
     (\<exists>st out c'. g (c, d) = Some (st, out, c', d) \<and> cinv (c', d) \<and> view (c', d) = view (c, d) \<and>
        resident (c', d) = resident (c, d) \<and> Q (view (c, d) k) (resident (c, d) k) st out))"

locale kv_overlay = kv_cache K inv view storable resident
  for K :: "('c \<times> 'd) KVStore" and inv view storable resident +
  assumes writeKV_base: "kv_writeKV K k v ver ut um (c, d) = Some (st, c', d') \<Longrightarrow> d' = d"
    and writeTTLKV_base: "kv_writeTTLKV K k v ver t dl ut um (c, d) = Some (st, c', d') \<Longrightarrow> d' = d"
    and deleteKV_base: "kv_deleteKV K k recVer ver (c, d) = Some (st, c', d') \<Longrightarrow> d' = d"
    and readKV_base: "\<lbrakk>inv (c, d); kv_readKV K now k out (c, d) = Some (st, out', c', d')\<rbrakk> \<Longrightarrow> d' = d"
    and deleteKV_any: "inv (c, d) \<Longrightarrow> \<exists>c' e. kv_deleteKV K k recVer ver (c, d) = Some (Status_ok, c', d) \<and> inv (c', d) \<and>
      view (c', d) = (view (c, d))(k := e) \<and> (\<forall>k'. k' \<noteq> k \<longrightarrow> resident (c', d) k' = resident (c, d) k')"

locale kv_routed = kv_overlay K inv view storable resident
  for K :: "('c \<times> 'd) KVStore" and inv view storable resident +
  fixes R :: "('s \<times> 'd) KVStore"
    and get :: "'s \<Rightarrow> 'i \<Rightarrow> 'c"
    and put :: "'s \<Rightarrow> 'i \<Rightarrow> 'c \<Rightarrow> 's"
    and route :: "KeyType \<Rightarrow> 'i"
    and valid :: "'s \<Rightarrow> bool"
  assumes get_put: "valid s \<Longrightarrow> get (put s (route k) c) (route k') = (if route k' = route k then c else get s (route k'))"
    and valid_put: "valid s \<Longrightarrow> valid (put s (route k) c)"
    and routed_writeKV: "valid s \<Longrightarrow> kv_writeKV R k v ver ut um (s, d) = do {
        (st, c, d') \<leftarrow> kv_writeKV K k v ver ut um (get s (route k), d);
        Some (st, put s (route k) c, d') }"
    and routed_writeTTLKV: "valid s \<Longrightarrow> kv_writeTTLKV R k v ver t dl ut um (s, d) = do {
        (st, c, d') \<leftarrow> kv_writeTTLKV K k v ver t dl ut um (get s (route k), d);
        Some (st, put s (route k) c, d') }"
    and routed_deleteKV: "valid s \<Longrightarrow> kv_deleteKV R k recVer ver (s, d) = do {
        (st, c, d') \<leftarrow> kv_deleteKV K k recVer ver (get s (route k), d);
        Some (st, put s (route k) c, d') }"
    and routed_readKV: "valid s \<Longrightarrow> kv_readKV R now k out (s, d) = do {
        (st, out', c, d') \<leftarrow> kv_readKV K now k out (get s (route k), d);
        Some (st, out', put s (route k) c, d') }"
    and routed_partial: "\<not> valid s \<Longrightarrow> kv_writeKV R k v ver ut um (s, d) = Some (st, s', d') \<Longrightarrow> d' = d"
      "\<not> valid s \<Longrightarrow> kv_writeTTLKV R k v ver t dl ut um (s, d) = Some (st, s', d') \<Longrightarrow> d' = d"
      "\<not> valid s \<Longrightarrow> kv_deleteKV R k recVer ver (s, d) = Some (st, s', d') \<Longrightarrow> d' = d"
begin

abbreviation rview :: "'s \<times> 'd \<Rightarrow> View" where
  "rview \<equiv> routedView view get route"

abbreviation rinv :: "'s \<times> 'd \<Rightarrow> bool" where
  "rinv \<equiv> routedInv inv get route valid"

abbreviation rresident :: "'s \<times> 'd \<Rightarrow> KeyType \<Rightarrow> bool" where
  "rresident \<equiv> routedResident resident get route"

text \<open>Replacing one member changes what the family shows only where the member changed.\<close>

lemma routed_step:
  assumes inv: "rinv (s, d)" and c: "inv (c, d)"
    and other: "\<And>k'. k' \<noteq> k \<Longrightarrow> view (c, d) k' = view (get s (route k), d) k'"
      "\<And>k'. k' \<noteq> k \<Longrightarrow> resident (c, d) k' = resident (get s (route k), d) k'"
  shows "rinv (put s (route k) c, d)"
    and "rview (put s (route k) c, d) = (rview (s, d))(k := view (c, d) k)"
    and "rresident (put s (route k) c, d) = (rresident (s, d))(k := resident (c, d) k)"
proof -
  have v: "valid s" "\<And>k. inv (get s (route k), d)"
    using inv by (auto simp: routedInv_def)
  show "rinv (put s (route k) c, d)"
    using v c by (simp add: routedInv_def valid_put get_put)
  show "rview (put s (route k) c, d) = (rview (s, d))(k := view (c, d) k)"
    using other(1) by (intro ext) (simp add: routedView_def get_put [OF v(1)])
  show "rresident (put s (route k) c, d) = (rresident (s, d))(k := resident (c, d) k)"
    using other(2) by (intro ext) (simp add: routedResident_def get_put [OF v(1)])
qed

lemma routed_writeKV_law:
  assumes inv: "rinv (s, d)" and st: "storable k ver INFINITE_TTL NEVER_EXPIRE ut um"
  shows "\<exists>s'. kv_writeKV R k v ver ut um (s, d) = Some (Status_ok, s', d) \<and> rinv (s', d) \<and>
           rview (s', d) = (rview (s, d))(k \<mapsto> (v, ver, INFINITE_TTL, NEVER_EXPIRE)) \<and>
           rresident (s', d) = (rresident (s, d))(k := True)"
proof -
  have v: "valid s" "inv (get s (route k), d)"
    using inv by (auto simp: routedInv_def)
  from writeKV_law [OF v(2) st, of v] obtain c d' where
    w: "kv_writeKV K k v ver ut um (get s (route k), d) = Some (Status_ok, c, d')" "inv (c, d')"
      "view (c, d') = (view (get s (route k), d))(k \<mapsto> (v, ver, INFINITE_TTL, NEVER_EXPIRE))"
      "resident (c, d') = (resident (get s (route k), d))(k := True)"
    by auto
  have [simp]: "d' = d"
    using writeKV_base [OF w(1)] .
  from w routed_step [OF inv, of c k] show ?thesis
    by (simp add: routed_writeKV [OF v(1)])
qed

lemma routed_writeTTLKV_law:
  assumes inv: "rinv (s, d)" and st: "storable k ver t dl ut um"
  shows "\<exists>s'. kv_writeTTLKV R k v ver t dl ut um (s, d) = Some (Status_ok, s', d) \<and> rinv (s', d) \<and>
           rview (s', d) = (rview (s, d))(k \<mapsto> (v, ver, t, dl)) \<and>
           rresident (s', d) = (rresident (s, d))(k := True)"
proof -
  have v: "valid s" "inv (get s (route k), d)"
    using inv by (auto simp: routedInv_def)
  from writeTTLKV_law [OF v(2) st, of v] obtain c d' where
    w: "kv_writeTTLKV K k v ver t dl ut um (get s (route k), d) = Some (Status_ok, c, d')" "inv (c, d')"
      "view (c, d') = (view (get s (route k), d))(k \<mapsto> (v, ver, t, dl))"
      "resident (c, d') = (resident (get s (route k), d))(k := True)"
    by auto
  have [simp]: "d' = d"
    using writeTTLKV_base [OF w(1)] .
  from w routed_step [OF inv, of c k] show ?thesis
    by (simp add: routed_writeTTLKV [OF v(1)])
qed

lemma routed_deleteKV_law:
  assumes inv: "rinv (s, d)" and res: "rresident (s, d) k"
  shows "\<exists>s'. kv_deleteKV R k recVer ver (s, d) = Some (Status_ok, s', d) \<and> rinv (s', d) \<and>
           rview (s', d) = (rview (s, d))(k := None) \<and>
           (\<forall>k'. k' \<noteq> k \<longrightarrow> rresident (s', d) k' = rresident (s, d) k')"
proof -
  have v: "valid s" "inv (get s (route k), d)" "resident (get s (route k), d) k"
    using inv res by (auto simp: routedInv_def routedResident_def)
  from deleteKV_law [OF v(2,3), of recVer ver] obtain c d' where
    w: "kv_deleteKV K k recVer ver (get s (route k), d) = Some (Status_ok, c, d')" "inv (c, d')"
      "view (c, d') = (view (get s (route k), d))(k := None)"
      "\<forall>k'. k' \<noteq> k \<longrightarrow> resident (c, d') k' = resident (get s (route k), d) k'"
    by auto
  have [simp]: "d' = d"
    using deleteKV_base [OF w(1)] .
  from w routed_step [OF inv, of c k] show ?thesis
    by (simp add: routed_deleteKV [OF v(1)])
qed

lemma routed_deleteKV_any:
  assumes inv: "rinv (s, d)"
  shows "\<exists>s' e. kv_deleteKV R k recVer ver (s, d) = Some (Status_ok, s', d) \<and> rinv (s', d) \<and>
           rview (s', d) = (rview (s, d))(k := e) \<and>
           (\<forall>k'. k' \<noteq> k \<longrightarrow> rresident (s', d) k' = rresident (s, d) k')"
proof -
  have v: "valid s" "inv (get s (route k), d)"
    using inv by (auto simp: routedInv_def)
  from deleteKV_any [OF v(2), of k recVer ver] obtain c e where
    w: "kv_deleteKV K k recVer ver (get s (route k), d) = Some (Status_ok, c, d)" "inv (c, d)"
      "view (c, d) = (view (get s (route k), d))(k := e)"
      "\<forall>k'. k' \<noteq> k \<longrightarrow> resident (c, d) k' = resident (get s (route k), d) k'"
    by blast
  from w routed_step [OF inv, of c k] show ?thesis
    by (auto simp: routed_deleteKV [OF v(1)])
qed

lemma routed_readKV_hit:
  assumes inv: "rinv (s, d)" and vw: "rview (s, d) k = Some (v, ver, t, dl)" and live: "\<not> isTimeOut now dl t"
  shows "\<exists>t' s'. kv_readKV R now k out (s, d) =
              Some (Status_ok, \<lparr>outValue = v, outTTL = t', outVersion = ver\<rparr>, s', d) \<and>
            rinv (s', d) \<and> rview (s', d) = rview (s, d) \<and> rresident (s', d) = rresident (s, d) \<and>
            (rresident (s, d) k \<longrightarrow> t' = t)"
proof -
  have v: "valid s" "inv (get s (route k), d)" "view (get s (route k), d) k = Some (v, ver, t, dl)"
    using inv vw by (auto simp: routedInv_def routedView_def)
  from readKV_hit [OF v(2,3) live, of out] obtain t' c d' where
    w: "kv_readKV K now k out (get s (route k), d) =
          Some (Status_ok, \<lparr>outValue = v, outTTL = t', outVersion = ver\<rparr>, c, d')" "inv (c, d')"
      "view (c, d') = view (get s (route k), d)" "resident (c, d') = resident (get s (route k), d)"
      "resident (get s (route k), d) k \<longrightarrow> t' = t"
    by auto
  have d': "d' = d"
    using readKV_base [OF v(2) w(1)] .
  have "rview (put s (route k) c, d) = rview (s, d)" "rresident (put s (route k) c, d) = rresident (s, d)"
    using routed_step(2,3) [OF inv, of c k] w(2,3,4) unfolding d' routedView_def routedResident_def
    by (simp_all add: fun_upd_idem)
  moreover have "rinv (put s (route k) c, d)"
    using routed_step(1) [OF inv, of c k] w(2,3,4) unfolding d' by simp
  ultimately show ?thesis
    using w(1,5) unfolding d' routedResident_def by (simp add: routed_readKV [OF v(1)])
qed

lemma routed_readKV_miss:
  assumes inv: "rinv (s, d)"
    and miss: "case rview (s, d) k of None \<Rightarrow> True | Some (v, ver, t, dl) \<Rightarrow> isTimeOut now dl t"
  shows "\<exists>st out' s'. kv_readKV R now k out (s, d) = Some (st, out', s', d) \<and> isNotFound st \<and> rinv (s', d) \<and>
            (\<forall>k'. k' \<noteq> k \<longrightarrow> rview (s', d) k' = rview (s, d) k' \<and> rresident (s', d) k' = rresident (s, d) k') \<and>
            (rview (s, d) k = None \<longrightarrow> rview (s', d) k = None)"
proof -
  have v: "valid s" "inv (get s (route k), d)"
    "case view (get s (route k), d) k of None \<Rightarrow> True | Some (v, ver, t, dl) \<Rightarrow> isTimeOut now dl t"
    using inv miss by (auto simp: routedInv_def routedView_def)
  from readKV_miss [OF v(2,3), of out] obtain st out' c d' where
    w: "kv_readKV K now k out (get s (route k), d) = Some (st, out', c, d')" "isNotFound st" "inv (c, d')"
      "\<forall>k'. k' \<noteq> k \<longrightarrow> view (c, d') k' = view (get s (route k), d) k' \<and>
                       resident (c, d') k' = resident (get s (route k), d) k'"
      "view (get s (route k), d) k = None \<longrightarrow> view (c, d') k = None"
    by auto
  have d': "d' = d"
    using readKV_base [OF v(2) w(1)] .
  have step: "rinv (put s (route k) c, d)" "rview (put s (route k) c, d) = (rview (s, d))(k := view (c, d) k)"
    "rresident (put s (route k) c, d) = (rresident (s, d))(k := resident (c, d) k)"
    using w(3,4) unfolding d' by (blast intro: routed_step [OF inv])+
  have "kv_readKV R now k out (s, d) = Some (st, out', put s (route k) c, d)"
    by (simp add: routed_readKV [OF v(1)] w(1) d')
  moreover have "rview (s, d) k = None \<longrightarrow> rview (put s (route k) c, d) k = None"
    using w(5) by (simp add: step d') (simp add: routedView_def)
  ultimately show ?thesis
    using w(2) step by simp
qed

lemma routed_probes:
  assumes g: "probes inv view resident k Q g"
    and G: "\<And>s d. valid s \<Longrightarrow> G (s, d) = do {
        (st, out, c, d') \<leftarrow> g (get s (route k), d);
        Some (st, out, put s (route k) c, d') }"
  shows "probes rinv rview rresident k Q G"
  unfolding probes_def
proof (intro allI impI)
  fix s d
  assume inv: "rinv (s, d)"
  then have v: "valid s" "inv (get s (route k), d)"
    by (auto simp: routedInv_def)
  from g v(2) obtain st out c where
    w: "g (get s (route k), d) = Some (st, out, c, d)" "inv (c, d)" "view (c, d) = view (get s (route k), d)"
      "resident (c, d) = resident (get s (route k), d)"
      "Q (view (get s (route k), d) k) (resident (get s (route k), d) k) st out"
    unfolding probes_def by blast
  have step: "rinv (put s (route k) c, d)" "rview (put s (route k) c, d) = (rview (s, d))(k := view (c, d) k)"
    "rresident (put s (route k) c, d) = (rresident (s, d))(k := resident (c, d) k)"
    by (rule routed_step [OF inv w(2)]; simp only: w(3,4))+
  moreover have "view (c, d) k = rview (s, d) k" "resident (c, d) k = rresident (s, d) k"
    using w(3,4) by (simp_all add: routedView_def routedResident_def)
  ultimately have "rview (put s (route k) c, d) = rview (s, d)" "rresident (put s (route k) c, d) = rresident (s, d)"
    by simp_all
  moreover have "G (s, d) = Some (st, out, put s (route k) c, d)"
    by (simp add: G [OF v(1)] w(1))
  moreover have "Q (rview (s, d) k) (rresident (s, d) k) st out"
    using w(5) by (simp add: routedView_def routedResident_def)
  ultimately show "\<exists>st out c'. G (s, d) = Some (st, out, c', d) \<and> rinv (c', d) \<and> rview (c', d) = rview (s, d) \<and>
      rresident (c', d) = rresident (s, d) \<and> Q (rview (s, d) k) (rresident (s, d) k) st out"
    using step(1) by blast
qed

end

sublocale kv_routed \<subseteq> routed: kv_overlay R rinv rview storable rresident
proof (unfold_locales, goal_cases)
  case (1 s k ver ut um v)
  obtain s0 d where s: "s = (s0, d)"
    by (cases s)
  from routed_writeKV_law [OF 1 [unfolded s], of v] show ?case
    unfolding s by blast
next
  case (2 s k ver t dl ut um v)
  obtain s0 d where s: "s = (s0, d)"
    by (cases s)
  from routed_writeTTLKV_law [OF 2 [unfolded s], of v] show ?case
    unfolding s by blast
next
  case (3 s k recVer ver)
  obtain s0 d where s: "s = (s0, d)"
    by (cases s)
  from routed_deleteKV_law [OF 3 [unfolded s], of recVer ver] show ?case
    unfolding s by blast
next
  case (4 s k v ver t dl now out)
  obtain s0 d where s: "s = (s0, d)"
    by (cases s)
  from routed_readKV_hit [OF 4 [unfolded s], of out] show ?case
    unfolding s by blast
next
  case (5 s now k out)
  obtain s0 d where s: "s = (s0, d)"
    by (cases s)
  from routed_readKV_miss [OF 5 [unfolded s], of out] show ?case
    unfolding s by (elim exE) (intro exI, assumption)
next
  case (6 k v ver ut um c d st c' d')
  then show ?case
    using routed_partial(1) writeKV_base by (cases "valid c") (auto simp: routed_writeKV bind_eq_Some_conv)
next
  case (7 k v ver t dl ut um c d st c' d')
  then show ?case
    using routed_partial(2) writeTTLKV_base by (cases "valid c") (auto simp: routed_writeTTLKV bind_eq_Some_conv)
next
  case (8 k recVer ver c d st c' d')
  then show ?case
    using routed_partial(3) deleteKV_base by (cases "valid c") (auto simp: routed_deleteKV bind_eq_Some_conv)
next
  case (9 c d now k out st out' c' d')
  then have "valid c" "inv (get c (route k), d)"
    by (auto simp: routedInv_def)
  with 9 show ?case
    using readKV_base by (auto simp: routed_readKV bind_eq_Some_conv)
next
  case (10 c d k recVer ver)
  then show ?case
    by (rule routed_deleteKV_any)
qed

end
