(* ===== verification/InMemory_Store.thy ===== *)
theory InMemory_Store
  imports Routed_Store
begin

text \<open>
  \<^verbatim>\<open>kv-engine/store/InMemoryKVStore\<close>: the cache of a leader. It holds the written keys with
  their metas, the keys that were deleted, and forwards everything else to the store it
  delegates to. The state of the object is a record; the delegate is shared with other objects,
  so the operations run on the pair of the object and the delegate's state, with the delegate's
  method table \<open>D\<close> as an argument.
\<close>

type_synonym CachedValue = "ValueType \<times> VersionType \<times> TTLType \<times> TimeType \<times> TimeType"

record InMemoryKVStore =
  mData :: "KeyType \<rightharpoonup> CachedValue"
  mUdfMetaMap :: "KeyType \<rightharpoonup> UserDefinedMeta"
  mDeletedData :: "KeyType \<rightharpoonup> VersionType"
  mObserved :: "ObserverCall list"

definition emptyInMemory :: InMemoryKVStore where
  "emptyInMemory = \<lparr>mData = Map.empty, mUdfMetaMap = Map.empty, mDeletedData = Map.empty, mObserved = []\<rparr>"

definition InMem_observe :: "ObserverCall \<Rightarrow> InMemoryKVStore \<Rightarrow> InMemoryKVStore" where
  "InMem_observe c m = m\<lparr>mObserved := mObserved m @ [c]\<rparr>"

definition InMem_clear :: "InMemoryKVStore \<Rightarrow> InMemoryKVStore" where
  "InMem_clear m = m\<lparr>mData := Map.empty, mUdfMetaMap := Map.empty, mDeletedData := Map.empty\<rparr>"

definition InMem_open :: "InMemoryKVStore \<Rightarrow> Status \<times> InMemoryKVStore" where
  "InMem_open m = (Status_ok, InMem_clear m)"

definition InMem_close :: "InMemoryKVStore \<Rightarrow> Status \<times> InMemoryKVStore" where
  "InMem_close m = (Status_ok, InMem_clear m)"

text \<open>\<^verbatim>\<open>mUdfMetaMap[key] = udfMeta\<close> when one of the two lists has an element.\<close>

definition InMem_setUdf :: "KeyType \<Rightarrow> UserDefinedMeta \<Rightarrow> InMemoryKVStore \<Rightarrow> InMemoryKVStore" where
  "InMem_setUdf key um m =
     (if uintfield um \<noteq> [] \<or> strfield um \<noteq> [] then m\<lparr>mUdfMetaMap := (mUdfMetaMap m)(key \<mapsto> um)\<rparr> else m)"

definition InMem_writeTTLKV ::
  "KeyType \<Rightarrow> ValueType \<Rightarrow> VersionType \<Rightarrow> TTLType \<Rightarrow> TimeType \<Rightarrow> TimeType \<Rightarrow> UserDefinedMeta \<Rightarrow>
   InMemoryKVStore \<Rightarrow> Status \<times> InMemoryKVStore" where
  "InMem_writeTTLKV key v ver t dl ut um m =
     (let m1 = m\<lparr>mData := (mData m)(key \<mapsto> (v, ver, t, dl, ut))\<rparr>;
          m2 = InMem_setUdf key um m1;
          m3 = m2\<lparr>mDeletedData := (mDeletedData m2)(key := None)\<rparr>
      in (Status_ok, InMem_observe (OnWriteValue key v ver) m3))"

definition InMem_writeKV ::
  "KeyType \<Rightarrow> ValueType \<Rightarrow> VersionType \<Rightarrow> TimeType \<Rightarrow> UserDefinedMeta \<Rightarrow>
   InMemoryKVStore \<Rightarrow> Status \<times> InMemoryKVStore" where
  "InMem_writeKV key v ver ut um m =
     (let m1 = m\<lparr>mData := (mData m)(key \<mapsto> (v, ver, INFINITE_TTL, NEVER_EXPIRE, ut))\<rparr>;
          m2 = InMem_setUdf key um m1;
          m3 = m2\<lparr>mDeletedData := (mDeletedData m2)(key := None)\<rparr>
      in (Status_ok, InMem_observe (OnWriteValue key v ver) m3))"

definition InMem_readKV ::
  "'d KVStore \<Rightarrow> TimeType \<Rightarrow> KeyType \<Rightarrow> ReadOut \<Rightarrow> InMemoryKVStore \<times> 'd \<Rightarrow>
   (Status \<times> ReadOut \<times> InMemoryKVStore \<times> 'd) option" where
  "InMem_readKV D now key out = (\<lambda>(m, d).
     case mData m key of
       None \<Rightarrow>
         (case mDeletedData m key of
            Some ver \<Rightarrow> Some (Status_notFound (notFoundMsg key), out\<lparr>outVersion := ver\<rparr>, m, d)
          | None \<Rightarrow> do {
              (st, out', d') \<leftarrow> kv_readKV D now key out d;
              Some (st, out', m, d')
            })
     | Some (v, ver, t, dl, ut) \<Rightarrow>
         if isTimeOut now dl t then
           Some (Status_notFound (notFoundMsg key), out, m\<lparr>mData := (mData m)(key := None)\<rparr>, d)
         else
           Some (Status_ok, out\<lparr>outValue := v, outTTL := t, outVersion := ver\<rparr>,
                 InMem_observe (OnReadValue key) m, d))"

definition InMem_readKVFromProxy ::
  "'d KVStore \<Rightarrow> TimeType \<Rightarrow> KeyType \<Rightarrow> ReadOut \<Rightarrow> InMemoryKVStore \<times> 'd \<Rightarrow>
   (Status \<times> ReadOut \<times> InMemoryKVStore \<times> 'd) option" where
  "InMem_readKVFromProxy D now key out = (\<lambda>(m, d). do {
     (st, out', d') \<leftarrow> kv_readKV D now key out d;
     Some (st, out', m, d')
   })"

definition InMem_deleteKV ::
  "KeyType \<Rightarrow> VersionType \<Rightarrow> VersionType \<Rightarrow> InMemoryKVStore \<Rightarrow> Status \<times> InMemoryKVStore" where
  "InMem_deleteKV key deleteRecordVersion deletedVersion m =
     (case mData m key of
        None \<Rightarrow> (Status_ok, m)
      | Some _ \<Rightarrow>
          let m1 = m\<lparr>mData := (mData m)(key := None), mUdfMetaMap := (mUdfMetaMap m)(key := None)\<rparr>;
              m2 = (if mDeletedData m1 key = None
                    then m1\<lparr>mDeletedData := (mDeletedData m1)(key \<mapsto> deleteRecordVersion)\<rparr> else m1)
          in (Status_ok, m2))"

definition InMem_readMeta ::
  "'d KVStore \<Rightarrow> KeyType \<Rightarrow> Meta \<Rightarrow> InMemoryKVStore \<times> 'd \<Rightarrow>
   (Status \<times> Meta \<times> InMemoryKVStore \<times> 'd) option" where
  "InMem_readMeta D key meta = (\<lambda>(m, d).
     case mData m key of
       None \<Rightarrow> do {
         (st, meta', d') \<leftarrow> kv_readMeta D key meta d;
         Some (st, meta', m, d')
       }
     | Some (v, ver, t, dl, ut) \<Rightarrow>
         let meta1 = meta\<lparr>meta_version := ver, meta_ttl := t, meta_deadline := dl, meta_updateTime := ut\<rparr>;
             meta2 = (case mUdfMetaMap m key of None \<Rightarrow> meta1 | Some um \<Rightarrow> addUdfMeta um meta1)
         in Some (Status_ok, meta2, InMem_observe (OnReadValue key) m, d))"

definition InMem_readMetaFromProxy ::
  "'d KVStore \<Rightarrow> KeyType \<Rightarrow> Meta \<Rightarrow> InMemoryKVStore \<times> 'd \<Rightarrow>
   (Status \<times> Meta \<times> InMemoryKVStore \<times> 'd) option" where
  "InMem_readMetaFromProxy D key meta = (\<lambda>(m, d). do {
     (st, meta', d') \<leftarrow> kv_readMeta D key meta d;
     Some (st, meta', m, d')
   })"

definition InMem_evictOne ::
  "'d KVStore \<Rightarrow> TimeType \<Rightarrow> VersionType \<Rightarrow> KeyType \<Rightarrow> InMemoryKVStore \<times> 'd \<Rightarrow> (InMemoryKVStore \<times> 'd) option" where
  "InMem_evictOne D now guardVersion key md = do {
     (st, out, m, d) \<leftarrow> InMem_readKV D now key \<lparr>outValue = [], outTTL = 0, outVersion = 0\<rparr> md;
     if isOK st then
       if guardVersion < outVersion out then Some (m, d)
       else Some (m\<lparr>mData := (mData m)(key := None), mUdfMetaMap := (mUdfMetaMap m)(key := None),
                    mDeletedData := (mDeletedData m)(key := None)\<rparr>, d)
     else Some (m, d)
   }"

primrec InMem_evictLoop ::
  "'d KVStore \<Rightarrow> TimeType \<Rightarrow> VersionType \<Rightarrow> KeyType list \<Rightarrow> InMemoryKVStore \<times> 'd \<Rightarrow> (InMemoryKVStore \<times> 'd) option" where
  "InMem_evictLoop D now guardVersion [] md = Some md"
| "InMem_evictLoop D now guardVersion (key # keys) md = do {
     md' \<leftarrow> InMem_evictOne D now guardVersion key md;
     InMem_evictLoop D now guardVersion keys md'
   }"

definition InMem_evictKV ::
  "'d KVStore \<Rightarrow> TimeType \<Rightarrow> KeyType list \<Rightarrow> VersionType \<Rightarrow> InMemoryKVStore \<times> 'd \<Rightarrow>
   (Status \<times> InMemoryKVStore \<times> 'd) option" where
  "InMem_evictKV D now keys guardVersion md = do {
     (m, d) \<leftarrow> InMem_evictLoop D now guardVersion keys md;
     Some (Status_ok, InMem_observe (OnEvictKeys keys) m, d)
   }"

text \<open>An operation that does not touch the delegate, on the pair.\<close>

definition onCache :: "('m \<Rightarrow> Status \<times> 'm) \<Rightarrow> 'm \<times> 'd \<Rightarrow> (Status \<times> 'm \<times> 'd) option" where
  "onCache f = (\<lambda>(m, d). let (st, m') = f m in Some (st, m', d))"

definition InMemory_ops :: "'d KVStore \<Rightarrow> (InMemoryKVStore \<times> 'd) KVStore" where
  "InMemory_ops D = KVStore_base\<lparr>
     kv_open := onCache InMem_open,
     kv_close := onCache InMem_close,
     kv_writeKV := \<lambda>key v ver ut um. onCache (InMem_writeKV key v ver ut um),
     kv_writeTTLKV := \<lambda>key v ver t dl ut um. onCache (InMem_writeTTLKV key v ver t dl ut um),
     kv_readKV := InMem_readKV D,
     kv_deleteKV := \<lambda>key recVer ver. onCache (InMem_deleteKV key recVer ver),
     kv_readKVFromProxy := InMem_readKVFromProxy D,
     kv_readMetaFromProxy := InMem_readMetaFromProxy D,
     kv_readMeta := InMem_readMeta D,
     kv_clear := \<lambda>(m, d). Some (InMem_clear m, d),
     kv_evictKV := InMem_evictKV D\<rparr>"

section \<open>What the cache shows\<close>

definition InMem_view :: "('d \<Rightarrow> View) \<Rightarrow> InMemoryKVStore \<times> 'd \<Rightarrow> View" where
  "InMem_view dview = (\<lambda>(m, d) k. case mData m k of
      Some (v, ver, t, dl, ut) \<Rightarrow> Some (v, ver, t, dl)
    | None \<Rightarrow> (case mDeletedData m k of None \<Rightarrow> dview d k | Some _ \<Rightarrow> None))"

definition InMem_inv :: "('d \<Rightarrow> bool) \<Rightarrow> InMemoryKVStore \<times> 'd \<Rightarrow> bool" where
  "InMem_inv dinv = (\<lambda>(m, d). dom (mData m) \<inter> dom (mDeletedData m) = {} \<and> dinv d)"

definition InMem_resident :: "InMemoryKVStore \<times> 'd \<Rightarrow> KeyType \<Rightarrow> bool" where
  "InMem_resident = (\<lambda>(m, d) k. mData m k \<noteq> None)"

lemmas InMem_defs =
  InMem_open_def InMem_close_def InMem_clear_def InMem_observe_def InMem_setUdf_def
  InMem_writeKV_def InMem_writeTTLKV_def InMem_deleteKV_def onCache_def Let_def

lemmas InMem_abs_defs = InMem_view_def InMem_inv_def InMem_resident_def

lemma InMemory_ops_sel [simp]:
  "kv_writeKV (InMemory_ops D) key v ver ut um = onCache (InMem_writeKV key v ver ut um)"
  "kv_writeTTLKV (InMemory_ops D) key v ver t dl ut um = onCache (InMem_writeTTLKV key v ver t dl ut um)"
  "kv_readKV (InMemory_ops D) = InMem_readKV D"
  "kv_deleteKV (InMemory_ops D) key recVer ver' = onCache (InMem_deleteKV key recVer ver')"
  "kv_readMeta (InMemory_ops D) = InMem_readMeta D"
  "kv_readKVFromProxy (InMemory_ops D) = InMem_readKVFromProxy D"
  "kv_readMetaFromProxy (InMemory_ops D) = InMem_readMetaFromProxy D"
  "kv_evictKV (InMemory_ops D) = InMem_evictKV D"
  "kv_lock (InMemory_ops D) = (\<lambda>_ _ s. Some (Status_ok, s))"
  "kv_unlock (InMemory_ops D) = (\<lambda>_ _ s. Some (Status_ok, s))"
  by (simp_all add: InMemory_ops_def KVStore_base_def)

lemma InMem_setUdf_sel [simp]:
  "mData (InMem_setUdf k um m) = mData m"
  "mDeletedData (InMem_setUdf k um m) = mDeletedData m"
  "mObserved (InMem_setUdf k um m) = mObserved m"
  by (simp_all add: InMem_setUdf_def)

lemma InMem_observe_sel [simp]:
  "mData (InMem_observe c m) = mData m"
  "mDeletedData (InMem_observe c m) = mDeletedData m"
  "mUdfMetaMap (InMem_observe c m) = mUdfMetaMap m"
  by (simp_all add: InMem_observe_def)

lemma InMem_writeKV_eq:
  "InMem_writeKV k v ver ut um = InMem_writeTTLKV k v ver INFINITE_TTL NEVER_EXPIRE ut um"
  by (simp add: fun_eq_iff InMem_writeKV_def InMem_writeTTLKV_def)

lemma InMem_writeTTLKV_sel:
  "fst (InMem_writeTTLKV k v ver t dl ut um m) = Status_ok"
  "mData (snd (InMem_writeTTLKV k v ver t dl ut um m)) = (mData m)(k \<mapsto> (v, ver, t, dl, ut))"
  "mDeletedData (snd (InMem_writeTTLKV k v ver t dl ut um m)) = (mDeletedData m)(k := None)"
  by (simp_all add: InMem_writeTTLKV_def Let_def)

lemma onCache_eq: "onCache f (m, d) = Some (fst (f m), snd (f m), d)"
  by (simp add: onCache_def split_beta)

lemma InMem_view_cached: "mData m k = Some (v, ver, t, dl, ut) \<Longrightarrow> InMem_view dview (m, d) k = Some (v, ver, t, dl)"
  by (simp add: InMem_view_def)

lemma InMem_view_deleted: "mData m k = None \<Longrightarrow> mDeletedData m k = Some r \<Longrightarrow> InMem_view dview (m, d) k = None"
  by (simp add: InMem_view_def)

lemma InMem_view_delegated: "mData m k = None \<Longrightarrow> mDeletedData m k = None \<Longrightarrow> InMem_view dview (m, d) k = dview d k"
  by (simp add: InMem_view_def)

lemma InMem_view_frame:
  "mData m' k = mData m k \<Longrightarrow> mDeletedData m' k = mDeletedData m k \<Longrightarrow>
   InMem_view dview (m', d) k = InMem_view dview (m, d) k"
  by (simp add: InMem_view_def cong: option.case_cong)

lemma InMem_write_effect:
  fixes md :: "InMemoryKVStore \<times> 'd"
  assumes "onCache (InMem_writeTTLKV k v ver t dl ut um) md = Some (st, md')"
  shows "st = Status_ok"
    and "InMem_view dview md' = (InMem_view dview md)(k \<mapsto> (v, ver, t, dl))"
    and "InMem_inv dinv md \<Longrightarrow> InMem_inv dinv md'"
    and "InMem_resident md' = (InMem_resident md)(k := True)"
proof -
  obtain m d where md: "md = (m, d)"
    by fastforce
  obtain m' where m': "st = Status_ok" "md' = (m', d)" "mData m' = (mData m)(k \<mapsto> (v, ver, t, dl, ut))"
    "mDeletedData m' = (mDeletedData m)(k := None)"
    using assms InMem_writeTTLKV_sel [of k v ver t dl ut um m] by (auto simp: md onCache_eq)
  show "st = Status_ok"
    by fact
  show "InMem_view dview md' = (InMem_view dview md)(k \<mapsto> (v, ver, t, dl))"
    by (rule ext) (simp add: m' md InMem_view_def cong: option.case_cong)
  show "InMem_inv dinv md \<Longrightarrow> InMem_inv dinv md'"
    by (auto simp: m' md InMem_inv_def)
  show "InMem_resident md' = (InMem_resident md)(k := True)"
    by (rule ext) (simp add: m' md InMem_resident_def)
qed

lemma onCache_total: "\<exists>st md'. onCache f md = Some (st, md')"
  by (cases md) (simp add: onCache_eq)

lemma InMem_deleteKV_sel:
  "fst (InMem_deleteKV k recVer ver m) = Status_ok"
  "mData (snd (InMem_deleteKV k recVer ver m)) = (mData m)(k := None)"
  "mData m k = None \<Longrightarrow> InMem_deleteKV k recVer ver m = (Status_ok, m)"
  "mData m k \<noteq> None \<Longrightarrow> mDeletedData m k = None \<Longrightarrow>
   mDeletedData (snd (InMem_deleteKV k recVer ver m)) = (mDeletedData m)(k \<mapsto> recVer)"
  by (auto simp: InMem_deleteKV_def Let_def split: option.split)

lemma InMem_delete_effect:
  fixes md :: "InMemoryKVStore \<times> 'd"
  assumes "onCache (InMem_deleteKV k recVer ver) md = Some (st, md')" and inv: "InMem_inv dinv md"
  shows "st = Status_ok"
    and "InMem_inv dinv md'"
    and "InMem_resident md k \<Longrightarrow> InMem_view dview md' = (InMem_view dview md)(k := None)"
    and "\<not> InMem_resident md k \<Longrightarrow> md' = md"
    and "InMem_resident md' = (InMem_resident md)(k := False)"
proof -
  obtain m d where md: "md = (m, d)"
    by fastforce
  define m' where "m' = snd (InMem_deleteKV k recVer ver m)"
  have md': "md' = (m', d)" and st: "st = Status_ok"
    using assms InMem_deleteKV_sel(1) [of k recVer ver m] by (auto simp: md onCache_eq m'_def)
  have tomb: "mDeletedData m' = (mDeletedData m)(k \<mapsto> recVer)" if "mData m k \<noteq> None"
    unfolding m'_def using that inv by (intro InMem_deleteKV_sel(4)) (auto simp: md InMem_inv_def)
  note data = InMem_deleteKV_sel(2) [of k recVer ver m, folded m'_def]
  have same: "m' = m" if "mData m k = None"
    using InMem_deleteKV_sel(3) [OF that] by (simp add: m'_def)
  show "st = Status_ok"
    by fact
  show "InMem_inv dinv md'"
    using inv data tomb same by (cases "mData m k") (auto simp: md md' InMem_inv_def)
  show "InMem_view dview md' = (InMem_view dview md)(k := None)" if "InMem_resident md k"
    using that tomb by (intro ext) (auto simp: md md' InMem_view_def InMem_resident_def data cong: option.case_cong)
  show "md' = md" if "\<not> InMem_resident md k"
    using that same by (cases "mData m k") (auto simp: md md' InMem_resident_def)
  show "InMem_resident md' = (InMem_resident md)(k := False)"
    by (rule ext) (simp add: md md' InMem_resident_def data)
qed

lemma InMem_observe_abs [simp]:
  "InMem_view dview (InMem_observe c m, d) = InMem_view dview (m, d)"
  "InMem_inv dinv (InMem_observe c m, d) = InMem_inv dinv (m, d)"
  "InMem_resident (InMem_observe c m, d) = InMem_resident (m, d)"
  by (intro ext InMem_view_frame, simp_all) (simp_all add: InMem_inv_def InMem_resident_def)

lemma InMem_drop_abs:
  "k' \<noteq> k \<Longrightarrow> InMem_view dview (m\<lparr>mData := (mData m)(k := None)\<rparr>, d) k' = InMem_view dview (m, d) k'"
  "k' \<noteq> k \<Longrightarrow> InMem_resident (m\<lparr>mData := (mData m)(k := None)\<rparr>, d) k' = InMem_resident (m, d) k'"
  "InMem_inv dinv (m, d) \<Longrightarrow> InMem_inv dinv (m\<lparr>mData := (mData m)(k := None)\<rparr>, d)"
  by (auto simp: InMem_abs_defs cong: option.case_cong)

context kv_source
begin

lemma InMem_readKV_hit:
  assumes "InMem_inv dinv md" and "InMem_view dview md k = Some (v, ver, t, dl)" and "\<not> isTimeOut now dl t"
  shows "\<exists>t' md'. InMem_readKV D now k out md =
           Some (Status_ok, \<lparr>outValue = v, outTTL = t', outVersion = ver\<rparr>, md') \<and>
           InMem_inv dinv md' \<and> InMem_view dview md' = InMem_view dview md \<and>
           InMem_resident md' = InMem_resident md \<and> (InMem_resident md k \<longrightarrow> t' = t)"
proof -
  obtain m d where md: "md = (m, d)"
    by fastforce
  show ?thesis
  proof (cases "mData m k")
    case None
    then have "dview d k = Some (v, ver, t, dl)" "mDeletedData m k = None" "dinv d"
      using assms by (auto simp: md InMem_view_def InMem_inv_def split: option.splits)
    with source_hit [of d k v ver t dl now out] None assms show ?thesis
      by (auto simp: md InMem_readKV_def InMem_resident_def)
  next
    case (Some e)
    then have "\<exists>ut. e = (v, ver, t, dl, ut)"
      using assms(2) by (cases e) (simp add: md InMem_view_def)
    with Some assms show ?thesis
      by (cases out) (auto simp: md InMem_readKV_def)
  qed
qed

lemma InMem_readKV_miss:
  assumes inv: "InMem_inv dinv md"
    and miss: "case InMem_view dview md k of None \<Rightarrow> True | Some (v, ver, t, dl) \<Rightarrow> isTimeOut now dl t"
  shows "\<exists>st out' md'. InMem_readKV D now k out md = Some (st, out', md') \<and> isNotFound st \<and>
           InMem_inv dinv md' \<and>
           (\<forall>k'. k' \<noteq> k \<longrightarrow> InMem_view dview md' k' = InMem_view dview md k' \<and>
                  InMem_resident md' k' = InMem_resident md k') \<and>
           (InMem_view dview md k = None \<longrightarrow> InMem_view dview md' k = None)"
proof -
  obtain m d where md: "md = (m, d)"
    by fastforce
  show ?thesis
  proof (cases "mData m k")
    case (Some e)
    then obtain v ver t dl ut where e: "e = (v, ver, t, dl, ut)"
      by (cases e) auto
    then have "isTimeOut now dl t" and v: "InMem_view dview md k = Some (v, ver, t, dl)"
      using miss Some by (simp_all add: md InMem_view_def)
    then have "InMem_readKV D now k out md =
        Some (Status_notFound (notFoundMsg k), out, m\<lparr>mData := (mData m)(k := None)\<rparr>, d)"
      using Some e by (simp add: md InMem_readKV_def)
    then show ?thesis
      using inv v by (simp add: md InMem_drop_abs)
  next
    case None
    show ?thesis
    proof (cases "mDeletedData m k")
      case (Some ver)
      then show ?thesis
        using None inv by (simp add: md InMem_readKV_def)
    next
      case tomb: None
      have "dinv d" and "case dview d k of None \<Rightarrow> True | Some (v, ver, t, dl) \<Rightarrow> isTimeOut now dl t"
        using None tomb inv miss by (simp_all add: md InMem_view_def InMem_inv_def)
      from source_miss [OF this, of out] show ?thesis
        using None tomb inv by (auto simp: md InMem_readKV_def)
    qed
  qed
qed

lemma source_read_total:
  assumes "dinv d"
  shows "\<exists>st out'. kv_readKV D now k out d = Some (st, out', d) \<and> (isOK st \<or> isNotFound st)"
proof (cases "case dview d k of None \<Rightarrow> True | Some (v, ver, t, dl) \<Rightarrow> isTimeOut now dl t")
  case True
  then show ?thesis
    using source_miss [OF assms True, of out] by blast
next
  case False
  then obtain v ver t dl where "dview d k = Some (v, ver, t, dl)" "\<not> isTimeOut now dl t"
    by (auto split: option.splits)
  then show ?thesis
    using source_hit [OF assms, of k v ver t dl now out] by (auto simp: isOK_def Status_ok_def)
qed

lemma source_read_unchanged: "dinv d \<Longrightarrow> kv_readKV D now k out d = Some (st, out', d') \<Longrightarrow> d' = d"
  using source_read_total [of d now k out] by auto

lemma InMem_readKV_base:
  assumes "InMem_inv dinv (m, d)" and "InMem_readKV D now k out (m, d) = Some (st, out', m', d')"
  shows "d' = d"
  using assms source_read_unchanged [of d now k out]
  by (auto simp: InMem_readKV_def InMem_inv_def split: option.splits Option.bind_splits if_splits)

end

text \<open>Over a source, the in-memory store is a cache.\<close>

sublocale kv_source \<subseteq> inmem: kv_overlay "InMemory_ops D" "InMem_inv dinv" "InMem_view dview"
  "\<lambda>_ _ _ _ _ _. True" InMem_resident
proof (unfold_locales, goal_cases)
  case (1 s k ver ut um v)
  obtain st s' where w: "onCache (InMem_writeTTLKV k v ver INFINITE_TTL NEVER_EXPIRE ut um) s = Some (st, s')"
    using onCache_total by blast
  from InMem_write_effect [OF w] 1 show ?case
    by (simp add: InMem_writeKV_eq w)
next
  case (2 s k ver t dl ut um v)
  obtain st s' where w: "onCache (InMem_writeTTLKV k v ver t dl ut um) s = Some (st, s')"
    using onCache_total by blast
  from InMem_write_effect [OF w] 2 show ?case
    by (simp add: w)
next
  case (3 s k recVer ver)
  obtain st s' where w: "onCache (InMem_deleteKV k recVer ver) s = Some (st, s')"
    using onCache_total by blast
  from InMem_delete_effect [OF w 3(1)] 3 show ?case
    by (simp add: w)
next
  case (4 s k v ver t dl now out)
  then show ?case
    unfolding InMemory_ops_sel by (rule InMem_readKV_hit)
next
  case (5 s now k out)
  then show ?case
    unfolding InMemory_ops_sel by (rule InMem_readKV_miss)
next
  case (6 k v ver ut um c d st c' d')
  then show ?case
    by (simp add: onCache_eq)
next
  case (7 k v ver t dl ut um c d st c' d')
  then show ?case
    by (simp add: onCache_eq)
next
  case (8 k recVer ver c d st c' d')
  then show ?case
    by (simp add: onCache_eq)
next
  case (9 c d now k out st out' c' d')
  then show ?case
    unfolding InMemory_ops_sel by (rule InMem_readKV_base)
next
  case (10 c d k recVer ver)
  obtain st c' where w: "onCache (InMem_deleteKV k recVer ver) (c, d) = Some (st, (c', d))"
    by (cases "InMem_deleteKV k recVer ver c") (simp add: onCache_def)
  note eff = InMem_delete_effect [OF w 10]
  have "\<exists>e. InMem_view dview (c', d) = (InMem_view dview (c, d))(k := e)"
  proof (cases "InMem_resident (c, d) k")
    case True
    then show ?thesis
      using eff(3) by blast
  next
    case False
    then show ?thesis
      using eff(4) by (intro exI [of _ "InMem_view dview (c, d) k"]) simp
  qed
  with eff(1,2,5) w show ?case
    by auto
qed

section \<open>Probes\<close>

text \<open>The meta of a key the cache holds is the one of its entry.\<close>

definition metaMatches :: "Entry option \<Rightarrow> bool \<Rightarrow> Status \<Rightarrow> Meta \<Rightarrow> bool" where
  "metaMatches e res st meta =
     (res \<longrightarrow> isOK st \<and> map_option snd (map_option snd e) = Some (meta_ttl meta, meta_deadline meta))"

definition answered :: "Entry option \<Rightarrow> bool \<Rightarrow> Status \<Rightarrow> 'o \<Rightarrow> bool" where
  "answered e res st out = (isOK st \<or> isNotFound st)"

definition anyAnswer :: "Entry option \<Rightarrow> bool \<Rightarrow> Status \<Rightarrow> 'o \<Rightarrow> bool" where
  "anyAnswer e res st out = True"

lemma addUdfMeta_ttl [simp]:
  "meta_ttl (addUdfMeta um m) = meta_ttl m" "meta_deadline (addUdfMeta um m) = meta_deadline m"
  by (simp_all add: addUdfMeta_def Let_def)

context kv_source
begin

lemma InMem_readMeta_probes:
  "probes (InMem_inv dinv) (InMem_view dview) InMem_resident k metaMatches (InMem_readMeta D k meta)"
  unfolding probes_def
proof (intro allI impI)
  fix m :: InMemoryKVStore and d
  assume inv: "InMem_inv dinv (m, d)"
  show "\<exists>st out m'. InMem_readMeta D k meta (m, d) = Some (st, out, m', d) \<and> InMem_inv dinv (m', d) \<and>
      InMem_view dview (m', d) = InMem_view dview (m, d) \<and> InMem_resident (m', d) = InMem_resident (m, d) \<and>
      metaMatches (InMem_view dview (m, d) k) (InMem_resident (m, d) k) st out"
  proof (cases "mData m k")
    case None
    then show ?thesis
      using inv source_meta [of d k meta] by (auto simp: InMem_readMeta_def InMem_inv_def InMem_resident_def metaMatches_def)
  next
    case (Some p)
    then show ?thesis
      using inv by (cases p; cases "mUdfMetaMap m k")
        (simp_all add: InMem_readMeta_def InMem_abs_defs InMem_observe_def metaMatches_def Let_def cong: option.case_cong)
  qed
qed

lemma InMem_proxy_probes:
  "probes (InMem_inv dinv) (InMem_view dview) InMem_resident k answered (InMem_readKVFromProxy D now k out)"
  "probes (InMem_inv dinv) (InMem_view dview) InMem_resident k anyAnswer (InMem_readMetaFromProxy D k meta)"
proof -
  show "probes (InMem_inv dinv) (InMem_view dview) InMem_resident k answered (InMem_readKVFromProxy D now k out)"
    unfolding probes_def InMem_readKVFromProxy_def answered_def
    using source_read_total [of _ now k out] by (fastforce simp: InMem_inv_def)
  show "probes (InMem_inv dinv) (InMem_view dview) InMem_resident k anyAnswer (InMem_readMetaFromProxy D k meta)"
    unfolding probes_def InMem_readMetaFromProxy_def anyAnswer_def
    using source_meta [of _ k meta] by (fastforce simp: InMem_inv_def)
qed

end

section \<open>Eviction\<close>

text \<open>A key may be dropped from the cache without a reader noticing when the delegate shows the same
  entry; the guard version and the deadline limit the keys that are dropped.\<close>

definition covered :: "TimeType \<Rightarrow> VersionType \<Rightarrow> View \<Rightarrow> KeyType \<Rightarrow> CachedValue option \<Rightarrow> bool" where
  "covered now guardVersion w k e = (case e of
      None \<Rightarrow> True
    | Some (v, ver, t, dl, ut) \<Rightarrow> (ver \<le> guardVersion \<or> isTimeOut now dl t) \<longrightarrow> w k = Some (v, ver, t, dl))"

lemma InMem_erase_abs:
  assumes "m' = m\<lparr>mData := (mData m)(k := None), mUdfMetaMap := um, mDeletedData := (mDeletedData m)(k := None)\<rparr>"
    and "InMem_inv dinv (m, d)" and "InMem_view dview (m, d) k = dview d k"
  shows "InMem_inv dinv (m', d)" and "InMem_view dview (m', d) = InMem_view dview (m, d)"
proof -
  show "InMem_inv dinv (m', d)"
    using assms by (auto simp: InMem_inv_def)
  show "InMem_view dview (m', d) = InMem_view dview (m, d)"
  proof
    fix k'
    show "InMem_view dview (m', d) k' = InMem_view dview (m, d) k'"
      using assms(3) by (cases "k' = k") (simp_all add: assms(1) InMem_view_def cong: option.case_cong)
  qed
qed

context kv_source
begin

lemma InMem_evictOne_cached:
  assumes inv: "InMem_inv dinv (m, d)" and cov: "covered now g (dview d) k (mData m k)"
    and m: "mData m k = Some (v, ver, t, dl, ut)"
  shows "\<exists>m'. InMem_evictOne D now g k (m, d) = Some (m', d) \<and> InMem_inv dinv (m', d) \<and>
           InMem_view dview (m', d) = InMem_view dview (m, d) \<and>
           (\<forall>k'. mData m' k' = mData m k' \<or> mData m' k' = None)"
proof (cases "isTimeOut now dl t")
  case True
  then have "InMem_evictOne D now g k (m, d) = Some (m\<lparr>mData := (mData m)(k := None)\<rparr>, d)"
    by (simp add: InMem_evictOne_def InMem_readKV_def m)
  moreover have "InMem_view dview (m\<lparr>mData := (mData m)(k := None)\<rparr>, d) = InMem_view dview (m, d)"
  proof
    fix k'
    have "mDeletedData m k = None"
      using inv m by (auto simp: InMem_inv_def)
    then show "InMem_view dview (m\<lparr>mData := (mData m)(k := None)\<rparr>, d) k' = InMem_view dview (m, d) k'"
      using cov m True by (cases "k' = k") (simp_all add: InMem_drop_abs covered_def InMem_view_def cong: option.case_cong)
  qed
  ultimately show ?thesis
    using inv by (simp add: InMem_drop_abs)
next
  case False
  have view: "InMem_view dview (m, d) k = dview d k" if "ver \<le> g"
    using cov m that by (simp add: covered_def InMem_view_def)
  show ?thesis
  proof (cases "g < ver")
    case True
    with False show ?thesis
      using inv by (simp add: InMem_evictOne_def InMem_readKV_def m)
  next
    case older: False
    let ?m = "InMem_observe (OnReadValue k) m"
    have "InMem_evictOne D now g k (m, d) = Some (?m\<lparr>mData := (mData ?m)(k := None),
        mUdfMetaMap := (mUdfMetaMap ?m)(k := None), mDeletedData := (mDeletedData ?m)(k := None)\<rparr>, d)"
      using False older by (simp add: InMem_evictOne_def InMem_readKV_def m)
    with InMem_erase_abs [of _ ?m k, OF refl, of dinv d dview] inv view older show ?thesis
      by auto
  qed
qed

lemma InMem_evictOne_uncached:
  assumes inv: "InMem_inv dinv (m, d)" and m: "mData m k = None"
  shows "\<exists>m'. InMem_evictOne D now g k (m, d) = Some (m', d) \<and> InMem_inv dinv (m', d) \<and>
           InMem_view dview (m', d) = InMem_view dview (m, d) \<and>
           (\<forall>k'. mData m' k' = mData m k' \<or> mData m' k' = None)"
proof (cases "mDeletedData m k")
  case (Some r)
  then show ?thesis
    using inv by (simp add: InMem_evictOne_def InMem_readKV_def m)
next
  case None
  let ?out = "\<lparr>outValue = [], outTTL = 0, outVersion = 0\<rparr>"
  have "dinv d"
    using inv by (simp add: InMem_inv_def)
  then obtain st out' where r: "kv_readKV D now k ?out d = Some (st, out', d)"
    using source_read_total by blast
  have view: "InMem_view dview (m, d) k = dview d k"
    using None m by (simp add: InMem_view_def)
  show ?thesis
    using r inv None m InMem_erase_abs [OF refl inv view]
    by (auto simp: InMem_evictOne_def InMem_readKV_def)
qed

lemma InMem_evictOne_view:
  assumes inv: "InMem_inv dinv (m, d)" and cov: "covered now g (dview d) k (mData m k)"
  shows "\<exists>m'. InMem_evictKV D now [k] g (m, d) = Some (Status_ok, m', d) \<and> InMem_inv dinv (m', d) \<and>
           InMem_view dview (m', d) = InMem_view dview (m, d) \<and>
           (\<forall>k'. mData m' k' = mData m k' \<or> mData m' k' = None)"
proof -
  obtain m' where m': "InMem_evictOne D now g k (m, d) = Some (m', d)" "InMem_inv dinv (m', d)"
      "InMem_view dview (m', d) = InMem_view dview (m, d)" "\<forall>k'. mData m' k' = mData m k' \<or> mData m' k' = None"
    using InMem_evictOne_cached [OF inv cov] InMem_evictOne_uncached [OF inv, of k now g] by (metis option.exhaust prod_cases5)
  then show ?thesis
    by (simp add: InMem_evictKV_def)
qed

end

end
