(* ===== verification/Concur_Store.thy ===== *)
theory Concur_Store
  imports InMemory_Store
begin

text \<open>
  \<^verbatim>\<open>kv-engine/store/ConcurInMemoryKVStore\<close> splits the cache into 4096 segments, each an
  in-memory store with a reader/writer mutex, and \<^verbatim>\<open>WSConcurInMemoryKVStore\<close> keeps one such
  store per working set. Keys are routed by \<^verbatim>\<open>std::hash\<close> (the argument \<open>hash\<close>) and by
  the working-set lookup (the argument \<open>lookup\<close>). The locale \<open>kv_routed\<close> proves once that a
  family of caches behind a router is a cache; it is used for both classes.
\<close>

unbundle bit_operations_syntax

section \<open>std::shared\_mutex\<close>

text \<open>The state of a mutex: the number of shared owners, or exclusively owned. Taking a mutex
  that is not available does not return; giving back one that is not held is undefined.\<close>

datatype Mutex = Shared nat | Exclusive

fun mutex_lock :: "bool \<Rightarrow> Mutex \<Rightarrow> Mutex option" where
  "mutex_lock True (Shared 0) = Some Exclusive"
| "mutex_lock False (Shared n) = Some (Shared (Suc n))"
| "mutex_lock _ _ = None"

fun mutex_unlock :: "bool \<Rightarrow> Mutex \<Rightarrow> Mutex option" where
  "mutex_unlock True Exclusive = Some (Shared 0)"
| "mutex_unlock False (Shared (Suc n)) = Some (Shared n)"
| "mutex_unlock _ _ = None"

section \<open>ConcurInMemoryKVStore\<close>

definition kConcurLevel :: nat where
  "kConcurLevel = 4096"

definition kSegmentMask :: "64 word" where
  "kSegmentMask = of_nat kConcurLevel - 1"

definition kSegmentShift :: nat where
  "kSegmentShift = 64 - 12"

record Segment =
  mMutex :: Mutex
  mBucketKVStore :: InMemoryKVStore

record ConcurInMemoryKVStore =
  mSegments :: "nat \<Rightarrow> Segment"
  mConcurrent :: "64 word"
  mCObserved :: "ObserverCall list"

definition newConcur :: ConcurInMemoryKVStore where
  "newConcur = \<lparr>mSegments = \<lambda>_. \<lparr>mMutex = Shared 0, mBucketKVStore = emptyInMemory\<rparr>,
     mConcurrent = 0, mCObserved = []\<rparr>"

definition calculateSegmentIndex :: "(KeyType \<Rightarrow> 64 word) \<Rightarrow> KeyType \<Rightarrow> nat" where
  "calculateSegmentIndex hash key = unat (drop_bit kSegmentShift (hash key) AND kSegmentMask)"

text \<open>\<^verbatim>\<open>indexFlags\<close> and the loop over them: the flagged segments in ascending order.\<close>

definition flaggedSegments :: "(KeyType \<Rightarrow> 64 word) \<Rightarrow> KeyType list \<Rightarrow> nat list" where
  "flaggedSegments hash targetKeys =
     filter (\<lambda>i. i \<in> set (map (calculateSegmentIndex hash) targetKeys)) [0..<kConcurLevel]"

definition setMutex :: "nat \<Rightarrow> Mutex \<Rightarrow> ConcurInMemoryKVStore \<Rightarrow> ConcurInMemoryKVStore" where
  "setMutex i mx c = c\<lparr>mSegments := (mSegments c)(i := (mSegments c i)\<lparr>mMutex := mx\<rparr>)\<rparr>"

primrec Concur_lockLoop :: "bool \<Rightarrow> nat list \<Rightarrow> ConcurInMemoryKVStore \<Rightarrow> ConcurInMemoryKVStore option" where
  "Concur_lockLoop isExclusive [] c = Some c"
| "Concur_lockLoop isExclusive (i # is) c = do {
     mx \<leftarrow> mutex_lock isExclusive (mMutex (mSegments c i));
     Concur_lockLoop isExclusive is ((setMutex i mx c)\<lparr>mConcurrent := mConcurrent c + 1\<rparr>)
   }"

primrec Concur_unlockLoop :: "bool \<Rightarrow> nat list \<Rightarrow> ConcurInMemoryKVStore \<Rightarrow> ConcurInMemoryKVStore option" where
  "Concur_unlockLoop isExclusive [] c = Some c"
| "Concur_unlockLoop isExclusive (i # is) c = do {
     mx \<leftarrow> mutex_unlock isExclusive (mMutex (mSegments c i));
     Concur_unlockLoop isExclusive is ((setMutex i mx c)\<lparr>mConcurrent := mConcurrent c - 1\<rparr>)
   }"

definition Concur_lock ::
  "(KeyType \<Rightarrow> 64 word) \<Rightarrow> KeyType list \<Rightarrow> bool \<Rightarrow> ConcurInMemoryKVStore \<Rightarrow> (Status \<times> ConcurInMemoryKVStore) option" where
  "Concur_lock hash targetKeys isExclusive c = do {
     assert (\<forall>key \<in> set targetKeys. calculateSegmentIndex hash key < kConcurLevel);
     c' \<leftarrow> Concur_lockLoop isExclusive (flaggedSegments hash targetKeys) c;
     Some (Status_ok, c')
   }"

definition Concur_unlock ::
  "(KeyType \<Rightarrow> 64 word) \<Rightarrow> KeyType list \<Rightarrow> bool \<Rightarrow> ConcurInMemoryKVStore \<Rightarrow> (Status \<times> ConcurInMemoryKVStore) option" where
  "Concur_unlock hash targetKeys isExclusive c = do {
     assert (\<forall>key \<in> set targetKeys. calculateSegmentIndex hash key < kConcurLevel);
     c' \<leftarrow> Concur_unlockLoop isExclusive (flaggedSegments hash targetKeys) c;
     Some (Status_ok, c')
   }"

text \<open>An operation of the bucket a key falls into.\<close>

definition getBucket :: "ConcurInMemoryKVStore \<Rightarrow> nat \<Rightarrow> InMemoryKVStore" where
  "getBucket c i = mBucketKVStore (mSegments c i)"

definition putBucket :: "ConcurInMemoryKVStore \<Rightarrow> nat \<Rightarrow> InMemoryKVStore \<Rightarrow> ConcurInMemoryKVStore" where
  "putBucket c i m = c\<lparr>mSegments := (mSegments c)(i := (mSegments c i)\<lparr>mBucketKVStore := m\<rparr>)\<rparr>"

definition onBucket ::
  "(KeyType \<Rightarrow> 64 word) \<Rightarrow> KeyType \<Rightarrow> (InMemoryKVStore \<times> 'd \<Rightarrow> (Status \<times> InMemoryKVStore \<times> 'd) option) \<Rightarrow>
   ConcurInMemoryKVStore \<times> 'd \<Rightarrow> (Status \<times> ConcurInMemoryKVStore \<times> 'd) option" where
  "onBucket hash key f = (\<lambda>(c, d). do {
     let index = calculateSegmentIndex hash key;
     assert (index < kConcurLevel);
     (st, m, d') \<leftarrow> f (getBucket c index, d);
     Some (st, putBucket c index m, d')
   })"

definition onBucketOut ::
  "(KeyType \<Rightarrow> 64 word) \<Rightarrow> KeyType \<Rightarrow> (InMemoryKVStore \<times> 'd \<Rightarrow> (Status \<times> 'o \<times> InMemoryKVStore \<times> 'd) option) \<Rightarrow>
   ConcurInMemoryKVStore \<times> 'd \<Rightarrow> (Status \<times> 'o \<times> ConcurInMemoryKVStore \<times> 'd) option" where
  "onBucketOut hash key f = (\<lambda>(c, d). do {
     let index = calculateSegmentIndex hash key;
     assert (index < kConcurLevel);
     (st, out, m, d') \<leftarrow> f (getBucket c index, d);
     Some (st, out, putBucket c index m, d')
   })"

definition Concur_forAll :: "(InMemoryKVStore \<Rightarrow> InMemoryKVStore) \<Rightarrow> ConcurInMemoryKVStore \<Rightarrow> ConcurInMemoryKVStore" where
  "Concur_forAll f c = fold (\<lambda>i c. putBucket c i (f (getBucket c i))) [0..<kConcurLevel] c"

definition Concur_open :: "ConcurInMemoryKVStore \<Rightarrow> Status \<times> ConcurInMemoryKVStore" where
  "Concur_open c = (Status_ok, Concur_forAll (\<lambda>m. snd (InMem_open m)) c)"

definition Concur_close :: "ConcurInMemoryKVStore \<Rightarrow> Status \<times> ConcurInMemoryKVStore" where
  "Concur_close c = (Status_ok, Concur_forAll (\<lambda>m. snd (InMem_close m)) c)"

definition Concur_clear :: "ConcurInMemoryKVStore \<Rightarrow> ConcurInMemoryKVStore" where
  "Concur_clear c = Concur_forAll InMem_clear c"

primrec Concur_evictLoop ::
  "(KeyType \<Rightarrow> 64 word) \<Rightarrow> 'd KVStore \<Rightarrow> TimeType \<Rightarrow> VersionType \<Rightarrow> KeyType list \<Rightarrow>
   ConcurInMemoryKVStore \<times> 'd \<Rightarrow> (ConcurInMemoryKVStore \<times> 'd) option" where
  "Concur_evictLoop hash D now guardVersion [] cd = Some cd"
| "Concur_evictLoop hash D now guardVersion (key # keys) cd = do {
     (st, cd') \<leftarrow> onBucket hash key (InMem_evictKV D now [key] guardVersion) cd;
     Concur_evictLoop hash D now guardVersion keys cd'
   }"

definition Concur_evictKV ::
  "(KeyType \<Rightarrow> 64 word) \<Rightarrow> 'd KVStore \<Rightarrow> TimeType \<Rightarrow> KeyType list \<Rightarrow> VersionType \<Rightarrow>
   ConcurInMemoryKVStore \<times> 'd \<Rightarrow> (Status \<times> ConcurInMemoryKVStore \<times> 'd) option" where
  "Concur_evictKV hash D now keys guardVersion cd = do {
     (c, d) \<leftarrow> Concur_evictLoop hash D now guardVersion keys cd;
     Some (Status_ok, c\<lparr>mCObserved := mCObserved c @ [OnEvictKeys keys]\<rparr>, d)
   }"

text \<open>An operation on the object alone, on the pair with the delegate.\<close>

definition onFst :: "('c \<Rightarrow> (Status \<times> 'c) option) \<Rightarrow> 'c \<times> 'd \<Rightarrow> (Status \<times> 'c \<times> 'd) option" where
  "onFst f = (\<lambda>(c, d). do { (st, c') \<leftarrow> f c; Some (st, c', d) })"

definition Concur_ops :: "(KeyType \<Rightarrow> 64 word) \<Rightarrow> 'd KVStore \<Rightarrow> (ConcurInMemoryKVStore \<times> 'd) KVStore" where
  "Concur_ops hash D = KVStore_base\<lparr>
     kv_open := onCache Concur_open,
     kv_close := onCache Concur_close,
     kv_lock := \<lambda>keys x. onFst (Concur_lock hash keys x),
     kv_unlock := \<lambda>keys x. onFst (Concur_unlock hash keys x),
     kv_writeKV := \<lambda>key v ver ut um. onBucket hash key (kv_writeKV (InMemory_ops D) key v ver ut um),
     kv_writeTTLKV := \<lambda>key v ver t dl ut um. onBucket hash key (kv_writeTTLKV (InMemory_ops D) key v ver t dl ut um),
     kv_readKV := \<lambda>now key out. onBucketOut hash key (kv_readKV (InMemory_ops D) now key out),
     kv_deleteKV := \<lambda>key recVer ver. onBucket hash key (kv_deleteKV (InMemory_ops D) key recVer ver),
     kv_readKVFromProxy := \<lambda>now key out. onBucketOut hash key (kv_readKVFromProxy (InMemory_ops D) now key out),
     kv_readMetaFromProxy := \<lambda>key meta. onBucketOut hash key (kv_readMetaFromProxy (InMemory_ops D) key meta),
     kv_readMeta := \<lambda>key meta. onBucketOut hash key (kv_readMeta (InMemory_ops D) key meta),
     kv_clear := \<lambda>(c, d). Some (Concur_clear c, d),
     kv_evictKV := Concur_evictKV hash D\<rparr>"

section \<open>Routing to the segments\<close>

lemma calculateSegmentIndex_bound: "calculateSegmentIndex hash key < kConcurLevel"
proof -
  have "drop_bit kSegmentShift (hash key) AND kSegmentMask \<le> kSegmentMask"
    by (rule word_and_le1)
  then have "calculateSegmentIndex hash key \<le> unat kSegmentMask"
    by (simp add: calculateSegmentIndex_def word_le_nat_alt)
  also have "\<dots> < kConcurLevel"
    by (simp add: kSegmentMask_def kConcurLevel_def)
  finally show ?thesis .
qed

lemma getBucket_putBucket [simp]:
  "getBucket (putBucket c i m) j = (if j = i then m else getBucket c j)"
  by (simp add: getBucket_def putBucket_def)

lemma Concur_ops_sel [simp]:
  "kv_writeKV (Concur_ops hash D) key v ver ut um = onBucket hash key (kv_writeKV (InMemory_ops D) key v ver ut um)"
  "kv_writeTTLKV (Concur_ops hash D) key v ver t dl ut um =
     onBucket hash key (kv_writeTTLKV (InMemory_ops D) key v ver t dl ut um)"
  "kv_deleteKV (Concur_ops hash D) key recVer ver' = onBucket hash key (kv_deleteKV (InMemory_ops D) key recVer ver')"
  "kv_readKV (Concur_ops hash D) now key out = onBucketOut hash key (kv_readKV (InMemory_ops D) now key out)"
  "kv_lock (Concur_ops hash D) keys x = onFst (Concur_lock hash keys x)"
  "kv_unlock (Concur_ops hash D) keys x = onFst (Concur_unlock hash keys x)"
  "kv_evictKV (Concur_ops hash D) = Concur_evictKV hash D"
  "kv_readMeta (Concur_ops hash D) key meta = onBucketOut hash key (kv_readMeta (InMemory_ops D) key meta)"
  "kv_readKVFromProxy (Concur_ops hash D) now key out = onBucketOut hash key (kv_readKVFromProxy (InMemory_ops D) now key out)"
  "kv_readMetaFromProxy (Concur_ops hash D) key meta = onBucketOut hash key (kv_readMetaFromProxy (InMemory_ops D) key meta)"
  by (simp_all add: Concur_ops_def KVStore_base_def)

lemma onBucket_eq:
  "onBucket hash key f (c, d) = do {
     (st, m, d') \<leftarrow> f (getBucket c (calculateSegmentIndex hash key), d);
     Some (st, putBucket c (calculateSegmentIndex hash key) m, d') }"
  "onBucketOut hash key g (c, d) = do {
     (st, out, m, d') \<leftarrow> g (getBucket c (calculateSegmentIndex hash key), d);
     Some (st, out, putBucket c (calculateSegmentIndex hash key) m, d') }"
  by (simp_all add: onBucket_def onBucketOut_def calculateSegmentIndex_bound Let_def)

sublocale kv_source \<subseteq> concur: kv_routed "InMemory_ops D" "InMem_inv dinv" "InMem_view dview"
  "\<lambda>_ _ _ _ _ _. True" InMem_resident "Concur_ops hash D" getBucket putBucket "calculateSegmentIndex hash" "\<lambda>_. True"
  for hash
  by (unfold_locales; simp only: Concur_ops_sel onBucket_eq getBucket_putBucket simp_thms)

section \<open>Locks of the segments\<close>

definition segmentLocks :: "ConcurInMemoryKVStore \<Rightarrow> nat \<Rightarrow> Mutex" where
  "segmentLocks c i = mMutex (mSegments c i)"

definition lockable :: "bool \<Rightarrow> Mutex \<Rightarrow> bool" where
  "lockable x mx = (mutex_lock x mx \<noteq> None)"

definition lockedBy :: "bool \<Rightarrow> nat set \<Rightarrow> (nat \<Rightarrow> Mutex) \<Rightarrow> nat \<Rightarrow> Mutex" where
  "lockedBy x I lk i = (if i \<in> I then the (mutex_lock x (lk i)) else lk i)"

lemma mutex_unlock_lock: "mutex_lock x mx = Some mx' \<Longrightarrow> mutex_unlock x mx' = Some mx"
  by (cases "(x, mx)" rule: mutex_lock.cases) auto

lemma setMutex_sel [simp]:
  "segmentLocks (setMutex i mx c) = (segmentLocks c)(i := mx)"
  "getBucket (setMutex i mx c) = getBucket c"
  by (auto simp: setMutex_def segmentLocks_def getBucket_def fun_eq_iff)

lemma concur_upd_sel [simp]:
  "segmentLocks (c\<lparr>mConcurrent := n\<rparr>) = segmentLocks c"
  "getBucket (c\<lparr>mConcurrent := n\<rparr>) = getBucket c"
  "segmentLocks (putBucket c i m) = segmentLocks c"
  by (auto simp: segmentLocks_def getBucket_def putBucket_def fun_eq_iff)

lemma Concur_lockLoop_ok:
  assumes "distinct is" and "\<forall>i \<in> set is. lockable x (segmentLocks c i)"
  shows "\<exists>c'. Concur_lockLoop x is c = Some c' \<and> segmentLocks c' = lockedBy x (set is) (segmentLocks c) \<and>
           getBucket c' = getBucket c"
  using assms
proof (induction "is" arbitrary: c)
  case Nil
  then show ?case
    by (simp add: lockedBy_def fun_eq_iff)
next
  case (Cons i "is")
  then obtain mx where mx: "mutex_lock x (segmentLocks c i) = Some mx"
    by (auto simp: lockable_def)
  let ?c = "(setMutex i mx c)\<lparr>mConcurrent := mConcurrent c + 1\<rparr>"
  have "distinct is" "\<forall>j \<in> set is. lockable x (segmentLocks ?c j)"
    using Cons.prems by auto
  from Cons.IH [OF this] obtain c' where c': "Concur_lockLoop x is ?c = Some c'" "getBucket c' = getBucket ?c"
      "segmentLocks c' = lockedBy x (set is) (segmentLocks ?c)"
    by blast
  have "segmentLocks c' = lockedBy x (set (i # is)) (segmentLocks c)"
    using Cons.prems mx by (auto simp: c' lockedBy_def fun_eq_iff)
  moreover have "mutex_lock x (mMutex (mSegments c i)) = Some mx"
    using mx by (simp add: segmentLocks_def)
  ultimately show ?case
    using c'(1,2) by simp
qed

lemma Concur_lockLoop_lockable:
  "distinct is \<Longrightarrow> Concur_lockLoop x is c = Some c' \<Longrightarrow> \<forall>i \<in> set is. lockable x (segmentLocks c i)"
proof (induction "is" arbitrary: c)
  case (Cons i "is")
  then obtain mx where mx: "mutex_lock x (segmentLocks c i) = Some mx"
      "Concur_lockLoop x is ((setMutex i mx c)\<lparr>mConcurrent := mConcurrent c + 1\<rparr>) = Some c'"
    by (auto simp: bind_eq_Some_conv segmentLocks_def [of c])
  have "\<forall>j \<in> set is. lockable x (((segmentLocks c)(i := mx)) j)"
    using Cons.IH [OF _ mx(2)] Cons.prems(1) by simp
  then have "\<forall>j \<in> set is. lockable x (segmentLocks c j)"
    using Cons.prems(1) by (metis distinct.simps(2) fun_upd_apply)
  then show ?case
    using mx(1) by (simp add: lockable_def)
qed simp

lemma Concur_unlockLoop_ok:
  assumes "distinct is" and "\<forall>i \<in> set is. lockable x (lk i)" and "segmentLocks c = lockedBy x (set is) lk"
  shows "\<exists>c'. Concur_unlockLoop x is c = Some c' \<and> segmentLocks c' = lk \<and> getBucket c' = getBucket c"
  using assms
proof (induction "is" arbitrary: c)
  case Nil
  then show ?case
    by (simp add: lockedBy_def fun_eq_iff)
next
  case (Cons i "is")
  obtain mx where mx: "mutex_lock x (lk i) = Some mx" "segmentLocks c i = mx"
    using Cons.prems by (auto simp: lockable_def lockedBy_def)
  let ?c = "(setMutex i (lk i) c)\<lparr>mConcurrent := mConcurrent c - 1\<rparr>"
  have "distinct is" "\<forall>i \<in> set is. lockable x (lk i)" "segmentLocks ?c = lockedBy x (set is) lk"
    using Cons.prems by (auto simp: lockedBy_def fun_eq_iff)
  from Cons.IH [OF this] obtain c' where
    "Concur_unlockLoop x is ?c = Some c'" "segmentLocks c' = lk" "getBucket c' = getBucket ?c"
    by blast
  moreover have "mutex_unlock x (mMutex (mSegments c i)) = Some (lk i)"
    using mutex_unlock_lock [OF mx(1)] mx(2) by (simp add: segmentLocks_def)
  ultimately show ?case
    by simp
qed

lemma distinct_flaggedSegments: "distinct (flaggedSegments hash keys)"
  by (simp add: flaggedSegments_def)

definition Concur_available :: "(KeyType \<Rightarrow> 64 word) \<Rightarrow> (nat \<Rightarrow> Mutex) \<Rightarrow> KeyType list \<Rightarrow> bool \<Rightarrow> bool" where
  "Concur_available hash lk keys x = (\<forall>i \<in> set (flaggedSegments hash keys). lockable x (lk i))"

lemma Concur_lock_ok:
  assumes "Concur_available hash (segmentLocks c) keys x"
  shows "\<exists>c'. Concur_lock hash keys x c = Some (Status_ok, c') \<and> getBucket c' = getBucket c \<and>
           segmentLocks c' = lockedBy x (set (flaggedSegments hash keys)) (segmentLocks c)"
  using Concur_lockLoop_ok [OF distinct_flaggedSegments [of hash keys], of x c] assms
  by (auto simp: Concur_lock_def Concur_available_def calculateSegmentIndex_bound)

lemma Concur_lock_buckets:
  "Concur_lock hash keys x c = Some (st, c') \<Longrightarrow> getBucket c' = getBucket c"
  "Concur_unlock hash keys x c = Some (st, c') \<Longrightarrow> getBucket c' = getBucket c"
proof -
  have "Concur_lockLoop x is c = Some c' \<Longrightarrow> getBucket c' = getBucket c" for "is"
    by (induction "is" arbitrary: c) (auto simp: bind_eq_Some_conv)
  then show "Concur_lock hash keys x c = Some (st, c') \<Longrightarrow> getBucket c' = getBucket c"
    by (auto simp: Concur_lock_def bind_eq_Some_conv)
  have "Concur_unlockLoop x is c = Some c' \<Longrightarrow> getBucket c' = getBucket c" for "is"
    by (induction "is" arbitrary: c) (auto simp: bind_eq_Some_conv)
  then show "Concur_unlock hash keys x c = Some (st, c') \<Longrightarrow> getBucket c' = getBucket c"
    by (auto simp: Concur_unlock_def bind_eq_Some_conv)
qed

lemma Concur_unlock_ok:
  assumes "Concur_lock hash keys x c = Some (st, c1)" and "segmentLocks c2 = segmentLocks c1"
  shows "\<exists>c3. Concur_unlock hash keys x c2 = Some (Status_ok, c3) \<and> getBucket c3 = getBucket c2 \<and>
           segmentLocks c3 = segmentLocks c"
proof -
  note d = distinct_flaggedSegments [of hash keys]
  have loop: "Concur_lockLoop x (flaggedSegments hash keys) c = Some c1"
    using assms(1) by (auto simp: Concur_lock_def bind_eq_Some_conv)
  note able = Concur_lockLoop_lockable [OF d loop]
  have "segmentLocks c1 = lockedBy x (set (flaggedSegments hash keys)) (segmentLocks c)"
    using Concur_lockLoop_ok [OF d able] loop by simp
  with Concur_unlockLoop_ok [OF d able, of c2] assms(2) show ?thesis
    by (auto simp: Concur_unlock_def calculateSegmentIndex_bound)
qed

definition Concur_locks :: "ConcurInMemoryKVStore \<times> 'd \<Rightarrow> nat \<Rightarrow> Mutex" where
  "Concur_locks cd = segmentLocks (fst cd)"

lemma onBucket_locks:
  "onBucket hash key f s = Some (st, s') \<Longrightarrow> Concur_locks s' = Concur_locks s"
  "onBucketOut hash key g s = Some (st, out, s') \<Longrightarrow> Concur_locks s' = Concur_locks s"
  by (cases s, auto simp: onBucket_eq bind_eq_Some_conv Concur_locks_def)+

abbreviation Concur_view where
  "Concur_view hash dview \<equiv> routedView (InMem_view dview) getBucket (calculateSegmentIndex hash)"

abbreviation Concur_inv where
  "Concur_inv hash dinv \<equiv> routedInv (InMem_inv dinv) getBucket (calculateSegmentIndex hash) (\<lambda>_. True)"

abbreviation Concur_resident where
  "Concur_resident hash \<equiv> routedResident InMem_resident getBucket (calculateSegmentIndex hash)"

lemma Concur_abs_cong:
  assumes "getBucket c' = getBucket c"
  shows "Concur_view hash dview (c', d) = Concur_view hash dview (c, d)"
    and "Concur_inv hash dinv (c', d) = Concur_inv hash dinv (c, d)"
    and "Concur_resident hash (c', d) = Concur_resident hash (c, d)"
  using assms by (simp_all add: routedView_def routedInv_def routedResident_def)

text \<open>Over a source, the segmented store is a locking cache.\<close>

sublocale kv_source \<subseteq> concur_locking: kv_locking_cache "Concur_ops hash D" "Concur_inv hash dinv"
  "Concur_view hash dview" "\<lambda>_ _ _ _ _ _. True" "Concur_resident hash" Concur_locks "Concur_available hash"
  for hash
proof (unfold_locales, goal_cases)
  case (1 k v ver ut um s st s')
  then show ?case
    unfolding Concur_ops_sel by (rule onBucket_locks)
next
  case (2 k v ver t dl ut um s st s')
  then show ?case
    unfolding Concur_ops_sel by (rule onBucket_locks)
next
  case (3 k recVer ver s st s')
  then show ?case
    unfolding Concur_ops_sel by (rule onBucket_locks)
next
  case (4 now k out s st out' s')
  then show ?case
    unfolding Concur_ops_sel by (rule onBucket_locks)
next
  case (5 s keys x)
  obtain c d where s: "s = (c, d)"
    by (cases s)
  with 5 Concur_lock_ok [of hash c keys x] obtain c' where
    c': "Concur_lock hash keys x c = Some (Status_ok, c')" "getBucket c' = getBucket c"
    by (auto simp: Concur_locks_def)
  with 5 show ?case
    by (simp add: s onFst_def Concur_abs_cong [OF c'(2)])
next
  case (6 keys x s s1 s2)
  obtain c d c1 d1 c2 d2 where s: "s = (c, d)" "s1 = (c1, d1)" "s2 = (c2, d2)"
    by (cases s; cases s1; cases s2)
  have "Concur_lock hash keys x c = Some (Status_ok, c1)" "segmentLocks c2 = segmentLocks c1"
    using 6 by (auto simp: s Concur_locks_def onFst_def bind_eq_Some_conv)
  from Concur_unlock_ok [OF this] obtain c3 where
    c3: "Concur_unlock hash keys x c2 = Some (Status_ok, c3)" "getBucket c3 = getBucket c2" "segmentLocks c3 = segmentLocks c"
    by blast
  with 6 show ?case
    by (simp add: s onFst_def Concur_locks_def Concur_abs_cong [OF c3(2)])
qed

section \<open>Eviction\<close>

lemma getBucket_observed [simp]: "getBucket (c\<lparr>mCObserved := obs\<rparr>) = getBucket c"
  "segmentLocks (c\<lparr>mCObserved := obs\<rparr>) = segmentLocks c"
  by (simp_all add: getBucket_def segmentLocks_def fun_eq_iff)

lemma Concur_bucket_step:
  assumes inv: "Concur_inv hash dinv (c, d)" and "getBucket c' = getBucket (putBucket c i m)"
    and m: "InMem_inv dinv (m, d)" "InMem_view dview (m, d) = InMem_view dview (getBucket c i, d)"
  shows "Concur_inv hash dinv (c', d)" and "Concur_view hash dview (c', d) = Concur_view hash dview (c, d)"
  using inv m by (auto simp: routedInv_def routedView_def assms(2) fun_eq_iff)

context kv_source
begin

lemma Concur_evictOne_view:
  assumes inv: "Concur_inv hash dinv (c, d)"
    and cov: "covered now g (dview d) k (mData (getBucket c (calculateSegmentIndex hash k)) k)"
  shows "\<exists>c'. Concur_evictKV hash D now [k] g (c, d) = Some (Status_ok, c', d) \<and> Concur_inv hash dinv (c', d) \<and>
           Concur_view hash dview (c', d) = Concur_view hash dview (c, d) \<and>
           (\<forall>i k'. mData (getBucket c' i) k' = mData (getBucket c i) k' \<or> mData (getBucket c' i) k' = None)"
proof -
  let ?i = "calculateSegmentIndex hash k"
  have "InMem_inv dinv (getBucket c ?i, d)"
    using inv by (simp add: routedInv_def)
  from InMem_evictOne_view [OF this cov] obtain m' where m':
    "InMem_evictKV D now [k] g (getBucket c ?i, d) = Some (Status_ok, m', d)" "InMem_inv dinv (m', d)"
    "InMem_view dview (m', d) = InMem_view dview (getBucket c ?i, d)"
    "\<forall>k'. mData m' k' = mData (getBucket c ?i) k' \<or> mData m' k' = None"
    by blast
  let ?c = "(putBucket c ?i m')\<lparr>mCObserved := mCObserved (putBucket c ?i m') @ [OnEvictKeys [k]]\<rparr>"
  have "Concur_evictKV hash D now [k] g (c, d) = Some (Status_ok, ?c, d)"
    using m'(1) by (simp add: Concur_evictKV_def onBucket_eq)
  moreover have "Concur_inv hash dinv (?c, d)" "Concur_view hash dview (?c, d) = Concur_view hash dview (c, d)"
    using Concur_bucket_step [OF inv _ m'(2,3), of ?c] by simp_all
  moreover have "\<forall>i k'. mData (getBucket ?c i) k' = mData (getBucket c i) k' \<or> mData (getBucket ?c i) k' = None"
    using m'(4) by simp
  ultimately show ?thesis
    by blast
qed

end

end
