(* ===== verification/WS_Store.thy ===== *)
theory WS_Store
  imports Concur_Store
begin

text \<open>
  \<^verbatim>\<open>kv-engine/store/WSConcurInMemoryKVStore\<close>: one segmented store per working set, and a
  reader/writer mutex for the set as a whole. Keys are grouped by working set, and the groups are
  locked in the order of their names.
\<close>

record ConcurWrapper =
  mKVStore :: ConcurInMemoryKVStore
  mWSMutex :: Mutex

record WSConcurInMemoryKVStore =
  mWS2Wrapper :: "WSName \<rightharpoonup> ConcurWrapper"

primrec addWorkingSets :: "WSName list \<Rightarrow> WSConcurInMemoryKVStore \<Rightarrow> WSConcurInMemoryKVStore option" where
  "addWorkingSets [] w = Some w"
| "addWorkingSets (name # names) w = do {
     assert (mWS2Wrapper w name = None);
     addWorkingSets names
       (w\<lparr>mWS2Wrapper := (mWS2Wrapper w)(name \<mapsto> \<lparr>mKVStore = newConcur, mWSMutex = Shared 0\<rparr>)\<rparr>)
   }"

definition newWSConcur :: "WSName list \<Rightarrow> WSConcurInMemoryKVStore option" where
  "newWSConcur initWSNames = addWorkingSets initWSNames \<lparr>mWS2Wrapper = Map.empty\<rparr>"

text \<open>\<^verbatim>\<open>ws2Keys\<close>: the target keys of each working set, by ascending name.\<close>

definition ws2Keys :: "(KeyType \<Rightarrow> WSName) \<Rightarrow> KeyType list \<Rightarrow> (WSName \<times> KeyType list) list" where
  "ws2Keys lookup targetKeys =
     map (\<lambda>name. (name, filter (\<lambda>key. lookup key = name) targetKeys)) (std_set (map lookup targetKeys))"

primrec WS_forGroups ::
  "(KeyType list \<Rightarrow> ConcurInMemoryKVStore \<Rightarrow> (Status \<times> ConcurInMemoryKVStore) option) \<Rightarrow>
   (WSName \<times> KeyType list) list \<Rightarrow> WSConcurInMemoryKVStore \<Rightarrow> WSConcurInMemoryKVStore option" where
  "WS_forGroups f [] w = Some w"
| "WS_forGroups f (g # gs) w = do {
     wr \<leftarrow> mWS2Wrapper w (fst g);
     (st, c) \<leftarrow> f (snd g) (mKVStore wr);
     WS_forGroups f gs (w\<lparr>mWS2Wrapper := (mWS2Wrapper w)(fst g \<mapsto> wr\<lparr>mKVStore := c\<rparr>)\<rparr>)
   }"

definition WS_lock ::
  "(KeyType \<Rightarrow> 64 word) \<Rightarrow> (KeyType \<Rightarrow> WSName) \<Rightarrow> KeyType list \<Rightarrow> bool \<Rightarrow>
   WSConcurInMemoryKVStore \<Rightarrow> (Status \<times> WSConcurInMemoryKVStore) option" where
  "WS_lock hash lookup targetKeys isExclusive w = do {
     w' \<leftarrow> WS_forGroups (\<lambda>keys. Concur_lock hash keys isExclusive) (ws2Keys lookup targetKeys) w;
     Some (Status_ok, w')
   }"

definition WS_unlock ::
  "(KeyType \<Rightarrow> 64 word) \<Rightarrow> (KeyType \<Rightarrow> WSName) \<Rightarrow> KeyType list \<Rightarrow> bool \<Rightarrow>
   WSConcurInMemoryKVStore \<Rightarrow> (Status \<times> WSConcurInMemoryKVStore) option" where
  "WS_unlock hash lookup targetKeys isExclusive w = do {
     w' \<leftarrow> WS_forGroups (\<lambda>keys. Concur_unlock hash keys isExclusive) (ws2Keys lookup targetKeys) w;
     Some (Status_ok, w')
   }"

definition WS_lockWS :: "WSName \<Rightarrow> bool \<Rightarrow> WSConcurInMemoryKVStore \<Rightarrow> (Status \<times> WSConcurInMemoryKVStore) option" where
  "WS_lockWS targetWS isExclusive w = do {
     wr \<leftarrow> mWS2Wrapper w targetWS;
     mx \<leftarrow> mutex_lock isExclusive (mWSMutex wr);
     Some (Status_ok, w\<lparr>mWS2Wrapper := (mWS2Wrapper w)(targetWS \<mapsto> wr\<lparr>mWSMutex := mx\<rparr>)\<rparr>)
   }"

definition WS_unlockWS :: "WSName \<Rightarrow> bool \<Rightarrow> WSConcurInMemoryKVStore \<Rightarrow> (Status \<times> WSConcurInMemoryKVStore) option" where
  "WS_unlockWS targetWS isExclusive w = do {
     wr \<leftarrow> mWS2Wrapper w targetWS;
     mx \<leftarrow> mutex_unlock isExclusive (mWSMutex wr);
     Some (Status_ok, w\<lparr>mWS2Wrapper := (mWS2Wrapper w)(targetWS \<mapsto> wr\<lparr>mWSMutex := mx\<rparr>)\<rparr>)
   }"

text \<open>An operation of the segmented store of the working set of a key.\<close>

definition getWS :: "WSConcurInMemoryKVStore \<Rightarrow> WSName \<Rightarrow> ConcurInMemoryKVStore" where
  "getWS w name = mKVStore (the (mWS2Wrapper w name))"

definition putWS :: "WSConcurInMemoryKVStore \<Rightarrow> WSName \<Rightarrow> ConcurInMemoryKVStore \<Rightarrow> WSConcurInMemoryKVStore" where
  "putWS w name c = w\<lparr>mWS2Wrapper := (mWS2Wrapper w)(name \<mapsto> (the (mWS2Wrapper w name))\<lparr>mKVStore := c\<rparr>)\<rparr>"

definition onWS ::
  "(KeyType \<Rightarrow> WSName) \<Rightarrow> KeyType \<Rightarrow> (ConcurInMemoryKVStore \<times> 'd \<Rightarrow> (Status \<times> ConcurInMemoryKVStore \<times> 'd) option) \<Rightarrow>
   WSConcurInMemoryKVStore \<times> 'd \<Rightarrow> (Status \<times> WSConcurInMemoryKVStore \<times> 'd) option" where
  "onWS lookup key f = (\<lambda>(w, d). do {
     let name = lookup key;
     assert (mWS2Wrapper w name \<noteq> None);
     (st, c, d') \<leftarrow> f (getWS w name, d);
     Some (st, putWS w name c, d')
   })"

definition onWSOut ::
  "(KeyType \<Rightarrow> WSName) \<Rightarrow> KeyType \<Rightarrow> (ConcurInMemoryKVStore \<times> 'd \<Rightarrow> (Status \<times> 'o \<times> ConcurInMemoryKVStore \<times> 'd) option) \<Rightarrow>
   WSConcurInMemoryKVStore \<times> 'd \<Rightarrow> (Status \<times> 'o \<times> WSConcurInMemoryKVStore \<times> 'd) option" where
  "onWSOut lookup key f = (\<lambda>(w, d). do {
     let name = lookup key;
     assert (mWS2Wrapper w name \<noteq> None);
     (st, out, c, d') \<leftarrow> f (getWS w name, d);
     Some (st, out, putWS w name c, d')
   })"

definition WS_forAll ::
  "(ConcurInMemoryKVStore \<Rightarrow> ConcurInMemoryKVStore) \<Rightarrow> WSConcurInMemoryKVStore \<Rightarrow> WSConcurInMemoryKVStore" where
  "WS_forAll f w = w\<lparr>mWS2Wrapper := \<lambda>name. map_option (\<lambda>wr. wr\<lparr>mKVStore := f (mKVStore wr)\<rparr>) (mWS2Wrapper w name)\<rparr>"

definition WS_open :: "WSConcurInMemoryKVStore \<Rightarrow> Status \<times> WSConcurInMemoryKVStore" where
  "WS_open w = (Status_ok, WS_forAll (\<lambda>c. snd (Concur_open c)) w)"

definition WS_close :: "WSConcurInMemoryKVStore \<Rightarrow> Status \<times> WSConcurInMemoryKVStore" where
  "WS_close w = (Status_ok, WS_forAll (\<lambda>c. snd (Concur_close c)) w)"

definition WS_clear :: "WSConcurInMemoryKVStore \<Rightarrow> WSConcurInMemoryKVStore" where
  "WS_clear w = WS_forAll Concur_clear w"

primrec WS_evictLoop ::
  "(KeyType \<Rightarrow> 64 word) \<Rightarrow> (KeyType \<Rightarrow> WSName) \<Rightarrow> 'd KVStore \<Rightarrow> TimeType \<Rightarrow> VersionType \<Rightarrow> KeyType list \<Rightarrow>
   WSConcurInMemoryKVStore \<times> 'd \<Rightarrow> (WSConcurInMemoryKVStore \<times> 'd) option" where
  "WS_evictLoop hash lookup D now guardVersion [] wd = Some wd"
| "WS_evictLoop hash lookup D now guardVersion (key # keys) wd = do {
     (st, wd') \<leftarrow> onWS lookup key (Concur_evictKV hash D now [key] guardVersion) wd;
     WS_evictLoop hash lookup D now guardVersion keys wd'
   }"

text \<open>No observer is ever registered with this object itself (\<^verbatim>\<open>registerObserver\<close> passes them
  on to the stores of the working sets), so its own \<^verbatim>\<open>onEvictKeys\<close> calls nobody.\<close>

definition WS_evictKV ::
  "(KeyType \<Rightarrow> 64 word) \<Rightarrow> (KeyType \<Rightarrow> WSName) \<Rightarrow> 'd KVStore \<Rightarrow> TimeType \<Rightarrow> KeyType list \<Rightarrow> VersionType \<Rightarrow>
   WSConcurInMemoryKVStore \<times> 'd \<Rightarrow> (Status \<times> WSConcurInMemoryKVStore \<times> 'd) option" where
  "WS_evictKV hash lookup D now keys guardVersion wd = do {
     wd' \<leftarrow> WS_evictLoop hash lookup D now guardVersion keys wd;
     Some (Status_ok, wd')
   }"

definition WSConcur_ops ::
  "(KeyType \<Rightarrow> 64 word) \<Rightarrow> (KeyType \<Rightarrow> WSName) \<Rightarrow> 'd KVStore \<Rightarrow> (WSConcurInMemoryKVStore \<times> 'd) KVStore" where
  "WSConcur_ops hash lookup D = KVStore_base\<lparr>
     kv_open := onCache WS_open,
     kv_close := onCache WS_close,
     kv_lock := \<lambda>keys x. onFst (WS_lock hash lookup keys x),
     kv_unlock := \<lambda>keys x. onFst (WS_unlock hash lookup keys x),
     kv_lockWS := \<lambda>ws x. onFst (WS_lockWS ws x),
     kv_unlockWS := \<lambda>ws x. onFst (WS_unlockWS ws x),
     kv_writeKV := \<lambda>key v ver ut um. onWS lookup key (kv_writeKV (Concur_ops hash D) key v ver ut um),
     kv_writeTTLKV := \<lambda>key v ver t dl ut um. onWS lookup key (kv_writeTTLKV (Concur_ops hash D) key v ver t dl ut um),
     kv_readKV := \<lambda>now key out. onWSOut lookup key (kv_readKV (Concur_ops hash D) now key out),
     kv_deleteKV := \<lambda>key recVer ver. onWS lookup key (kv_deleteKV (Concur_ops hash D) key recVer ver),
     kv_readKVFromProxy := \<lambda>now key out. onWSOut lookup key (kv_readKVFromProxy (Concur_ops hash D) now key out),
     kv_readMetaFromProxy := \<lambda>key meta. onWSOut lookup key (kv_readMetaFromProxy (Concur_ops hash D) key meta),
     kv_readMeta := \<lambda>key meta. onWSOut lookup key (kv_readMeta (Concur_ops hash D) key meta),
     kv_clear := \<lambda>(w, d). Some (WS_clear w, d),
     kv_flush := \<lambda>(w, d). do { (st, d') \<leftarrow> kv_flush D d; Some (st, w, d') },
     kv_evictKV := WS_evictKV hash lookup D\<rparr>"

section \<open>Routing to the working sets\<close>

lemma WSConcur_ops_sel [simp]:
  "kv_writeKV (WSConcur_ops hash lookup D) key v ver ut um =
     onWS lookup key (kv_writeKV (Concur_ops hash D) key v ver ut um)"
  "kv_writeTTLKV (WSConcur_ops hash lookup D) key v ver t dl ut um =
     onWS lookup key (kv_writeTTLKV (Concur_ops hash D) key v ver t dl ut um)"
  "kv_deleteKV (WSConcur_ops hash lookup D) key recVer ver' =
     onWS lookup key (kv_deleteKV (Concur_ops hash D) key recVer ver')"
  "kv_readKV (WSConcur_ops hash lookup D) now key out =
     onWSOut lookup key (kv_readKV (Concur_ops hash D) now key out)"
  "kv_lock (WSConcur_ops hash lookup D) keys x = onFst (WS_lock hash lookup keys x)"
  "kv_unlock (WSConcur_ops hash lookup D) keys x = onFst (WS_unlock hash lookup keys x)"
  "kv_evictKV (WSConcur_ops hash lookup D) = WS_evictKV hash lookup D"
  "kv_readMeta (WSConcur_ops hash lookup D) key meta = onWSOut lookup key (kv_readMeta (Concur_ops hash D) key meta)"
  "kv_readKVFromProxy (WSConcur_ops hash lookup D) now key out =
     onWSOut lookup key (kv_readKVFromProxy (Concur_ops hash D) now key out)"
  "kv_readMetaFromProxy (WSConcur_ops hash lookup D) key meta =
     onWSOut lookup key (kv_readMetaFromProxy (Concur_ops hash D) key meta)"
  "kv_clear (WSConcur_ops hash lookup D) = (\<lambda>(w, d). Some (WS_clear w, d))"
  "kv_flush (WSConcur_ops hash lookup D) = (\<lambda>(w, d). do { (st, d') \<leftarrow> kv_flush D d; Some (st, w, d') })"
  by (simp_all add: WSConcur_ops_def KVStore_base_def)

definition WS_valid :: "(KeyType \<Rightarrow> WSName) \<Rightarrow> WSConcurInMemoryKVStore \<Rightarrow> bool" where
  "WS_valid lookup w = (\<forall>k. mWS2Wrapper w (lookup k) \<noteq> None)"

lemma onWS_eq:
  "WS_valid lookup w \<Longrightarrow> onWS lookup key f (w, d) = do {
     (st, c, d') \<leftarrow> f (getWS w (lookup key), d);
     Some (st, putWS w (lookup key) c, d') }"
  "WS_valid lookup w \<Longrightarrow> onWSOut lookup key g (w, d) = do {
     (st, out, c, d') \<leftarrow> g (getWS w (lookup key), d);
     Some (st, out, putWS w (lookup key) c, d') }"
  by (simp_all add: onWS_def onWSOut_def WS_valid_def Let_def)

lemma getWS_putWS: "getWS (putWS w name c) name' = (if name' = name then c else getWS w name')"
  by (simp add: getWS_def putWS_def)

lemma WS_valid_putWS: "WS_valid lookup w \<Longrightarrow> WS_valid lookup (putWS w name c)"
  by (simp add: WS_valid_def putWS_def)

lemma onWS_base:
  assumes "\<And>c st c' d'. f (c, d) = Some (st, c', d') \<Longrightarrow> d' = d" and "onWS lookup key f (w, d) = Some (st, w', d')"
  shows "d' = d"
  using assms by (auto simp: onWS_def Let_def bind_eq_Some_conv)

abbreviation WS_view where
  "WS_view hash lookup dview \<equiv> routedView (Concur_view hash dview) getWS lookup"

abbreviation WS_inv where
  "WS_inv hash lookup dinv \<equiv> routedInv (Concur_inv hash dinv) getWS lookup (WS_valid lookup)"

abbreviation WS_resident where
  "WS_resident hash lookup \<equiv> routedResident (Concur_resident hash) getWS lookup"

sublocale kv_source \<subseteq> ws: kv_routed "Concur_ops hash D" "Concur_inv hash dinv" "Concur_view hash dview"
  "\<lambda>_ _ _ _ _ _. True" "Concur_resident hash" "WSConcur_ops hash lookup D" getWS putWS lookup "WS_valid lookup"
  for hash lookup
proof (unfold_locales, goal_cases)
  case (1 s k c k')
  show ?case
    by (rule getWS_putWS)
next
  case (2 s k c)
  then show ?case
    by (rule WS_valid_putWS)
next
  case (3 s k v ver ut um d)
  then show ?case
    unfolding WSConcur_ops_sel by (rule onWS_eq)
next
  case (4 s k v ver t dl ut um d)
  then show ?case
    unfolding WSConcur_ops_sel by (rule onWS_eq)
next
  case (5 s k recVer ver d)
  then show ?case
    unfolding WSConcur_ops_sel by (rule onWS_eq)
next
  case (6 s now k out d)
  then show ?case
    unfolding WSConcur_ops_sel by (rule onWS_eq)
next
  case (7 s k v ver ut um d st s' d')
  from 7(2) [unfolded WSConcur_ops_sel] show ?case
    by (rule onWS_base [rotated]) (rule concur.routed.writeKV_base)
next
  case (8 s k v ver t dl ut um d st s' d')
  from 8(2) [unfolded WSConcur_ops_sel] show ?case
    by (rule onWS_base [rotated]) (rule concur.routed.writeTTLKV_base)
next
  case (9 s k recVer ver d st s' d')
  from 9(2) [unfolded WSConcur_ops_sel] show ?case
    by (rule onWS_base [rotated]) (rule concur.routed.deleteKV_base)
qed

section \<open>Locks of the working sets\<close>

lemma WS_forGroups_result:
  assumes "distinct (map fst gs)" and "WS_forGroups f gs w = Some w'"
  shows "case map_of gs name of
      None \<Rightarrow> mWS2Wrapper w' name = mWS2Wrapper w name
    | Some keys \<Rightarrow> \<exists>wr st c. mWS2Wrapper w name = Some wr \<and> f keys (mKVStore wr) = Some (st, c) \<and>
                    mWS2Wrapper w' name = Some (wr\<lparr>mKVStore := c\<rparr>)"
  using assms
proof (induction gs arbitrary: w)
  case (Cons g gs)
  then obtain wr st c where g: "mWS2Wrapper w (fst g) = Some wr" "f (snd g) (mKVStore wr) = Some (st, c)"
      "WS_forGroups f gs (w\<lparr>mWS2Wrapper := (mWS2Wrapper w)(fst g \<mapsto> wr\<lparr>mKVStore := c\<rparr>)\<rparr>) = Some w'"
    by (auto simp: bind_eq_Some_conv)
  have fresh: "map_of gs (fst g) = None"
    using Cons.prems(1) by (simp add: map_of_eq_None_iff)
  have "distinct (map fst gs)"
    using Cons.prems(1) by simp
  note rest = Cons.IH [OF this g(3)]
  show ?case
  proof (cases "name = fst g")
    case True
    then show ?thesis
      using rest fresh g(1,2) by (cases g) simp
  next
    case False
    then show ?thesis
      using rest by (cases g; cases "map_of gs name") simp_all
  qed
qed simp

lemma WS_forGroups_total:
  assumes "distinct (map fst gs)"
    and "\<forall>g \<in> set gs. \<exists>wr st c. mWS2Wrapper w (fst g) = Some wr \<and> f (snd g) (mKVStore wr) = Some (st, c)"
  shows "\<exists>w'. WS_forGroups f gs w = Some w'"
  using assms
proof (induction gs arbitrary: w)
  case (Cons g gs)
  then obtain wr st c where g: "mWS2Wrapper w (fst g) = Some wr" "f (snd g) (mKVStore wr) = Some (st, c)"
    by auto
  let ?w = "w\<lparr>mWS2Wrapper := (mWS2Wrapper w)(fst g \<mapsto> wr\<lparr>mKVStore := c\<rparr>)\<rparr>"
  have "\<exists>wr st c. mWS2Wrapper ?w (fst h) = Some wr \<and> f (snd h) (mKVStore wr) = Some (st, c)" if "h \<in> set gs" for h
  proof -
    have "fst h \<noteq> fst g"
      using Cons.prems(1) that by (metis distinct.simps(2) image_eqI list.map(2) set_map)
    then show ?thesis
      using Cons.prems(2) that by simp
  qed
  then obtain w' where "WS_forGroups f gs ?w = Some w'"
    using Cons.IH [of ?w] Cons.prems(1) by auto
  then show ?case
    using g by simp
qed simp

lemma ws2Keys_distinct: "distinct (map fst (ws2Keys lookup keys))"
  by (simp add: ws2Keys_def std_set_def comp_def)

definition WS_locks :: "WSConcurInMemoryKVStore \<times> 'd \<Rightarrow> WSName \<Rightarrow> (nat \<Rightarrow> Mutex) option" where
  "WS_locks wd name = map_option (\<lambda>wr. segmentLocks (mKVStore wr)) (mWS2Wrapper (fst wd) name)"

definition WS_available ::
  "(KeyType \<Rightarrow> 64 word) \<Rightarrow> (KeyType \<Rightarrow> WSName) \<Rightarrow> (WSName \<Rightarrow> (nat \<Rightarrow> Mutex) option) \<Rightarrow> KeyType list \<Rightarrow> bool \<Rightarrow> bool" where
  "WS_available hash lookup lk keys x =
     (\<forall>g \<in> set (ws2Keys lookup keys). \<exists>f. lk (fst g) = Some f \<and> Concur_available hash f (snd g) x)"

definition bucketsOf :: "WSConcurInMemoryKVStore \<Rightarrow> WSName \<Rightarrow> (nat \<Rightarrow> InMemoryKVStore) option" where
  "bucketsOf w name = map_option (\<lambda>wr. getBucket (mKVStore wr)) (mWS2Wrapper w name)"

lemma sameBuckets_abs:
  assumes same: "bucketsOf w' = bucketsOf w" and v: "WS_valid lookup w"
  shows "WS_view hash lookup dview (w', d) = WS_view hash lookup dview (w, d)"
    and "WS_inv hash lookup dinv (w', d) = WS_inv hash lookup dinv (w, d)"
    and "WS_resident hash lookup (w', d) = WS_resident hash lookup (w, d)"
proof -
  have iff: "(mWS2Wrapper w' name = None) = (mWS2Wrapper w name = None)" for name
    using fun_cong [OF same, of name] unfolding bucketsOf_def by (metis map_option_is_None)
  have v': "WS_valid lookup w'"
    using v iff by (simp add: WS_valid_def)
  have eq: "getBucket (getWS w' (lookup k)) = getBucket (getWS w (lookup k))" for k
  proof -
    obtain wr wr' where "mWS2Wrapper w (lookup k) = Some wr" "mWS2Wrapper w' (lookup k) = Some wr'"
      using v v' unfolding WS_valid_def by blast
    then show ?thesis
      using fun_cong [OF same, of "lookup k"] by (simp add: bucketsOf_def getWS_def)
  qed
  show "WS_view hash lookup dview (w', d) = WS_view hash lookup dview (w, d)"
    "WS_inv hash lookup dinv (w', d) = WS_inv hash lookup dinv (w, d)"
    "WS_resident hash lookup (w', d) = WS_resident hash lookup (w, d)"
    using v v' by (simp_all add: routedView_def routedInv_def routedResident_def eq)
qed

lemma WS_forGroups_buckets:
  assumes "WS_forGroups f gs w = Some w'" and "distinct (map fst gs)"
    and "\<And>keys c st c'. f keys c = Some (st, c') \<Longrightarrow> getBucket c' = getBucket c"
  shows "bucketsOf w' = bucketsOf w"
proof
  fix name
  show "bucketsOf w' name = bucketsOf w name"
    using WS_forGroups_result [OF assms(2,1), of name] assms(3)
    by (cases "map_of gs name") (auto simp: bucketsOf_def)
qed

lemma WS_lock_ok:
  assumes "WS_available hash lookup (WS_locks (w, d)) keys x"
  shows "\<exists>w'. WS_lock hash lookup keys x w = Some (Status_ok, w') \<and> bucketsOf w' = bucketsOf w"
proof -
  let ?f = "\<lambda>keys. Concur_lock hash keys x"
  have "\<exists>wr st c. mWS2Wrapper w (fst g) = Some wr \<and> ?f (snd g) (mKVStore wr) = Some (st, c)"
    if g: "g \<in> set (ws2Keys lookup keys)" for g
  proof -
    obtain wr where "mWS2Wrapper w (fst g) = Some wr" "Concur_available hash (segmentLocks (mKVStore wr)) (snd g) x"
      using assms g by (auto simp: WS_available_def WS_locks_def)
    then show ?thesis
      using Concur_lock_ok [of hash "mKVStore wr" "snd g" x] by auto
  qed
  then obtain w' where w': "WS_forGroups ?f (ws2Keys lookup keys) w = Some w'"
    using WS_forGroups_total [OF ws2Keys_distinct, of lookup keys w ?f] by auto
  have "bucketsOf w' = bucketsOf w"
    by (rule WS_forGroups_buckets [OF w' ws2Keys_distinct]) (rule Concur_lock_buckets)
  then show ?thesis
    using w' by (simp add: WS_lock_def)
qed

lemma WS_unlock_ok:
  assumes "WS_lock hash lookup keys x w = Some (st, w1)" and eq: "WS_locks (w2, d2) = WS_locks (w1, d1)"
  shows "\<exists>w3. WS_unlock hash lookup keys x w2 = Some (Status_ok, w3) \<and> bucketsOf w3 = bucketsOf w2 \<and>
           WS_locks (w3, d3) = WS_locks (w, d)"
proof -
  let ?f = "\<lambda>keys. Concur_lock hash keys x" and ?u = "\<lambda>keys. Concur_unlock hash keys x"
  let ?gs = "ws2Keys lookup keys"
  have w1: "WS_forGroups ?f ?gs w = Some w1"
    using assms(1) by (auto simp: WS_lock_def bind_eq_Some_conv)
  note locked = WS_forGroups_result [OF ws2Keys_distinct w1]
  have group: "\<exists>wr wr2 st c. mWS2Wrapper w name = Some wr \<and> mWS2Wrapper w2 name = Some wr2 \<and>
      ?u ks (mKVStore wr2) = Some (st, c) \<and> segmentLocks c = segmentLocks (mKVStore wr)"
    if ks: "map_of ?gs name = Some ks" for name ks
  proof -
    obtain wr st c where l: "mWS2Wrapper w name = Some wr" "?f ks (mKVStore wr) = Some (st, c)"
        "mWS2Wrapper w1 name = Some (wr\<lparr>mKVStore := c\<rparr>)"
      using locked [of name] ks by auto
    then obtain wr2 where wr2: "mWS2Wrapper w2 name = Some wr2" "segmentLocks (mKVStore wr2) = segmentLocks c"
      using fun_cong [OF eq, of name] by (auto simp: WS_locks_def)
    with Concur_unlock_ok [OF l(2) wr2(2)] l(1) show ?thesis
      by auto
  qed
  have "\<exists>wr st c. mWS2Wrapper w2 (fst g) = Some wr \<and> ?u (snd g) (mKVStore wr) = Some (st, c)" if "g \<in> set ?gs" for g
    using group [of "fst g" "snd g"] that ws2Keys_distinct [of lookup keys] by auto
  then obtain w3 where w3: "WS_forGroups ?u ?gs w2 = Some w3"
    using WS_forGroups_total [OF ws2Keys_distinct, of lookup keys w2 ?u] by auto
  note unlocked = WS_forGroups_result [OF ws2Keys_distinct w3]
  have "WS_locks (w3, d3) name = WS_locks (w, d) name" for name
  proof (cases "map_of ?gs name")
    case None
    then show ?thesis
      using locked [of name] unlocked [of name] fun_cong [OF eq, of name] by (simp add: WS_locks_def)
  next
    case (Some ks)
    with group [OF Some] unlocked [of name] show ?thesis
      by (auto simp: WS_locks_def)
  qed
  moreover have "bucketsOf w3 = bucketsOf w2"
    by (rule WS_forGroups_buckets [OF w3 ws2Keys_distinct]) (rule Concur_lock_buckets)
  ultimately show ?thesis
    using w3 by (auto simp: WS_unlock_def)
qed

lemma putWS_locks:
  assumes "mWS2Wrapper w name \<noteq> None" and "segmentLocks c = segmentLocks (getWS w name)"
  shows "WS_locks (putWS w name c, d') = WS_locks (w, d)"
  using assms by (auto simp: WS_locks_def putWS_def getWS_def fun_eq_iff)

lemma onWS_locks:
  assumes "\<And>c d st c' d'. f (c, d) = Some (st, c', d') \<Longrightarrow> segmentLocks c' = segmentLocks c"
    and "onWS lookup key f s = Some (st, s')"
  shows "WS_locks s' = WS_locks s"
  using assms by (cases s) (auto simp: onWS_def Let_def bind_eq_Some_conv intro!: putWS_locks)

lemma onWSOut_locks:
  assumes "\<And>c d st out c' d'. f (c, d) = Some (st, out, c', d') \<Longrightarrow> segmentLocks c' = segmentLocks c"
    and "onWSOut lookup key f s = Some (st, out, s')"
  shows "WS_locks s' = WS_locks s"
  using assms by (cases s) (auto simp: onWSOut_def Let_def bind_eq_Some_conv intro!: putWS_locks)

lemma onBucket_segmentLocks:
  "onBucket hash key f (c, d) = Some (st, c', d') \<Longrightarrow> segmentLocks c' = segmentLocks c"
  "onBucketOut hash key g (c, d) = Some (st, out, c', d') \<Longrightarrow> segmentLocks c' = segmentLocks c"
  using onBucket_locks(1) [of hash key f "(c, d)" st "(c', d')"]
    onBucket_locks(2) [of hash key g "(c, d)" st out "(c', d')"] by (simp_all add: Concur_locks_def)

text \<open>Over a source, the store of working sets is a locking cache.\<close>

sublocale kv_source \<subseteq> ws_locking: kv_locking_cache "WSConcur_ops hash lookup D" "WS_inv hash lookup dinv"
  "WS_view hash lookup dview" "\<lambda>_ _ _ _ _ _. True" "WS_resident hash lookup" WS_locks "WS_available hash lookup"
  for hash lookup
proof (unfold_locales, goal_cases)
  case (1 k v ver ut um s st s')
  then show ?case
    unfolding WSConcur_ops_sel Concur_ops_sel by (rule onWS_locks [rotated]) (rule onBucket_segmentLocks)
next
  case (2 k v ver t dl ut um s st s')
  then show ?case
    unfolding WSConcur_ops_sel Concur_ops_sel by (rule onWS_locks [rotated]) (rule onBucket_segmentLocks)
next
  case (3 k recVer ver s st s')
  then show ?case
    unfolding WSConcur_ops_sel Concur_ops_sel by (rule onWS_locks [rotated]) (rule onBucket_segmentLocks)
next
  case (4 now k out s st out' s')
  then show ?case
    unfolding WSConcur_ops_sel Concur_ops_sel by (rule onWSOut_locks [rotated]) (rule onBucket_segmentLocks)
next
  case (5 s keys x)
  obtain w d where s: "s = (w, d)"
    by (cases s)
  have v: "WS_valid lookup w"
    using 5(1) by (simp add: s routedInv_def)
  from 5(2) WS_lock_ok [of hash lookup w d keys x] obtain w' where
    w': "WS_lock hash lookup keys x w = Some (Status_ok, w')" "bucketsOf w' = bucketsOf w"
    by (auto simp: s)
  with 5 show ?case
    by (simp add: s onFst_def sameBuckets_abs [OF w'(2) v])
next
  case (6 keys x s s1 s2)
  obtain w d w1 d1 w2 d2 where s: "s = (w, d)" "s1 = (w1, d1)" "s2 = (w2, d2)"
    by (cases s; cases s1; cases s2)
  have v: "WS_valid lookup w2"
    using 6(3) by (simp add: s routedInv_def)
  have "WS_lock hash lookup keys x w = Some (Status_ok, w1)" "WS_locks (w2, d2) = WS_locks (w1, d1)"
    using 6 by (auto simp: s onFst_def bind_eq_Some_conv)
  from WS_unlock_ok [OF this, of d2 d] obtain w3 where
    w3: "WS_unlock hash lookup keys x w2 = Some (Status_ok, w3)" "bucketsOf w3 = bucketsOf w2"
      "WS_locks (w3, d2) = WS_locks (w, d)"
    by blast
  with 6 show ?case
    by (simp add: s onFst_def sameBuckets_abs [OF w3(2) v])
qed

section \<open>Probes\<close>

context kv_source
begin

lemma WS_probes:
  assumes "probes (InMem_inv dinv) (InMem_view dview) InMem_resident k Q g" and "WS_inv hash lookup dinv s"
  shows "\<exists>st out s'. onWSOut lookup k (onBucketOut hash k g) s = Some (st, out, s') \<and> WS_inv hash lookup dinv s' \<and>
      WS_view hash lookup dview s' = WS_view hash lookup dview s \<and> WS_resident hash lookup s' = WS_resident hash lookup s \<and>
      WS_locks s' = WS_locks s \<and> Q (WS_view hash lookup dview s k) (WS_resident hash lookup s k) st out"
proof -
  have "probes (Concur_inv hash dinv) (Concur_view hash dview) (Concur_resident hash) k Q (onBucketOut hash k g)"
    by (rule concur.routed_probes [OF assms(1)]) (rule onBucket_eq)
  then have ws: "probes (WS_inv hash lookup dinv) (WS_view hash lookup dview) (WS_resident hash lookup) k Q
      (onWSOut lookup k (onBucketOut hash k g))"
    by (rule ws.routed_probes) (rule onWS_eq)
  obtain w d where s: "s = (w, d)"
    by (cases s)
  from ws assms(2) obtain st out w' where
    w': "onWSOut lookup k (onBucketOut hash k g) s = Some (st, out, (w', d))" "WS_inv hash lookup dinv (w', d)"
      "WS_view hash lookup dview (w', d) = WS_view hash lookup dview s"
      "WS_resident hash lookup (w', d) = WS_resident hash lookup s"
      "Q (WS_view hash lookup dview s k) (WS_resident hash lookup s k) st out"
    unfolding probes_def s by blast
  have "WS_locks (w', d) = WS_locks s"
    by (rule onWSOut_locks [OF _ w'(1)]) (rule onBucket_segmentLocks)
  with w' show ?thesis
    by (intro exI conjI)
qed

end

text \<open>Over a source, the store of working sets is what the commands need.\<close>

sublocale kv_source \<subseteq> ws_commands: kv_command_store "WSConcur_ops hash lookup D" "WS_inv hash lookup dinv"
  "WS_view hash lookup dview" "\<lambda>_ _ _ _ _ _. True" "WS_resident hash lookup" WS_locks "WS_available hash lookup"
  for hash lookup
proof (unfold_locales, goal_cases)
  case (1 keys x s st s')
  obtain w d w' d' where s: "s = (w, d)" "s' = (w', d')"
    by (cases s; cases s')
  have l: "WS_forGroups (\<lambda>keys. Concur_lock hash keys x) (ws2Keys lookup keys) w = Some w'" "st = Status_ok" "d' = d"
    using 1(1) by (auto simp: s onFst_def WS_lock_def bind_eq_Some_conv)
  have b: "bucketsOf w' = bucketsOf w"
    by (rule WS_forGroups_buckets [OF l(1) ws2Keys_distinct]) (rule Concur_lock_buckets)
  have v: "WS_valid lookup w"
    using 1(2) by (simp add: s routedInv_def)
  show ?case
    using 1(2) unfolding s l(2,3) sameBuckets_abs [OF b v] by (intro conjI refl)
next
  case (2 k ver t dl ut um)
  show ?case ..
next
  case (3 s k recVer ver)
  obtain w d where s: "s = (w, d)"
    by (cases s)
  from ws.routed_deleteKV_any [OF 3 [unfolded s], of k recVer ver] show ?case
    unfolding s by blast
next
  case (4 s k meta)
  show ?case
    unfolding WSConcur_ops_sel Concur_ops_sel InMemory_ops_sel
    by (rule WS_probes [OF InMem_readMeta_probes 4, unfolded metaMatches_def])
next
  case (5 s now k out)
  show ?case
    unfolding WSConcur_ops_sel Concur_ops_sel InMemory_ops_sel
    by (rule WS_probes [OF InMem_proxy_probes(1) 5, unfolded answered_def])
next
  case (6 s k meta)
  from WS_probes [OF InMem_proxy_probes(2) [of k meta] 6] show ?case
    unfolding WSConcur_ops_sel Concur_ops_sel InMemory_ops_sel
    by (elim exE conjE) (intro exI conjI)
qed

section \<open>Eviction\<close>

text \<open>The entry the cache itself holds for a key.\<close>

definition WS_cached :: "(KeyType \<Rightarrow> 64 word) \<Rightarrow> (KeyType \<Rightarrow> WSName) \<Rightarrow> WSConcurInMemoryKVStore \<Rightarrow> KeyType \<Rightarrow> CachedValue option" where
  "WS_cached hash lookup w k = mData (getBucket (getWS w (lookup k)) (calculateSegmentIndex hash k)) k"

lemma WS_put_step:
  assumes inv: "WS_inv hash lookup dinv (w, d)"
    and c: "Concur_inv hash dinv (c, d)" "Concur_view hash dview (c, d) = Concur_view hash dview (getWS w (lookup k), d)"
  shows "WS_inv hash lookup dinv (putWS w (lookup k) c, d)"
    and "WS_view hash lookup dview (putWS w (lookup k) c, d) = WS_view hash lookup dview (w, d)"
proof -
  show "WS_inv hash lookup dinv (putWS w (lookup k) c, d)"
    using inv c(1) WS_valid_putWS [of lookup w] unfolding routedInv_def [where get = getWS] by (simp add: getWS_putWS)
  show "WS_view hash lookup dview (putWS w (lookup k) c, d) = WS_view hash lookup dview (w, d)"
    using c(2) unfolding routedView_def [where get = getWS] by (intro ext) (simp add: getWS_putWS)
qed

context kv_source
begin

lemma WS_evictOne_view:
  assumes inv: "WS_inv hash lookup dinv (w, d)" and cov: "covered now g (dview d) k (WS_cached hash lookup w k)"
  shows "\<exists>w'. onWS lookup k (Concur_evictKV hash D now [k] g) (w, d) = Some (Status_ok, w', d) \<and>
           WS_inv hash lookup dinv (w', d) \<and> WS_view hash lookup dview (w', d) = WS_view hash lookup dview (w, d) \<and>
           (\<forall>k'. WS_cached hash lookup w' k' = WS_cached hash lookup w k' \<or> WS_cached hash lookup w' k' = None)"
proof -
  have v: "WS_valid lookup w" and c: "Concur_inv hash dinv (getWS w (lookup k), d)"
    using inv unfolding routedInv_def [where get = getWS] by auto
  from Concur_evictOne_view [OF c cov [unfolded WS_cached_def]] obtain c' where c':
    "Concur_evictKV hash D now [k] g (getWS w (lookup k), d) = Some (Status_ok, c', d)" "Concur_inv hash dinv (c', d)"
    "Concur_view hash dview (c', d) = Concur_view hash dview (getWS w (lookup k), d)"
    "\<forall>i k'. mData (getBucket c' i) k' = mData (getBucket (getWS w (lookup k)) i) k' \<or> mData (getBucket c' i) k' = None"
    by blast
  have "onWS lookup k (Concur_evictKV hash D now [k] g) (w, d) = Some (Status_ok, putWS w (lookup k) c', d)"
    by (simp add: onWS_eq [OF v] c'(1))
  moreover have "\<forall>k'. WS_cached hash lookup (putWS w (lookup k) c') k' = WS_cached hash lookup w k' \<or>
      WS_cached hash lookup (putWS w (lookup k) c') k' = None"
    using c'(4) by (simp add: WS_cached_def getWS_putWS)
  ultimately show ?thesis
    using WS_put_step [OF inv c'(2,3)] by blast
qed

lemma WS_evictKV_view:
  assumes "WS_inv hash lookup dinv (w, d)"
    and "\<forall>k \<in> set keys. covered now g (dview d) k (WS_cached hash lookup w k)"
  shows "\<exists>w'. WS_evictKV hash lookup D now keys g (w, d) = Some (Status_ok, w', d) \<and>
           WS_inv hash lookup dinv (w', d) \<and> WS_view hash lookup dview (w', d) = WS_view hash lookup dview (w, d)"
proof -
  have "\<exists>w'. WS_evictLoop hash lookup D now g keys (w, d) = Some (w', d) \<and>
           WS_inv hash lookup dinv (w', d) \<and> WS_view hash lookup dview (w', d) = WS_view hash lookup dview (w, d)"
    using assms
  proof (induction keys arbitrary: w)
    case (Cons k keys)
    then obtain w1 where w1: "onWS lookup k (Concur_evictKV hash D now [k] g) (w, d) = Some (Status_ok, w1, d)"
        "WS_inv hash lookup dinv (w1, d)" "WS_view hash lookup dview (w1, d) = WS_view hash lookup dview (w, d)"
        "\<forall>k'. WS_cached hash lookup w1 k' = WS_cached hash lookup w k' \<or> WS_cached hash lookup w1 k' = None"
      using WS_evictOne_view [of hash lookup w d now g k] by auto
    have "covered now g (dview d) k' (WS_cached hash lookup w1 k')" if k': "k' \<in> set keys" for k'
      using Cons.prems(2) k' w1(4) [rule_format, of k'] by (auto simp: covered_def)
    with Cons.IH [OF w1(2)] w1(1,3) show ?case
      by simp
  qed simp
  then show ?thesis
    by (auto simp: WS_evictKV_def)
qed

end

end
