(* ===== verification/Events.thy ===== *)
theory Events
  imports KV_Store Version_Store
begin

text \<open>
  \<^verbatim>\<open>kv-engine/model/Event\<close>: what a command produces. Write, delete and import events carry
  the version the leader allocates; read events carry what was read. Events are turned into the
  bundle that is replicated and back, and are applied to a store one by one. The contract
  \<open>kv_sink\<close> gives the meaning of applying a list of events to any store.
\<close>

datatype EventType = READ | WRITE | DELETE | APPEND | IMPORT

record WriteEvent =
  we_key :: KeyType
  we_value :: ValueType
  we_version :: VersionType
  we_enableTTL :: bool
  we_ttl :: TTLType
  we_deadline :: TimeType
  we_updateTime :: TimeType
  we_udfMeta :: UserDefinedMeta
  we_isNoOp :: bool

record ReadEvent =
  re_key :: KeyType
  re_value :: ValueType
  re_ttl :: TTLType
  re_version :: VersionType
  re_isNotFound :: bool
  re_updateTime :: TimeType
  re_udfMeta :: UserDefinedMeta

record DeleteEvent =
  de_key :: KeyType
  de_deletedValue :: ValueType
  de_deletedVersion :: VersionType
  de_version :: VersionType

datatype Event =
    EvWrite WriteEvent
  | EvRead ReadEvent
  | EvDelete DeleteEvent
  | EvImport WriteEvent VersionType

fun getType :: "Event \<Rightarrow> EventType" where
  "getType (EvWrite _) = WRITE"
| "getType (EvRead _) = READ"
| "getType (EvDelete _) = DELETE"
| "getType (EvImport _ _) = IMPORT"

text \<open>The constructors the commands call.\<close>

definition newWriteEvent ::
  "KeyType \<Rightarrow> ValueType \<Rightarrow> bool \<Rightarrow> TTLType \<Rightarrow> TimeType \<Rightarrow> TimeType \<Rightarrow> UserDefinedMeta \<Rightarrow> bool \<Rightarrow> WriteEvent" where
  "newWriteEvent key v enableTTL t dl ut um isNoOp =
     \<lparr>we_key = key, we_value = v, we_version = kInvalidVersion, we_enableTTL = enableTTL, we_ttl = t,
      we_deadline = dl, we_updateTime = ut, we_udfMeta = um, we_isNoOp = isNoOp\<rparr>"

definition newReadEvent :: "KeyType \<Rightarrow> ReadOut \<Rightarrow> bool \<Rightarrow> Event" where
  "newReadEvent key out notFound =
     EvRead \<lparr>re_key = key, re_value = outValue out, re_ttl = outTTL out, re_version = outVersion out,
       re_isNotFound = notFound, re_updateTime = NOT_UPDATED, re_udfMeta = DEFAULT_UDFMETA\<rparr>"

definition newReadMetaEvent :: "KeyType \<Rightarrow> ReadOut \<Rightarrow> bool \<Rightarrow> TimeType \<Rightarrow> UserDefinedMeta \<Rightarrow> Event" where
  "newReadMetaEvent key out notFound ut um =
     EvRead \<lparr>re_key = key, re_value = outValue out, re_ttl = outTTL out, re_version = outVersion out,
       re_isNotFound = notFound, re_updateTime = ut, re_udfMeta = um\<rparr>"

definition newDeleteEvent :: "KeyType \<Rightarrow> ValueType \<Rightarrow> VersionType \<Rightarrow> Event" where
  "newDeleteEvent key v ver =
     EvDelete \<lparr>de_key = key, de_deletedValue = v, de_deletedVersion = ver, de_version = kInvalidVersion\<rparr>"

fun isNoOP :: "Event \<Rightarrow> bool" where
  "isNoOP (EvWrite w) = we_isNoOp w"
| "isNoOP _ = False"

text \<open>\<^verbatim>\<open>assignVersion\<close>: only an event that has no version yet may get one.\<close>

definition assignVersionW :: "VersionType \<Rightarrow> WriteEvent \<Rightarrow> WriteEvent option" where
  "assignVersionW ver w = do {
     assert (we_version w = kInvalidVersion);
     Some (w\<lparr>we_version := ver\<rparr>)
   }"

fun assignVersion :: "VersionType \<Rightarrow> Event \<Rightarrow> Event option" where
  "assignVersion ver (EvWrite w) = map_option EvWrite (assignVersionW ver w)"
| "assignVersion ver (EvRead r) = Some (EvRead r)"
| "assignVersion ver (EvDelete d) = do {
     assert (de_version d = kInvalidVersion);
     Some (EvDelete (d\<lparr>de_version := ver\<rparr>))
   }"
| "assignVersion ver (EvImport w imported) = map_option (\<lambda>w'. EvImport w' imported) (assignVersionW ver w)"

primrec assignVersions :: "VersionType \<Rightarrow> Event list \<Rightarrow> Event list option" where
  "assignVersions ver [] = Some []"
| "assignVersions ver (e # es) = do {
     e' \<leftarrow> assignVersion ver e;
     es' \<leftarrow> assignVersions ver es;
     Some (e' # es')
   }"

section \<open>Bundles\<close>

text \<open>The messages of \<^verbatim>\<open>model.proto\<close>.\<close>

record ProtoWriteEvent =
  pw_key :: KeyType
  pw_value :: ValueType
  pw_version :: VersionType
  pw_enableTTL :: bool
  pw_ttl :: TTLType
  pw_deadline :: TimeType
  pw_updateTime :: TimeType
  pw_isNoOp :: bool
  pw_udfMeta :: "UserDefinedMeta option"

record ProtoDeleteEvent =
  pd_key :: KeyType
  pd_deletedValue :: ValueType
  pd_deletedVersion :: VersionType
  pd_version :: VersionType

datatype ProtoEvent =
    PWrite ProtoWriteEvent
  | PDelete ProtoDeleteEvent
  | PAppend
  | PUnset

definition WriteEvent_toProto :: "WriteEvent \<Rightarrow> ProtoEvent" where
  "WriteEvent_toProto w = PWrite \<lparr>pw_key = we_key w, pw_value = we_value w, pw_version = we_version w,
     pw_enableTTL = we_enableTTL w, pw_ttl = we_ttl w, pw_deadline = we_deadline w,
     pw_updateTime = we_updateTime w, pw_isNoOp = we_isNoOp w,
     pw_udfMeta = (if uintfield (we_udfMeta w) = [] \<and> strfield (we_udfMeta w) = [] then None
                   else Some (we_udfMeta w))\<rparr>"

fun toProtoEvent :: "Event \<Rightarrow> ProtoEvent option" where
  "toProtoEvent (EvWrite w) = Some (WriteEvent_toProto w)"
| "toProtoEvent (EvRead _) = None"
| "toProtoEvent (EvDelete d) = Some (PDelete \<lparr>pd_key = de_key d, pd_deletedValue = [],
     pd_deletedVersion = de_deletedVersion d, pd_version = de_version d\<rparr>)"
| "toProtoEvent (EvImport w _) = Some (WriteEvent_toProto w)"

primrec toBundle :: "Event list \<Rightarrow> ProtoEvent list option" where
  "toBundle [] = Some []"
| "toBundle (e # es) = do { p \<leftarrow> toProtoEvent e; ps \<leftarrow> toBundle es; Some (p # ps) }"

definition WriteEvent_fromProto :: "ProtoWriteEvent \<Rightarrow> WriteEvent" where
  "WriteEvent_fromProto p = \<lparr>we_key = pw_key p, we_value = pw_value p, we_version = pw_version p,
     we_enableTTL = pw_enableTTL p, we_ttl = pw_ttl p, we_deadline = pw_deadline p,
     we_updateTime = pw_updateTime p,
     we_udfMeta = (case pw_udfMeta p of None \<Rightarrow> DEFAULT_UDFMETA | Some um \<Rightarrow> um),
     we_isNoOp = pw_isNoOp p\<rparr>"

fun fromProtoEvent :: "ProtoEvent \<Rightarrow> Event option" where
  "fromProtoEvent (PWrite p) = Some (EvWrite (WriteEvent_fromProto p))"
| "fromProtoEvent (PDelete p) = Some (EvDelete \<lparr>de_key = pd_key p, de_deletedValue = pd_deletedValue p,
     de_deletedVersion = pd_deletedVersion p, de_version = pd_version p\<rparr>)"
| "fromProtoEvent _ = None"

primrec fromBundle :: "ProtoEvent list \<Rightarrow> Event list option" where
  "fromBundle [] = Some []"
| "fromBundle (p # ps) = do { e \<leftarrow> fromProtoEvent p; es \<leftarrow> fromBundle ps; Some (e # es) }"

definition getVersionFromBundle :: "ProtoEvent list \<Rightarrow> VersionType option" where
  "getVersionFromBundle bundle = (case bundle of
      [] \<Rightarrow> None
    | e # _ \<Rightarrow> (case e of
          PWrite p \<Rightarrow> Some (pw_version p)
        | PDelete p \<Rightarrow> Some (pd_version p)
        | _ \<Rightarrow> None))"

section \<open>Applying events\<close>

definition WriteEvent_apply :: "'s KVStore \<Rightarrow> WriteEvent \<Rightarrow> 's \<Rightarrow> (Status \<times> 's) option" where
  "WriteEvent_apply K w s =
     (if we_isNoOp w then Some (Status_ok, s)
      else if we_enableTTL w then
        kv_writeTTLKV K (we_key w) (we_value w) (we_version w) (we_ttl w) (we_deadline w)
          (we_updateTime w) (we_udfMeta w) s
      else kv_writeKV K (we_key w) (we_value w) (we_version w) (we_updateTime w) (we_udfMeta w) s)"

fun apply_event :: "'s KVStore \<Rightarrow> Event \<Rightarrow> 's \<Rightarrow> (Status \<times> 's) option" where
  "apply_event K (EvWrite w) s = WriteEvent_apply K w s"
| "apply_event K (EvRead _) s = Some (Status_ok, s)"
| "apply_event K (EvDelete d) s = do {
     (st, s') \<leftarrow> kv_deleteKV K (de_key d) (de_version d) (de_deletedVersion d) s;
     Some (Status_ok, s')
   }"
| "apply_event K (EvImport w _) s = WriteEvent_apply K w s"

text \<open>The loop every command's \<^verbatim>\<open>finish\<close> runs: stop at the first event that fails.\<close>

primrec apply_events :: "'s KVStore \<Rightarrow> Event list \<Rightarrow> 's \<Rightarrow> (Status \<times> 's) option" where
  "apply_events K [] s = Some (Status_ok, s)"
| "apply_events K (e # es) s = do {
     (st, s') \<leftarrow> apply_event K e s;
     if isOK st then apply_events K es s' else Some (st, s')
   }"

section \<open>What events do to a view\<close>

definition write_view :: "WriteEvent \<Rightarrow> View \<Rightarrow> View" where
  "write_view w f =
     (if we_isNoOp w then f
      else if we_enableTTL w then f(we_key w \<mapsto> (we_value w, we_version w, we_ttl w, we_deadline w))
      else f(we_key w \<mapsto> (we_value w, we_version w, INFINITE_TTL, NEVER_EXPIRE)))"

fun event_view :: "Event \<Rightarrow> View \<Rightarrow> View" where
  "event_view (EvWrite w) f = write_view w f"
| "event_view (EvRead _) f = f"
| "event_view (EvDelete d) f = f(de_key d := None)"
| "event_view (EvImport w _) f = write_view w f"

primrec events_view :: "Event list \<Rightarrow> View \<Rightarrow> View" where
  "events_view [] f = f"
| "events_view (e # es) f = events_view es (event_view e f)"

text \<open>What a write needs of the store, and which keys the store must hold when they are deleted.\<close>

definition write_storable ::
  "(KeyType \<Rightarrow> VersionType \<Rightarrow> TTLType \<Rightarrow> TimeType \<Rightarrow> TimeType \<Rightarrow> UserDefinedMeta \<Rightarrow> bool) \<Rightarrow> WriteEvent \<Rightarrow> bool" where
  "write_storable st w = (we_isNoOp w \<or>
     (if we_enableTTL w then st (we_key w) (we_version w) (we_ttl w) (we_deadline w) (we_updateTime w) (we_udfMeta w)
      else st (we_key w) (we_version w) INFINITE_TTL NEVER_EXPIRE (we_updateTime w) (we_udfMeta w)))"

fun event_storable ::
  "(KeyType \<Rightarrow> VersionType \<Rightarrow> TTLType \<Rightarrow> TimeType \<Rightarrow> TimeType \<Rightarrow> UserDefinedMeta \<Rightarrow> bool) \<Rightarrow> Event \<Rightarrow> bool" where
  "event_storable st (EvWrite w) = write_storable st w"
| "event_storable st (EvImport w _) = write_storable st w"
| "event_storable st _ = True"

fun delete_resident :: "(KeyType \<Rightarrow> bool) \<Rightarrow> Event \<Rightarrow> bool" where
  "delete_resident r (EvDelete d) = r (de_key d)"
| "delete_resident r _ = True"

fun resident_after :: "Event \<Rightarrow> (KeyType \<Rightarrow> bool) \<Rightarrow> KeyType \<Rightarrow> bool" where
  "resident_after (EvWrite w) r = (if we_isNoOp w then r else r(we_key w := True))"
| "resident_after (EvRead _) r = r"
| "resident_after (EvDelete d) r = r(de_key d := False)"
| "resident_after (EvImport w _) r = (if we_isNoOp w then r else r(we_key w := True))"

primrec deletes_resident :: "(KeyType \<Rightarrow> bool) \<Rightarrow> Event list \<Rightarrow> bool" where
  "deletes_resident r [] = True"
| "deletes_resident r (e # es) = (delete_resident r e \<and> deletes_resident (resident_after e r) es)"

lemma resident_after_mono: "r \<le> r' \<Longrightarrow> resident_after e r \<le> resident_after e r'"
  by (cases e) (simp_all add: le_fun_def)

lemma delete_resident_mono: "r \<le> r' \<Longrightarrow> delete_resident r e \<Longrightarrow> delete_resident r' e"
  by (cases e) (simp_all add: le_fun_def)

lemma deletes_resident_mono: "r \<le> r' \<Longrightarrow> deletes_resident r es \<Longrightarrow> deletes_resident r' es"
proof (induction es arbitrary: r r')
  case (Cons e es)
  from Cons.IH [OF resident_after_mono [OF Cons.prems(1)]] Cons.prems(2) delete_resident_mono [OF Cons.prems(1)]
  show ?case
    by simp
qed simp

context kv_sink
begin

lemma WriteEvent_apply_law:
  assumes "inv s" and "write_storable storable w"
  shows "\<exists>s'. WriteEvent_apply K w s = Some (Status_ok, s') \<and> inv s' \<and> view s' = write_view w (view s) \<and>
           resident s' = (if we_isNoOp w then resident s else (resident s)(we_key w := True))"
proof (cases "we_isNoOp w")
  case False
  then show ?thesis
    using assms writeKV_law [of s "we_key w" "we_version w" "we_updateTime w" "we_udfMeta w" "we_value w"]
      writeTTLKV_law [of s "we_key w" "we_version w" "we_ttl w" "we_deadline w" "we_updateTime w" "we_udfMeta w" "we_value w"]
    by (cases "we_enableTTL w") (simp_all add: WriteEvent_apply_def write_view_def write_storable_def)
qed (use assms in \<open>simp add: WriteEvent_apply_def write_view_def\<close>)

lemma apply_event_law:
  assumes "inv s" and "event_storable storable e" and "delete_resident (resident s) e"
  shows "\<exists>s'. apply_event K e s = Some (Status_ok, s') \<and> inv s' \<and> view s' = event_view e (view s) \<and>
           resident_after e (resident s) \<le> resident s'"
proof (cases e)
  case (EvDelete d)
  with assms have res: "resident s (de_key d)"
    by simp
  from deleteKV_law [OF assms(1) res] obtain s1 where s1:
    "kv_deleteKV K (de_key d) (de_version d) (de_deletedVersion d) s = Some (Status_ok, s1)" "inv s1"
    "view s1 = (view s)(de_key d := None)" "\<forall>k'. k' \<noteq> de_key d \<longrightarrow> resident s1 k' = resident s k'"
    by blast
  then show ?thesis
    using EvDelete by (simp add: le_fun_def)
next
  case (EvWrite w)
  with WriteEvent_apply_law [of s w] assms show ?thesis
    by auto
next
  case (EvImport w i)
  with WriteEvent_apply_law [of s w] assms show ?thesis
    by auto
next
  case (EvRead r)
  with assms show ?thesis
    by simp
qed

lemma apply_events_law:
  assumes "inv s" and "\<forall>e \<in> set es. event_storable storable e" and "deletes_resident (resident s) es"
  shows "\<exists>s'. apply_events K es s = Some (Status_ok, s') \<and> inv s' \<and> view s' = events_view es (view s)"
  using assms
proof (induction es arbitrary: s)
  case (Cons e es)
  with apply_event_law [of s e] obtain s1 where s1:
    "apply_event K e s = Some (Status_ok, s1)" "inv s1" "view s1 = event_view e (view s)"
    "resident_after e (resident s) \<le> resident s1"
    by auto
  have "deletes_resident (resident s1) es"
    using deletes_resident_mono [OF s1(4)] Cons.prems(3) by simp
  with Cons.IH [of s1] Cons.prems s1 show ?case
    by simp
qed simp

text \<open>A store that can delete any key applies any storable events.\<close>

lemma apply_events_all:
  assumes "inv s" and "\<forall>e \<in> set es. event_storable storable e" and all: "\<And>s k. resident s k"
  shows "\<exists>s'. apply_events K es s = Some (Status_ok, s') \<and> inv s' \<and> view s' = events_view es (view s)"
  using assms(1,2)
proof (induction es arbitrary: s)
  case (Cons e es)
  have "delete_resident (resident s) e"
    using all by (cases e) auto
  with apply_event_law [of s e] Cons.prems obtain s1 where
    "apply_event K e s = Some (Status_ok, s1)" "inv s1" "view s1 = event_view e (view s)"
    by auto
  with Cons.IH [of s1] Cons.prems show ?case
    by simp
qed simp

end

section \<open>Replication\<close>

text \<open>What a replica sees of an event: a delete loses the value it returned to the client, an import
  arrives as a write.\<close>

fun replicated :: "Event \<Rightarrow> Event" where
  "replicated (EvDelete d) = EvDelete (d\<lparr>de_deletedValue := []\<rparr>)"
| "replicated (EvImport w _) = EvWrite w"
| "replicated e = e"

lemma WriteEvent_roundtrip:
  "\<exists>p. WriteEvent_toProto w = PWrite p \<and> WriteEvent_fromProto p = w"
  by (cases w; cases "we_udfMeta w") (auto simp: WriteEvent_toProto_def WriteEvent_fromProto_def DEFAULT_UDFMETA_def)

lemma event_roundtrip:
  "getType e \<noteq> READ \<Longrightarrow> \<exists>p. toProtoEvent e = Some p \<and> fromProtoEvent p = Some (replicated e)"
proof (induction e)
  case (EvWrite w)
  then show ?case
    using WriteEvent_roundtrip [of w] by auto
next
  case (EvImport w i)
  then show ?case
    using WriteEvent_roundtrip [of w] by auto
qed simp_all

lemma bundle_roundtrip:
  "\<forall>e \<in> set es. getType e \<noteq> READ \<Longrightarrow>
   \<exists>b. toBundle es = Some b \<and> fromBundle b = Some (map replicated es) \<and> length b = length es"
proof (induction es)
  case (Cons e es)
  then obtain p b where "toProtoEvent e = Some p" "fromProtoEvent p = Some (replicated e)"
      "toBundle es = Some b" "fromBundle b = Some (map replicated es)" "length b = length es"
    using event_roundtrip [of e] by auto
  then show ?case
    by simp
qed simp

lemma replicated_view [simp]: "event_view (replicated e) = event_view e"
  by (cases e) (auto simp: fun_eq_iff)

lemma replicated_apply: "apply_event K (replicated e) = apply_event K e"
  by (cases e) (auto simp: fun_eq_iff)

lemma events_view_replicated [simp]: "events_view (map replicated es) f = events_view es f"
  by (induction es arbitrary: f) auto

lemma events_view_append: "events_view (es @ es') f = events_view es' (events_view es f)"
  by (induction es arbitrary: f) auto

end
