(* ===== verification/Store_Stack.thy ===== *)
theory Store_Stack
  imports RocksDB_Store WS_Store Events
begin

text \<open>
  The stack of stores a leader runs on: a \<^verbatim>\<open>WSConcurInMemoryKVStore\<close> over a read-only view
  of the replica's \<^verbatim>\<open>RocksDBKVStore\<close>. The read-only view is a source, so the contracts
  proved over a source hold of the real stack.
\<close>

interpretation rocks_ro: kv_source "ReadOnlyKVStore (RocksDB_ops L)" "Rocks_inv L" "Rocks_committed L"
  for L
proof (unfold_locales, goal_cases)
  case (1 d k v ver t dl now out)
  then show ?case
    by (cases out) (simp add: Rocks_readKV_eq visible_def)
next
  case (2 d now k out)
  then show ?case
    by (auto simp: Rocks_readKV_eq visible_def split: option.splits)
next
  case (3 d k meta)
  then obtain cf where "findCFHandle k None d = Some cf"
    by (auto simp: Rocks_inv_def)
  then show ?case
    by (auto simp: Rocks_readMeta_def split: GetResult.split prod.split)
qed

text \<open>The leader's stack, its invariant and what it shows.\<close>

abbreviation leaderStack where
  "leaderStack hash lookup L \<equiv> WSConcur_ops hash lookup (ReadOnlyKVStore (RocksDB_ops L))"

abbreviation leaderInv where
  "leaderInv hash lookup L \<equiv> WS_inv hash lookup (Rocks_inv L)"

abbreviation leaderView where
  "leaderView hash lookup L \<equiv> WS_view hash lookup (Rocks_committed L)"

end
