(* ===== verification/Reference_Lib.thy ===== *)
theory Reference_Lib
  imports Store_Stack
begin

text \<open>
  A concrete instance of the library record of \<^verbatim>\<open>RocksDB_Store\<close>: a database that is a map,
  and serialisers that print a message as a list of decimal numbers. It shows that what the
  development asks of RocksDB and of protobuf can be had, and the witnesses run on it.
\<close>

definition enc_nats :: "nat list \<Rightarrow> string" where
  "enc_nats ns = concat (map (\<lambda>n. to_string n @ '';'') ns)"

function dec_nats :: "string \<Rightarrow> nat list" where
  "dec_nats s = (if s = [] then [] else decimal (takeWhile is_digit s) # dec_nats (tl (dropWhile is_digit s)))"
  by auto
termination
proof (relation "measure length", simp_all)
  fix s :: string
  assume "s \<noteq> []"
  then show "length (dropWhile is_digit s) - Suc 0 < length s"
    using length_dropWhile_le [of is_digit s] by (cases s) (auto simp: le_imp_less_Suc diff_less_Suc)
qed

declare dec_nats.simps [simp del]

lemma takeWhile_to_string: "takeWhile is_digit (to_string n @ CHR '';'' # s) = to_string n"
  and dropWhile_to_string: "dropWhile is_digit (to_string n @ CHR '';'' # s) = CHR '';'' # s"
  using to_string_digits [of n] by (simp_all add: takeWhile_append2 dropWhile_append2 is_digit_def)

lemma dec_enc_nats [simp]: "dec_nats (enc_nats ns) = ns"
proof (induction ns)
  case Nil
  show ?case
    by (simp add: enc_nats_def dec_nats.simps)
next
  case (Cons n ns)
  have "enc_nats (n # ns) = to_string n @ CHR '';'' # enc_nats ns"
    by (simp add: enc_nats_def)
  then show ?case
    by (subst dec_nats.simps) (simp add: takeWhile_to_string dropWhile_to_string Cons)
qed

definition str_nats :: "string \<Rightarrow> nat list" where
  "str_nats s = length s # map of_char s"

function dec_strs :: "nat list \<Rightarrow> string list" where
  "dec_strs ns = (case ns of [] \<Rightarrow> [] | n # ns' \<Rightarrow> map char_of (take n ns') # dec_strs (drop n ns'))"
  by auto
termination
  by (relation "measure length") auto

declare dec_strs.simps [simp del]

lemma dec_strs_enc [simp]: "dec_strs (concat (map str_nats ss)) = ss"
proof (induction ss)
  case (Cons s ss)
  then show ?case
    by (subst dec_strs.simps) (simp add: str_nats_def [of s] comp_def)
qed (simp add: dec_strs.simps)

definition refSerMeta :: "Meta \<Rightarrow> string" where
  "refSerMeta m = enc_nats (
     [case meta_dataType m of NORMAL \<Rightarrow> 0 | NORMAL_WITH_TTL \<Rightarrow> 1 | OTHERS \<Rightarrow> 2,
      unat (meta_version m), unat (meta_ttl m), unat (meta_deadline m),
      case meta_opType m of SINGLE \<Rightarrow> 0 | SET_ADD \<Rightarrow> 1 | SET_REMOVE \<Rightarrow> 2,
      unat (meta_updateTime m)] @
     (case meta_udfMeta m of None \<Rightarrow> []
      | Some u \<Rightarrow> length (uintfield u) # map unat (uintfield u) @ concat (map str_nats (strfield u))))"

definition refParseMeta :: "string \<Rightarrow> int \<Rightarrow> Meta option" where
  "refParseMeta s len =
     (if len < 0 then None else case dec_nats (take (nat len) s) of
        a # b # c # d # e # f # rest \<Rightarrow> Some
          \<lparr>meta_dataType = (if a = 0 then NORMAL else if a = 1 then NORMAL_WITH_TTL else OTHERS),
           meta_version = of_nat b, meta_ttl = of_nat c, meta_deadline = of_nat d,
           meta_opType = (if e = 0 then SINGLE else if e = 1 then SET_ADD else SET_REMOVE),
           meta_updateTime = of_nat f,
           meta_udfMeta = (case rest of [] \<Rightarrow> None
             | n # us \<Rightarrow> Some \<lparr>uintfield = map of_nat (take n us), strfield = dec_strs (drop n us)\<rparr>)\<rparr>
      | _ \<Rightarrow> None)"

definition refSerData :: "Data \<Rightarrow> string" where
  "refSerData d = (case d of DataUnset \<Rightarrow> [] | SingleValue v \<Rightarrow> CHR ''s'' # v | MultiValue _ \<Rightarrow> ''m'')"

definition refParseData :: "string \<Rightarrow> Data option" where
  "refParseData s = (case s of [] \<Rightarrow> Some DataUnset
     | c # v \<Rightarrow> if c = CHR ''s'' then Some (SingleValue v) else None)"

definition refLib :: "RawMap Lib" where
  "refLib = \<lparr>
     lib_Get = \<lambda>db cf k. (case db (cf, k) of None \<Rightarrow> GetNotFound ''NotFound: '' | Some raw \<Rightarrow> GetOk raw),
     lib_Write = \<lambda>db b. Some (fold batchStep b db),
     lib_BatchAdd = \<lambda>_ _. True,
     lib_SerMeta = refSerMeta,
     lib_ParseMeta = refParseMeta,
     lib_SerData = refSerData,
     lib_ParseData = refParseData\<rparr>"

lemma refParse_Ser: "refParseMeta (refSerMeta m @ rest) (int (length (refSerMeta m))) = Some m"
proof -
  have "refParseMeta (refSerMeta m @ rest) (int (length (refSerMeta m))) =
        refParseMeta (refSerMeta m) (int (length (refSerMeta m)))"
    by (simp add: refParseMeta_def)
  also have "\<dots> = Some m"
    by (cases m; cases "meta_dataType m"; cases "meta_opType m"; cases "meta_udfMeta m")
      (auto simp: refParseMeta_def refSerMeta_def comp_def)
  finally show ?thesis .
qed

lemma dbMap_refLib [simp]: "dbMap refLib db = db"
  by (auto simp: dbMap_def refLib_def rawOf_def fun_eq_iff split: option.split)

lemma refLib_protobuf: "protobuf_spec refLib"
  by (simp add: protobuf_spec_def refLib_def refParse_Ser refSerData_def refParseData_def)

lemma refLib_rocksdb: "rocksdb_spec refLib"
proof -
  have "lib_Write refLib db b = Some (fold batchStep b db)" "lib_BatchAdd refLib b u" for db b u
    by (simp_all add: refLib_def)
  moreover have "lib_Get refLib db cf k \<noteq> GetError msg" for db cf k msg
    by (simp add: refLib_def split: option.split)
  ultimately show ?thesis
    by (simp add: rocksdb_spec_def)
qed

text \<open>An empty replica on that library, with one column family for every key.\<close>

definition refRocks :: "RawMap RocksDBKVStore" where
  "refRocks = \<lparr>mDefaultWSLookupFunc = \<lambda>_. ''cf'', mRocksDB = Map.empty, mColumnFamilyNames = [''cf''],
     mWriteBatch = [], mRObserved = []\<rparr>"

lemma refRocks_inv: "Rocks_inv refLib refRocks"
proof -
  have "findCFHandle k None refRocks \<noteq> None" for k
    by (simp add: findCFHandle_def refRocks_def)
  moreover have "pendingMap refLib refRocks = Map.empty" "mRocksDB refRocks = Map.empty"
    by (simp_all add: pendingMap_def refRocks_def)
  ultimately show ?thesis
    by (simp add: Rocks_inv_def refLib_rocksdb refLib_protobuf decodable_def)
qed

text \<open>A cache with one working set over it.\<close>

definition refHash :: "KeyType \<Rightarrow> 64 word" where
  "refHash k = of_nat (length k)"

definition refLookup :: "KeyType \<Rightarrow> WSName" where
  "refLookup k = ''cf''"

definition refWS :: WSConcurInMemoryKVStore where
  "refWS = \<lparr>mWS2Wrapper = [''cf'' \<mapsto> \<lparr>mKVStore = newConcur, mWSMutex = Shared 0\<rparr>]\<rparr>"

lemma refWS_new: "newWSConcur [''cf''] = Some refWS"
  by (simp add: newWSConcur_def refWS_def)

lemma getBucket_newConcur [simp]: "getBucket newConcur i = emptyInMemory"
  by (simp add: newConcur_def getBucket_def)

lemma getWS_refWS [simp]: "getWS refWS (refLookup k) = newConcur"
  by (simp add: getWS_def refWS_def refLookup_def)

lemma refStack_inv: "WS_inv refHash refLookup (Rocks_inv refLib) (refWS, refRocks)"
proof -
  have "WS_valid refLookup refWS"
    by (simp add: WS_valid_def refWS_def refLookup_def)
  moreover have "InMem_inv (Rocks_inv refLib) (emptyInMemory, refRocks)"
    by (simp add: InMem_inv_def emptyInMemory_def refRocks_inv)
  ultimately show ?thesis
    by (simp add: routedInv_def)
qed

end
