(* ===== verification/Store_Properties.thy ===== *)
theory Store_Properties
  imports Reference_Lib
begin

text \<open>
  What the stores guarantee, stated for the stack a leader runs on (a cache of working sets over
  the read-only view of the replica's RocksDB store) and for the RocksDB store by itself.
\<close>

section \<open>The leader's stack\<close>

text \<open>C8: A read on the leader's stack returns the live entry of the stack's view with its value and
  version, and is not found when there is none or it has timed out; it leaves the replica's store
  as it is and keeps the invariant.\<close>

theorem stack_read_refines:
  assumes "leaderInv hash lookup L (w, r)"
  shows "\<exists>st out' w'. kv_readKV (leaderStack hash lookup L) now k out (w, r) = Some (st, out', w', r) \<and>
           leaderInv hash lookup L (w', r) \<and>
           (case visible now (leaderView hash lookup L (w, r)) k of
              Some (v, ver) \<Rightarrow> st = Status_ok \<and> outValue out' = v \<and> outVersion out' = ver
            | None \<Rightarrow> isNotFound st)"
proof (cases "visible now (leaderView hash lookup L (w, r)) k")
  case None
  then have miss: "case leaderView hash lookup L (w, r) k of None \<Rightarrow> True | Some (v, ver, t, dl) \<Rightarrow> isTimeOut now dl t"
    by (auto simp: visible_def split: option.splits if_splits)
  from rocks_ro.ws.routed_readKV_miss [OF assms miss, of out] None show ?thesis
    by (metis (no_types, lifting) option.simps(4))
next
  case (Some p)
  then obtain v ver t dl where e: "leaderView hash lookup L (w, r) k = Some (v, ver, t, dl)"
      "\<not> isTimeOut now dl t" "p = (v, ver)"
    by (auto simp: visible_def split: option.splits if_splits)
  from rocks_ro.ws.routed_readKV_hit [OF assms e(1,2), of out] obtain t' w' where
    "kv_readKV (leaderStack hash lookup L) now k out (w, r) =
       Some (Status_ok, \<lparr>outValue = v, outTTL = t', outVersion = ver\<rparr>, w', r)" "leaderInv hash lookup L (w', r)"
    by blast
  with Some e(3) show ?thesis
    by simp
qed

lemma refStack_after_write:
  "\<exists>w. kv_writeKV (leaderStack refHash refLookup refLib) k v ver ut um (refWS, refRocks) = Some (Status_ok, w, refRocks) \<and>
     leaderInv refHash refLookup refLib (w, refRocks) \<and>
     leaderView refHash refLookup refLib (w, refRocks) k = Some (v, ver, INFINITE_TTL, NEVER_EXPIRE) \<and>
     WS_resident refHash refLookup (w, refRocks) k"
  using rocks_ro.ws.routed_writeKV_law [OF refStack_inv TrueI] by (metis fun_upd_same)

theorem stack_read_refines_witness:
  "\<exists>w st out' w'. kv_writeKV (leaderStack refHash refLookup refLib) ''a'' ''1'' 7 0 DEFAULT_UDFMETA (refWS, refRocks) =
       Some (Status_ok, w, refRocks) \<and>
     kv_readKV (leaderStack refHash refLookup refLib) 5 ''a'' \<lparr>outValue = [], outTTL = 0, outVersion = 0\<rparr> (w, refRocks) =
       Some (st, out', w', refRocks) \<and> st = Status_ok \<and> outValue out' = ''1'' \<and> outVersion out' = 7"
proof -
  obtain w where w: "kv_writeKV (leaderStack refHash refLookup refLib) ''a'' ''1'' 7 0 DEFAULT_UDFMETA (refWS, refRocks) =
        Some (Status_ok, w, refRocks)" "leaderInv refHash refLookup refLib (w, refRocks)"
      "leaderView refHash refLookup refLib (w, refRocks) ''a'' = Some (''1'', 7, INFINITE_TTL, NEVER_EXPIRE)"
    using refStack_after_write by blast
  from stack_read_refines [OF w(2), of 5 "''a''" "\<lparr>outValue = [], outTTL = 0, outVersion = 0\<rparr>"] w(1,3) show ?thesis
    by (auto simp: visible_def isTimeOut_def)
qed

text \<open>C12: A write on the leader's stack succeeds, changes the view at the written key only (to the
  value, the version and no deadline), keeps the invariant and touches neither the replica's store
  nor any lock.\<close>

theorem stack_write_refines:
  assumes "leaderInv hash lookup L (w, r)"
  shows "\<exists>w'. kv_writeKV (leaderStack hash lookup L) k v ver ut um (w, r) = Some (Status_ok, w', r) \<and>
           leaderInv hash lookup L (w', r) \<and>
           leaderView hash lookup L (w', r) = (leaderView hash lookup L (w, r))(k \<mapsto> (v, ver, INFINITE_TTL, NEVER_EXPIRE)) \<and>
           WS_locks (w', r) = WS_locks (w, r)"
  using rocks_ro.ws.routed_writeKV_law [OF assms TrueI] rocks_ro.ws_locking.writeKV_locks by metis

theorem stack_write_refines_witness:
  "\<exists>w'. kv_writeKV (leaderStack refHash refLookup refLib) ''a'' ''1'' 7 3 DEFAULT_UDFMETA (refWS, refRocks) =
       Some (Status_ok, w', refRocks) \<and>
     leaderView refHash refLookup refLib (w', refRocks) ''a'' = Some (''1'', 7, 0, 0)"
  using stack_write_refines [OF refStack_inv, of "''a''" "''1''" 7 3 DEFAULT_UDFMETA]
  by (auto simp: INFINITE_TTL_def NEVER_EXPIRE_def)

text \<open>C13: A delete on the leader's stack hides a key the cache holds and changes nothing else.\<close>

theorem stack_delete_refines:
  assumes "leaderInv hash lookup L (w, r)" and "WS_resident hash lookup (w, r) k"
  shows "\<exists>w'. kv_deleteKV (leaderStack hash lookup L) k recVer ver (w, r) = Some (Status_ok, w', r) \<and>
           leaderInv hash lookup L (w', r) \<and>
           leaderView hash lookup L (w', r) = (leaderView hash lookup L (w, r))(k := None) \<and>
           WS_locks (w', r) = WS_locks (w, r)"
  using rocks_ro.ws.routed_deleteKV_law [OF assms] rocks_ro.ws_locking.deleteKV_locks by metis

theorem stack_delete_refines_witness:
  "\<exists>w w'. kv_writeKV (leaderStack refHash refLookup refLib) ''a'' ''1'' 7 3 DEFAULT_UDFMETA (refWS, refRocks) =
       Some (Status_ok, w, refRocks) \<and>
     kv_deleteKV (leaderStack refHash refLookup refLib) ''a'' 8 7 (w, refRocks) = Some (Status_ok, w', refRocks) \<and>
     leaderView refHash refLookup refLib (w', refRocks) ''a'' = None"
proof -
  obtain w where w: "kv_writeKV (leaderStack refHash refLookup refLib) ''a'' ''1'' 7 3 DEFAULT_UDFMETA (refWS, refRocks) =
        Some (Status_ok, w, refRocks)" "leaderInv refHash refLookup refLib (w, refRocks)"
      "WS_resident refHash refLookup (w, refRocks) ''a''"
    using refStack_after_write by blast
  from stack_delete_refines [OF w(2,3), of 8 7] w(1) show ?thesis
    by auto
qed



text \<open>C15: Taking the locks of a set of keys on the leader's stack and giving them back, with any
  operations in between that leave the locks alone, restores the locks of every segment of every
  working set, and neither call changes what the stack shows.\<close>

theorem lock_unlock_balanced:
  assumes "leaderInv hash lookup L s" and "WS_available hash lookup (WS_locks s) keys isExclusive"
  shows "\<exists>s1. kv_lock (leaderStack hash lookup L) keys isExclusive s = Some (Status_ok, s1) \<and>
           leaderView hash lookup L s1 = leaderView hash lookup L s \<and>
           (\<forall>s2. leaderInv hash lookup L s2 \<longrightarrow> WS_locks s2 = WS_locks s1 \<longrightarrow>
             (\<exists>s3. kv_unlock (leaderStack hash lookup L) keys isExclusive s2 = Some (Status_ok, s3) \<and>
                leaderView hash lookup L s3 = leaderView hash lookup L s2 \<and> WS_locks s3 = WS_locks s))"
proof -
  obtain s1 where s1: "kv_lock (leaderStack hash lookup L) keys isExclusive s = Some (Status_ok, s1)"
      "leaderView hash lookup L s1 = leaderView hash lookup L s"
    using rocks_ro.ws_locking.lock_law [OF assms] by blast
  with rocks_ro.ws_locking.unlock_law [OF s1(1) assms(1)] show ?thesis
    by blast
qed

theorem lock_unlock_balanced_witness:
  "WS_available refHash refLookup (WS_locks (refWS, refRocks)) [''a'', ''b''] True \<and>
   (\<exists>s1. kv_lock (leaderStack refHash refLookup refLib) [''a'', ''b''] True (refWS, refRocks) = Some (Status_ok, s1))"
proof -
  have av: "WS_available refHash refLookup (WS_locks (refWS, refRocks)) [''a'', ''b''] True"
    by (auto simp: WS_available_def ws2Keys_def std_set_def refLookup_def WS_locks_def refWS_def
        Concur_available_def segmentLocks_def newConcur_def lockable_def)
  from lock_unlock_balanced [OF refStack_inv av] av show ?thesis
    by blast
qed

end
