(* ===== verification/Str_Util.thy ===== *)
theory Str_Util
  imports Goblin_Prelude
begin

text \<open>
  \<^verbatim>\<open>kv-engine/utils/StrUtil.h\<close>: splitting a string at a delimiter, suffix test, the hex
  rendering of bytes and the multiplicative string hash. \<^verbatim>\<open>format\<close> is a wrapper of
  \<^verbatim>\<open>snprintf\<close> and has no model.
\<close>

unbundle bit_operations_syntax

definition newline :: char where
  "newline = char_of (10 :: nat)"

text \<open>The rest of the string from \<^verbatim>\<open>end\<close> on is the argument; the newlines of a token are
  erased by the \<^verbatim>\<open>regex_replace\<close>.\<close>

function tokenize :: "string \<Rightarrow> char \<Rightarrow> string list" where
  "tokenize str delim = (case dropWhile (\<lambda>c. c = delim) str of
      [] \<Rightarrow> []
    | c # rest \<Rightarrow> filter (\<lambda>x. x \<noteq> newline) (takeWhile (\<lambda>x. x \<noteq> delim) (c # rest)) #
                  tokenize (dropWhile (\<lambda>x. x \<noteq> delim) (c # rest)) delim)"
  by pat_completeness auto

lemma dropWhile_decreases:
  assumes "dropWhile P str = c # rest"
  shows "length (dropWhile (\<lambda>x. \<not> P x) (c # rest)) < length str"
proof -
  have "\<not> P c"
    using assms by (metis hd_dropWhile list.distinct(1) list.sel(1))
  moreover have "length (c # rest) \<le> length str"
    using assms length_dropWhile_le [of P str] by simp
  ultimately show ?thesis
    using length_dropWhile_le [of "\<lambda>x. \<not> P x" rest] by simp
qed

termination tokenize
  by (relation "measure (length \<circ> fst)") (simp, use dropWhile_decreases in fastforce)

declare tokenize.simps [simp del]

definition endsWith :: "string \<Rightarrow> string \<Rightarrow> bool" where
  "endsWith str suff = (length suff \<le> length str \<and> drop (length str - length suff) str = suff)"

definition hexCharacters :: string where
  "hexCharacters = ''0123456789abcdef''"

definition hexStr :: "string \<Rightarrow> string" where
  "hexStr str = concat (map (\<lambda>c. [hexCharacters ! (of_char c div 16), hexCharacters ! (of_char c mod 16)]) str)"

text \<open>The argument is a C string: the loop ends at the first NUL, and \<^verbatim>\<open>char\<close> is signed.\<close>

definition simpleHash :: "string \<Rightarrow> 64 word" where
  "simpleHash str =
     foldl (\<lambda>h c. (push_bit 5 h + h) + of_int (signed_char c)) 5381 (takeWhile (\<lambda>c. of_char c \<noteq> (0 :: nat)) str)"

section \<open>Tokens\<close>

lemma tokenize_Nil [simp]: "tokenize [] delim = []"
  by (simp add: tokenize.simps)

lemma tokenize_delim [simp]: "tokenize (delim # str) delim = tokenize str delim"
  by (subst tokenize.simps) (simp add: tokenize.simps [of str])

lemma tokenize_word:
  assumes "t \<noteq> []" and "delim \<notin> set t" and "str = [] \<or> hd str = delim"
  shows "tokenize (t @ str) delim = filter (\<lambda>x. x \<noteq> newline) t # tokenize str delim"
proof -
  obtain c t' where t: "t = c # t'"
    using assms(1) by (cases t) auto
  have all: "\<forall>x \<in> set t. x \<noteq> delim"
    using assms(2) by blast
  have rest: "dropWhile (\<lambda>x. x \<noteq> delim) (t @ str) = str"
    using assms(3) by (cases str) (simp_all add: dropWhile_append2 all)
  have word: "takeWhile (\<lambda>x. x \<noteq> delim) (t @ str) = t"
    using assms(3) by (cases str) (simp_all add: takeWhile_append2 all)
  have start: "dropWhile (\<lambda>x. x = delim) (t @ str) = c # (t' @ str)" "t @ str = c # (t' @ str)"
    using all t by simp_all
  show ?thesis
    unfolding tokenize.simps [of "t @ str"] start(1) list.case
    unfolding start(2) [symmetric] rest word ..
qed

lemma tokenize_sound:
  "t \<in> set (tokenize str delim) \<Longrightarrow> delim \<notin> set t \<and> newline \<notin> set t"
proof (induction str delim rule: tokenize.induct)
  case (1 str delim)
  show ?case
  proof (cases "dropWhile (\<lambda>c. c = delim) str")
    case Nil
    have "tokenize str delim = []"
      unfolding tokenize.simps [of str] Nil by simp
    with 1(2) show ?thesis
      by simp
  next
    case (Cons c rest)
    have "t = filter (\<lambda>x. x \<noteq> newline) (takeWhile (\<lambda>x. x \<noteq> delim) (c # rest)) \<or>
        t \<in> set (tokenize (dropWhile (\<lambda>x. x \<noteq> delim) (c # rest)) delim)"
      using 1(2) unfolding tokenize.simps [of str] Cons by (simp del: takeWhile.simps dropWhile.simps)
    then show ?thesis
      using 1(1) [OF Cons] by (auto dest: set_takeWhileD simp del: takeWhile.simps)
  qed
qed

text \<open>The inverse of splitting: the tokens with the delimiter between them.\<close>

primrec joinWith :: "char \<Rightarrow> string list \<Rightarrow> string" where
  "joinWith delim [] = []"
| "joinWith delim (t # ts) = (if ts = [] then t else t @ delim # joinWith delim ts)"

lemma tokenize_joinWith:
  assumes "\<forall>t \<in> set ts. t \<noteq> [] \<and> delim \<notin> set t \<and> newline \<notin> set t"
  shows "tokenize (joinWith delim ts) delim = ts"
  using assms
proof (induction ts)
  case (Cons t ts)
  have t: "filter (\<lambda>x. x \<noteq> newline) t = t"
    using Cons.prems by (auto simp: filter_id_conv)
  have "tokenize (t @ (if ts = [] then [] else delim # joinWith delim ts)) delim = t # ts"
    using Cons by (subst tokenize_word) (auto simp: t)
  then show ?case
    by (simp split: if_splits)
qed simp

lemma tokenize_eq_Nil_iff: "tokenize str delim = [] \<longleftrightarrow> (\<forall>c \<in> set str. c = delim)"
proof -
  have "tokenize str delim = [] \<longleftrightarrow> dropWhile (\<lambda>c. c = delim) str = []"
    by (subst tokenize.simps) (auto split: list.split simp: neq_Nil_conv simp del: dropWhile_eq_Nil_conv)
  then show ?thesis
    by (simp add: dropWhile_eq_Nil_conv)
qed

section \<open>Hex strings\<close>

lemma length_hexStr: "length (hexStr str) = 2 * length str"
  by (induction str) (simp_all add: hexStr_def)

lemma hexCharacters_distinct: "distinct hexCharacters" "length hexCharacters = 16"
  by (simp_all add: hexCharacters_def)

lemma of_char_bound: "of_char c < (256 :: nat)"
  by (metis of_char_mod_256 mod_less_divisor zero_less_numeral)

lemma hexDigits_inject:
  "(hexCharacters ! (of_char c div 16) = hexCharacters ! (of_char e div 16) \<and>
    hexCharacters ! (of_char c mod 16) = hexCharacters ! (of_char e mod 16)) = (c = e)"
proof -
  have bound: "of_char x div 16 < (16 :: nat)" for x :: char
    using of_char_bound [of x] by (intro less_mult_imp_div_less) simp
  have "of_char c = (of_char e :: nat)"
    if "of_char c div 16 = (of_char e div 16 :: nat)" "of_char c mod 16 = (of_char e mod 16 :: nat)"
    using that by (metis div_mult_mod_eq)
  then show ?thesis
    using hexCharacters_distinct bound [of c] bound [of e] by (auto simp: nth_eq_iff_index_eq)
qed

lemma hexStr_Cons:
  "hexStr (c # s) = hexCharacters ! (of_char c div 16) # hexCharacters ! (of_char c mod 16) # hexStr s"
  by (simp add: hexStr_def)

lemma hexStr_inject: "hexStr a = hexStr b \<longleftrightarrow> a = b"
proof (induction a arbitrary: b)
  case Nil
  then show ?case
    by (cases b) (simp_all add: hexStr_def)
next
  case (Cons c a)
  show ?case
  proof (cases b)
    case (Cons e b')
    then show ?thesis
      using Cons.IH [of b'] hexDigits_inject [of c e] by (simp add: hexStr_Cons) blast
  qed (simp add: hexStr_def)
qed

end
