(* ===== verification/Messages.thy ===== *)
theory Messages
  imports KV_Store Str_Util
begin

text \<open>
  The request and response messages of \<^verbatim>\<open>protocols/service.proto\<close> and
  \<^verbatim>\<open>protocols/common.proto\<close> that the commands of the engine take and fill. A scalar or
  sub-message that is not set reads as its default; a \<^verbatim>\<open>oneof\<close> is a datatype with a case
  for not being set.
\<close>

section \<open>Common messages\<close>

datatype ResponseCode =
    RC_UNKNOWN
  | RC_PROCESSING
  | RC_OK
  | RC_CREATED
  | RC_KEY_NOT_EXIST
  | RC_IGNORED_REQUEST
  | RC_NOT_LEADER
  | RC_BAD_REQUEST
  | RC_PRECOND_NOT_MATCHED
  | RC_WRONG_ROUTE
  | RC_MIGRATED_ROUTE
  | RC_CLIENT_ROUTE_OUT_OF_DATE
  | RC_SERVER_ROUTE_OUT_OF_DATE
  | RC_GENERAL_ERROR

record RequestHeader =
  rh_knownVersion :: "64 word"
  rh_routeVersion :: "64 word"

record ResponseHeader =
  h_code :: ResponseCode
  h_message :: string
  h_latestVersion :: "64 word"
  h_leaderHint :: string
  h_routeHint :: "string list"
  h_leaderIp :: string

definition emptyHeader :: ResponseHeader where
  "emptyHeader = \<lparr>h_code = RC_UNKNOWN, h_message = [], h_latestVersion = 0, h_leaderHint = [], h_routeHint = [],
     h_leaderIp = []\<rparr>"

section \<open>Entries and results\<close>

record WriteEntry =
  wen_key :: KeyType
  wen_value :: ValueType
  wen_enableTTL :: bool
  wen_ttl :: TTLType
  wen_version :: VersionType
  wen_updateTime :: TimeType
  wen_udfMeta :: UserDefinedMeta

record WriteResult =
  wr_code :: ResponseCode
  wr_message :: string
  wr_version :: VersionType

record ReadEntry =
  ren_key :: KeyType
  ren_version :: VersionType

record ReadResult =
  rr_code :: ResponseCode
  rr_message :: string
  rr_version :: VersionType
  rr_value :: ValueType
  rr_updateTime :: TimeType
  rr_udfMeta :: UserDefinedMeta

record RemoveEntry =
  den_key :: KeyType
  den_version :: VersionType

record RemoveResult =
  dr_code :: ResponseCode
  dr_message :: string
  dr_version :: VersionType
  dr_value :: ValueType

definition emptyWriteResult :: WriteResult where
  "emptyWriteResult = \<lparr>wr_code = RC_UNKNOWN, wr_message = [], wr_version = 0\<rparr>"

definition emptyReadResult :: ReadResult where
  "emptyReadResult = \<lparr>rr_code = RC_UNKNOWN, rr_message = [], rr_version = 0, rr_value = [], rr_updateTime = 0,
     rr_udfMeta = DEFAULT_UDFMETA\<rparr>"

definition emptyRemoveResult :: RemoveResult where
  "emptyRemoveResult = \<lparr>dr_code = RC_UNKNOWN, dr_message = [], dr_version = 0, dr_value = []\<rparr>"

datatype ReadWriteEntry = RWWrite WriteEntry | RWRead ReadEntry | RWRemove RemoveEntry | RWUnset

datatype ReadWriteResult = RRWrite WriteResult | RRRead ReadResult | RRRemove RemoveResult

section \<open>Preconditions\<close>

datatype CompareOp = CMP_EQUAL | CMP_GREATER | CMP_LESS | CMP_NOT_EQUAL

datatype UdfMetaType = NOT_SPECIFIED | NUM | STR | UDF_OTHERS

record UserMetaCondition =
  umc_key :: KeyType
  umc_metaType :: UdfMetaType
  umc_udfMeta :: UserDefinedMeta
  umc_pos :: "32 word"
  umc_op :: CompareOp

datatype Precondition =
    VersionCond KeyType VersionType CompareOp
  | ExistCond KeyType bool
  | UserMetaCond UserMetaCondition
  | CondUnset

section \<open>Requests and responses\<close>

record PutRequest =
  put_header :: RequestHeader
  put_entry :: WriteEntry

record PutResponse =
  putr_header :: ResponseHeader
  putr_result :: WriteResult

record GetRequest =
  get_header :: RequestHeader
  get_entry :: ReadEntry
  get_allowStale :: bool
  get_isMetaReturned :: bool

record GetResponse =
  getr_header :: ResponseHeader
  getr_result :: ReadResult

record DeleteRequest =
  del_header :: RequestHeader
  del_entry :: RemoveEntry
  del_returnValue :: bool

record DeleteResponse =
  delr_header :: ResponseHeader
  delr_result :: RemoveResult

record TransRequest =
  tr_header :: RequestHeader
  tr_preconds :: "Precondition list"
  tr_entries :: "ReadWriteEntry list"
  tr_isMetaReturned :: bool
  tr_allowStale :: bool

record TransResponse =
  trr_header :: ResponseHeader
  trr_results :: "ReadWriteResult list"
  trr_ignoredPutKeys :: "KeyType set"

record GenerateRequest =
  gen_header :: RequestHeader
  gen_srcKeys :: "KeyType list"
  gen_tgtKeys :: "KeyType list"
  gen_inputInfo :: string

record GenerateResponse =
  genr_header :: ResponseHeader
  genr_code :: ResponseCode
  genr_outputInfo :: string

section \<open>Filling the header\<close>

text \<open>The part of every \<^verbatim>\<open>fillResponseAndReply\<close> that concerns the header. \<open>hintCode\<close> is
  the code whose message is read as a list of addresses; \<open>ip\<close> is
  \<^verbatim>\<open>ClusterInfoUtil::getIpFromNodeId\<close>.\<close>

definition fillHeader ::
  "ResponseCode \<Rightarrow> (64 word \<Rightarrow> string) \<Rightarrow> ResponseCode \<Rightarrow> string \<Rightarrow> 64 word option \<Rightarrow> ResponseHeader \<Rightarrow> ResponseHeader option" where
  "fillHeader hintCode ip code message leaderId h = do {
     h1 \<leftarrow> (if code = RC_NOT_LEADER \<and> leaderId \<noteq> None then
               Some (h\<lparr>h_leaderHint := to_string (unat (the leaderId)), h_leaderIp := ip (the leaderId)\<rparr>)
             else if code = hintCode then do {
               assert (tokenize message CHR '','' \<noteq> []);
               Some (h\<lparr>h_routeHint := h_routeHint h @ tokenize message CHR '',''\<rparr>)
             }
             else Some h);
     Some (h1\<lparr>h_code := code, h_message := message\<rparr>)
   }"

lemma fillHeader_ok: "hintCode \<noteq> RC_OK \<Longrightarrow>
  fillHeader hintCode ip RC_OK message leaderId h = Some (h\<lparr>h_code := RC_OK, h_message := message\<rparr>)"
  by (simp add: fillHeader_def)

lemma fillHeader_total:
  assumes "code = hintCode \<longrightarrow> (\<exists>c \<in> set message. c \<noteq> CHR '','')"
  shows "\<exists>h'. fillHeader hintCode ip code message leaderId h = Some h' \<and> h_code h' = code \<and>
           h_message h' = message \<and> h_latestVersion h' = h_latestVersion h"
  using assms by (auto simp: fillHeader_def tokenize_eq_Nil_iff)

text \<open>A client reads the addresses the server joined.\<close>

lemma fillHeader_routeHint:
  assumes "addrs \<noteq> []" and "\<forall>a \<in> set addrs. a \<noteq> [] \<and> CHR '','' \<notin> set a \<and> newline \<notin> set a"
    and "hintCode \<noteq> RC_NOT_LEADER"
  shows "\<exists>h'. fillHeader hintCode ip hintCode (joinWith CHR '','' addrs) leaderId h = Some h' \<and>
           h_routeHint h' = h_routeHint h @ addrs \<and> h_code h' = hintCode"
  using assms by (simp add: fillHeader_def tokenize_joinWith)

end
