(* ===== verification/Commands.thy ===== *)
theory Commands
  imports Messages Events
begin

text \<open>
  \<^verbatim>\<open>kv-engine/model\<close>: the commands a client's request becomes. A command and its context are
  one object, the record \<open>Context\<close> with the request, the response under construction and the
  responses handed to the callback so far. The virtual methods of \<^verbatim>\<open>Command\<close> and
  \<^verbatim>\<open>CommandContext\<close> are a record of functions over the object and the store.

  This theory has the commands that touch one key (put, get, delete, import), the eviction command
  and the connect command. The clock does not move during one method: \<open>now\<close> is the argument.
  \<open>ip\<close> is \<^verbatim>\<open>ClusterInfoUtil::getIpFromNodeId\<close>. Metrics are left out.
\<close>

section \<open>The interface\<close>

record ('c, 's) Command =
  cmd_isFollowerReadCmd :: "'c \<Rightarrow> bool"
  cmd_prepare :: "TimeType \<Rightarrow> 'c \<times> 's \<Rightarrow> (Status \<times> 'c \<times> 's) option"
  cmd_execute :: "TimeType \<Rightarrow> 'c \<times> 's \<Rightarrow> (Status \<times> Event list \<times> 'c \<times> 's) option"
  cmd_finish :: "TimeType \<Rightarrow> Event list \<Rightarrow> 'c \<times> 's \<Rightarrow> (Status \<times> 'c \<times> 's) option"
  ctx_initSuccessResponse :: "VersionType \<Rightarrow> Event list \<Rightarrow> 'c \<Rightarrow> 'c option"
  ctx_fillResponseAndReply :: "ResponseCode \<Rightarrow> string \<Rightarrow> 64 word option \<Rightarrow> 'c \<Rightarrow> 'c option"
  ctx_getTargetKeys :: "'c \<Rightarrow> KeyType list option"
  ctx_getRequestHeader :: "'c \<Rightarrow> RequestHeader"
  ctx_skipPreExecuteCB :: "'c \<Rightarrow> bool"

text \<open>The bodies the base classes provide; the pure virtual methods have none to run.\<close>

definition Command_base :: "('c, 's) Command" where
  "Command_base = \<lparr>
     cmd_isFollowerReadCmd = \<lambda>_. False,
     cmd_prepare = \<lambda>_ _. None,
     cmd_execute = \<lambda>_ _. None,
     cmd_finish = \<lambda>_ _ _. None,
     ctx_initSuccessResponse = \<lambda>_ _ c. Some c,
     ctx_fillResponseAndReply = \<lambda>_ _ _ c. Some c,
     ctx_getTargetKeys = \<lambda>_. Some [],
     ctx_getRequestHeader = \<lambda>_. \<lparr>rh_knownVersion = 0, rh_routeVersion = 0\<rparr>,
     ctx_skipPreExecuteCB = \<lambda>_. True\<rparr>"

record ('rq, 'rs) Context =
  mRequest :: 'rq
  mResponse :: 'rs
  mReplies :: "'rs list"

definition callback :: "('rq, 'rs, 'x) Context_scheme \<Rightarrow> ('rq, 'rs, 'x) Context_scheme" where
  "callback c = c\<lparr>mReplies := mReplies c @ [mResponse c]\<rparr>"

section \<open>Shared bodies\<close>

text \<open>\<^verbatim>\<open>prepare\<close> locks the target keys.\<close>

definition lockTargets :: "'s KVStore \<Rightarrow> ('c \<Rightarrow> KeyType list option) \<Rightarrow> bool \<Rightarrow> 'c \<times> 's \<Rightarrow> (Status \<times> 'c \<times> 's) option" where
  "lockTargets K targets isExclusive = (\<lambda>(c, s). do {
     keys \<leftarrow> targets c;
     (st, s') \<leftarrow> kv_lock K keys isExclusive s;
     Some (st, c, s')
   })"

text \<open>\<^verbatim>\<open>finish\<close> applies the events until one fails and gives the locks back.\<close>

definition applyAndUnlock ::
  "'s KVStore \<Rightarrow> ('c \<Rightarrow> KeyType list option) \<Rightarrow> bool \<Rightarrow> Event list \<Rightarrow> 'c \<times> 's \<Rightarrow> (Status \<times> 'c \<times> 's) option" where
  "applyAndUnlock K targets isExclusive events = (\<lambda>(c, s). do {
     (st, s1) \<leftarrow> apply_events K events s;
     keys \<leftarrow> targets c;
     (st2, s2) \<leftarrow> kv_unlock K keys isExclusive s1;
     assert (isOK st2);
     Some (st, c, s2)
   })"

text \<open>A write with a time to live that is not given takes over the one of the stored value, and is
  kept for ever when there is none. The status is the one of the meta read.\<close>

definition fixTTL :: "'s KVStore \<Rightarrow> TimeType \<Rightarrow> KeyType \<Rightarrow> bool \<Rightarrow> TTLType \<Rightarrow> 's \<Rightarrow> (Status \<times> bool \<times> TTLType \<times> 's) option" where
  "fixTTL K now key enableTTL tt s =
     (if enableTTL \<and> tt = INFINITE_TTL then do {
        (st, meta, s') \<leftarrow> kv_readMeta K key defaultMeta s;
        if isOK st then
          (if meta_ttl meta \<noteq> INFINITE_TTL \<and> now < meta_deadline meta then Some (st, enableTTL, meta_ttl meta, s')
           else Some (st, False, tt, s'))
        else if isNotFound st then Some (st, False, tt, s')
        else Some (st, enableTTL, tt, s')
      }
      else Some (Status_ok, enableTTL, tt, s))"

section \<open>Put\<close>

type_synonym PutContext = "(PutRequest, PutResponse) Context"

definition newPut :: "PutRequest \<Rightarrow> PutContext" where
  "newPut req = \<lparr>mRequest = req, mResponse = \<lparr>putr_header = emptyHeader, putr_result = emptyWriteResult\<rparr>, mReplies = []\<rparr>"

definition Put_initSuccessResponse :: "VersionType \<Rightarrow> Event list \<Rightarrow> PutContext \<Rightarrow> PutContext option" where
  "Put_initSuccessResponse curMaxVersion events c =
     (let r = mResponse c; res = (putr_result r)\<lparr>wr_code := RC_OK\<rparr>; h = (putr_header r)\<lparr>h_code := RC_OK\<rparr>
      in if events \<noteq> [] then do {
           assert (length events = 1);
           w \<leftarrow> (case hd events of EvWrite w \<Rightarrow> Some w | _ \<Rightarrow> None);
           Some (c\<lparr>mResponse := \<lparr>putr_header = h\<lparr>h_latestVersion := max (we_version w) curMaxVersion, h_code := RC_OK\<rparr>,
                                putr_result = res\<lparr>wr_version := we_version w\<rparr>\<rparr>\<rparr>)
         }
         else Some (c\<lparr>mResponse := \<lparr>putr_header = h\<lparr>h_latestVersion := curMaxVersion, h_code := RC_OK\<rparr>, putr_result = res\<rparr>\<rparr>))"

definition Put_fillResponseAndReply ::
  "(64 word \<Rightarrow> string) \<Rightarrow> ResponseCode \<Rightarrow> string \<Rightarrow> 64 word option \<Rightarrow> PutContext \<Rightarrow> PutContext option" where
  "Put_fillResponseAndReply ip code message leaderId c = do {
     h \<leftarrow> fillHeader RC_WRONG_ROUTE ip code message leaderId (putr_header (mResponse c));
     let res = putr_result (mResponse c);
     Some (callback (c\<lparr>mResponse := \<lparr>putr_header = h, putr_result = (if code \<noteq> RC_OK then res\<lparr>wr_code := code\<rparr> else res)\<rparr>\<rparr>))
   }"

definition Put_getTargetKeys :: "PutContext \<Rightarrow> KeyType list option" where
  "Put_getTargetKeys c = Some [wen_key (put_entry (mRequest c))]"

definition Put_execute ::
  "'s KVStore \<Rightarrow> TimeType \<Rightarrow> PutContext \<times> 's \<Rightarrow> (Status \<times> Event list \<times> PutContext \<times> 's) option" where
  "Put_execute K now = (\<lambda>(c, s).
     let e = put_entry (mRequest c); key = wen_key e; enableTTL = wen_enableTTL e;
         tt = (if enableTTL then wen_ttl e else INFINITE_TTL)
     in do {
       (st, enableTTL', tt', s') \<leftarrow> fixTTL K now key enableTTL tt s;
       if isOK st \<or> isNotFound st then
         Some (Status_ok,
               [EvWrite (newWriteEvent key (wen_value e) enableTTL' tt'
                  (if enableTTL' then tt' + now else NEVER_EXPIRE) now (wen_udfMeta e) False)], c, s')
       else Some (st, [], c, s')
     })"

definition Put_ops :: "(64 word \<Rightarrow> string) \<Rightarrow> 's KVStore \<Rightarrow> (PutContext, 's) Command" where
  "Put_ops ip K = Command_base\<lparr>
     cmd_prepare := \<lambda>_. lockTargets K Put_getTargetKeys True,
     cmd_execute := Put_execute K,
     cmd_finish := \<lambda>_. applyAndUnlock K Put_getTargetKeys True,
     ctx_initSuccessResponse := Put_initSuccessResponse,
     ctx_fillResponseAndReply := Put_fillResponseAndReply ip,
     ctx_getTargetKeys := Put_getTargetKeys,
     ctx_getRequestHeader := \<lambda>c. put_header (mRequest c),
     ctx_skipPreExecuteCB := \<lambda>_. False\<rparr>"

section \<open>Import\<close>

text \<open>The import command shares the context of the put command.\<close>

definition Import_execute ::
  "'s KVStore \<Rightarrow> TimeType \<Rightarrow> PutContext \<times> 's \<Rightarrow> (Status \<times> Event list \<times> PutContext \<times> 's) option" where
  "Import_execute K now = (\<lambda>(c, s).
     let e = put_entry (mRequest c); key = wen_key e; enableTTL = wen_enableTTL e;
         tt = (if enableTTL then wen_ttl e else INFINITE_TTL)
     in do {
       (st, enableTTL', tt', s') \<leftarrow> fixTTL K now key enableTTL tt s;
       if isOK st \<or> isNotFound st then
         Some (Status_ok,
               [EvImport (newWriteEvent key (wen_value e) enableTTL' tt'
                  (if enableTTL' then tt' + now else NEVER_EXPIRE) NOT_UPDATED DEFAULT_UDFMETA False) (wen_version e)], c, s')
       else Some (st, [], c, s')
     })"

definition Import_ops :: "(64 word \<Rightarrow> string) \<Rightarrow> 's KVStore \<Rightarrow> (PutContext, 's) Command" where
  "Import_ops ip K = (Put_ops ip K)\<lparr>cmd_execute := Import_execute K\<rparr>"

section \<open>Get\<close>

type_synonym GetContext = "(GetRequest, GetResponse) Context"

definition newGet :: "GetRequest \<Rightarrow> GetContext" where
  "newGet req = \<lparr>mRequest = req, mResponse = \<lparr>getr_header = emptyHeader, getr_result = emptyReadResult\<rparr>, mReplies = []\<rparr>"

text \<open>The result of a read event, with the meta when the client asked for it.\<close>

definition appendMeta :: "ReadEvent \<Rightarrow> ReadResult \<Rightarrow> ReadResult" where
  "appendMeta rd res = res\<lparr>rr_updateTime := re_updateTime rd,
     rr_udfMeta := \<lparr>uintfield = uintfield (rr_udfMeta res) @ uintfield (re_udfMeta rd),
                    strfield = strfield (rr_udfMeta res) @ strfield (re_udfMeta rd)\<rparr>\<rparr>"

definition Get_initSuccessResponse :: "VersionType \<Rightarrow> Event list \<Rightarrow> GetContext \<Rightarrow> GetContext option" where
  "Get_initSuccessResponse curMaxVersion events c =
     (let r = mResponse c; res = (getr_result r)\<lparr>rr_code := RC_OK\<rparr>; h = (getr_header r)\<lparr>h_code := RC_OK\<rparr>
      in if events \<noteq> [] then do {
           assert (length events = 1);
           rd \<leftarrow> (case hd events of EvRead rd \<Rightarrow> Some rd | _ \<Rightarrow> None);
           let res1 = res\<lparr>rr_value := re_value rd, rr_version := re_version rd\<rparr>;
           let res2 = (if re_isNotFound rd then res1\<lparr>rr_code := RC_KEY_NOT_EXIST, rr_version := kInvalidVersion\<rparr>
                       else if get_isMetaReturned (mRequest c) then appendMeta rd res1 else res1);
           Some (c\<lparr>mResponse := \<lparr>getr_header = h\<lparr>h_latestVersion := max curMaxVersion (re_version rd)\<rparr>,
                                getr_result = res2\<rparr>\<rparr>)
         }
         else Some (c\<lparr>mResponse := \<lparr>getr_header = h\<lparr>h_latestVersion := curMaxVersion\<rparr>, getr_result = res\<rparr>\<rparr>))"

definition Get_fillResponseAndReply ::
  "(64 word \<Rightarrow> string) \<Rightarrow> ResponseCode \<Rightarrow> string \<Rightarrow> 64 word option \<Rightarrow> GetContext \<Rightarrow> GetContext option" where
  "Get_fillResponseAndReply ip code message leaderId c = do {
     h \<leftarrow> fillHeader RC_WRONG_ROUTE ip code message leaderId (getr_header (mResponse c));
     let res = getr_result (mResponse c);
     Some (callback (c\<lparr>mResponse := \<lparr>getr_header = h, getr_result = (if code \<noteq> RC_OK then res\<lparr>rr_code := code\<rparr> else res)\<rparr>\<rparr>))
   }"

definition Get_getTargetKeys :: "GetContext \<Rightarrow> KeyType list option" where
  "Get_getTargetKeys c = Some [ren_key (get_entry (mRequest c))]"

definition Get_isFollowerReadCmd :: "GetContext \<Rightarrow> bool" where
  "Get_isFollowerReadCmd c = get_allowStale (mRequest c)"

text \<open>What a read starts with in its out-parameters.\<close>

definition noRead :: ReadOut where
  "noRead = \<lparr>outValue = [], outTTL = INFINITE_TTL, outVersion = kInvalidVersion\<rparr>"

text \<open>The event of a read, for a get and for the reads of a transaction: \<open>proxy\<close> selects the
  methods that go to the delegate.\<close>

definition readEvent ::
  "'s KVStore \<Rightarrow> bool \<Rightarrow> bool \<Rightarrow> KeyType \<Rightarrow> Status \<Rightarrow> ReadOut \<Rightarrow> 's \<Rightarrow> (Event list \<times> 's) option" where
  "readEvent K proxy isMetaReturned key st out s =
     (if isNotFound st then Some ([newReadEvent key out True], s)
      else if isOK st then
        (if isMetaReturned then do {
           (mst, meta, s') \<leftarrow> (if proxy then kv_readMetaFromProxy K key defaultMeta s else kv_readMeta K key defaultMeta s);
           case meta_udfMeta meta of
             None \<Rightarrow> Some ([newReadEvent key out False], s')
           | Some um \<Rightarrow> if isNotFound mst then Some ([newReadEvent key out False], s')
                        else Some ([newReadMetaEvent key out False (meta_updateTime meta) um], s')
         }
         else Some ([newReadEvent key out False], s))
      else Some ([], s))"

definition Get_execute ::
  "'s KVStore \<Rightarrow> TimeType \<Rightarrow> GetContext \<times> 's \<Rightarrow> (Status \<times> Event list \<times> GetContext \<times> 's) option" where
  "Get_execute K now = (\<lambda>(c, s).
     let key = ren_key (get_entry (mRequest c)); proxy = Get_isFollowerReadCmd c
     in do {
       (st, out, s1) \<leftarrow> (if proxy then kv_readKVFromProxy K now key noRead s else kv_readKV K now key noRead s);
       (events, s2) \<leftarrow> readEvent K proxy (get_isMetaReturned (mRequest c)) key st out s1;
       Some (st, events, c, s2)
     })"

definition Get_ops :: "(64 word \<Rightarrow> string) \<Rightarrow> 's KVStore \<Rightarrow> (GetContext, 's) Command" where
  "Get_ops ip K = Command_base\<lparr>
     cmd_isFollowerReadCmd := Get_isFollowerReadCmd,
     cmd_prepare := \<lambda>_. lockTargets K Get_getTargetKeys False,
     cmd_execute := Get_execute K,
     cmd_finish := \<lambda>_. applyAndUnlock K Get_getTargetKeys False,
     ctx_initSuccessResponse := Get_initSuccessResponse,
     ctx_fillResponseAndReply := Get_fillResponseAndReply ip,
     ctx_getTargetKeys := Get_getTargetKeys,
     ctx_getRequestHeader := \<lambda>c. get_header (mRequest c),
     ctx_skipPreExecuteCB := \<lambda>_. False\<rparr>"

section \<open>Delete\<close>

type_synonym DeleteContext = "(DeleteRequest, DeleteResponse) Context"

definition newDelete :: "DeleteRequest \<Rightarrow> DeleteContext" where
  "newDelete req = \<lparr>mRequest = req, mResponse = \<lparr>delr_header = emptyHeader, delr_result = emptyRemoveResult\<rparr>, mReplies = []\<rparr>"

definition Delete_initSuccessResponse :: "VersionType \<Rightarrow> Event list \<Rightarrow> DeleteContext \<Rightarrow> DeleteContext option" where
  "Delete_initSuccessResponse curMaxVersion events c =
     (let r = mResponse c; res = (delr_result r)\<lparr>dr_code := RC_OK\<rparr>; h = (delr_header r)\<lparr>h_code := RC_OK\<rparr>
      in if events \<noteq> [] then do {
           assert (length events = 1);
           case hd events of
             EvDelete d \<Rightarrow>
               Some (c\<lparr>mResponse := \<lparr>delr_header = h\<lparr>h_latestVersion := max (de_version d) curMaxVersion\<rparr>,
                 delr_result = res\<lparr>dr_value := de_deletedValue d, dr_version := de_deletedVersion d\<rparr>\<rparr>\<rparr>)
           | EvRead rd \<Rightarrow> do {
               assert (re_isNotFound rd);
               Some (c\<lparr>mResponse := \<lparr>delr_header = h\<lparr>h_latestVersion := curMaxVersion\<rparr>,
                 delr_result = res\<lparr>dr_code := RC_KEY_NOT_EXIST, dr_version := kInvalidVersion\<rparr>\<rparr>\<rparr>)
             }
           | _ \<Rightarrow> None
         }
         else Some (c\<lparr>mResponse := \<lparr>delr_header = h\<lparr>h_latestVersion := curMaxVersion\<rparr>, delr_result = res\<rparr>\<rparr>))"

text \<open>Unlike the other commands, a delete reads the addresses off the code
  \<^verbatim>\<open>MIGRATED_ROUTE\<close>.\<close>

definition Delete_fillResponseAndReply ::
  "(64 word \<Rightarrow> string) \<Rightarrow> ResponseCode \<Rightarrow> string \<Rightarrow> 64 word option \<Rightarrow> DeleteContext \<Rightarrow> DeleteContext option" where
  "Delete_fillResponseAndReply ip code message leaderId c = do {
     h \<leftarrow> fillHeader RC_MIGRATED_ROUTE ip code message leaderId (delr_header (mResponse c));
     let res = delr_result (mResponse c);
     Some (callback (c\<lparr>mResponse := \<lparr>delr_header = h, delr_result = (if code \<noteq> RC_OK then res\<lparr>dr_code := code\<rparr> else res)\<rparr>\<rparr>))
   }"

definition Delete_getTargetKeys :: "DeleteContext \<Rightarrow> KeyType list option" where
  "Delete_getTargetKeys c = Some [den_key (del_entry (mRequest c))]"

text \<open>The event of a delete, shared with the remove entries of a transaction: a read event when the
  key is not there or has another version than the target.\<close>

definition removeEvent :: "KeyType \<Rightarrow> VersionType \<Rightarrow> bool \<Rightarrow> Status \<Rightarrow> ReadOut \<Rightarrow> Event list" where
  "removeEvent key targetVersion returnValue st out =
     (if isNotFound st then [newReadEvent key out True]
      else if isOK st then
        (if targetVersion \<noteq> kInvalidVersion \<and> targetVersion \<noteq> outVersion out then [newReadEvent key out True]
         else [newDeleteEvent key (if returnValue then outValue out else []) (outVersion out)])
      else [])"

definition Delete_execute ::
  "'s KVStore \<Rightarrow> TimeType \<Rightarrow> DeleteContext \<times> 's \<Rightarrow> (Status \<times> Event list \<times> DeleteContext \<times> 's) option" where
  "Delete_execute K now = (\<lambda>(c, s).
     let e = del_entry (mRequest c); key = den_key e
     in do {
       (st, out, s1) \<leftarrow> kv_readKV K now key noRead s;
       Some (st, removeEvent key (den_version e) (del_returnValue (mRequest c)) st out, c, s1)
     })"

definition Delete_ops :: "(64 word \<Rightarrow> string) \<Rightarrow> 's KVStore \<Rightarrow> (DeleteContext, 's) Command" where
  "Delete_ops ip K = Command_base\<lparr>
     cmd_prepare := \<lambda>_. lockTargets K Delete_getTargetKeys True,
     cmd_execute := Delete_execute K,
     cmd_finish := \<lambda>_. applyAndUnlock K Delete_getTargetKeys True,
     ctx_initSuccessResponse := Delete_initSuccessResponse,
     ctx_fillResponseAndReply := Delete_fillResponseAndReply ip,
     ctx_getTargetKeys := Delete_getTargetKeys,
     ctx_getRequestHeader := \<lambda>c. del_header (mRequest c),
     ctx_skipPreExecuteCB := \<lambda>_. False\<rparr>"

section \<open>Evict\<close>

record EvictCommand =
  mEvictKeys :: "KeyType list"
  mEvictVersion :: VersionType

definition Evict_finish :: "'s KVStore \<Rightarrow> TimeType \<Rightarrow> EvictCommand \<times> 's \<Rightarrow> (Status \<times> EvictCommand \<times> 's) option" where
  "Evict_finish K now = (\<lambda>(c, s). do {
     (st, s1) \<leftarrow> kv_evictKV K now (mEvictKeys c) (mEvictVersion c) s;
     (st2, s2) \<leftarrow> kv_unlock K (mEvictKeys c) True s1;
     assert (isOK st2);
     Some (Status_ok, c, s2)
   })"

definition Evict_ops :: "'s KVStore \<Rightarrow> (EvictCommand, 's) Command" where
  "Evict_ops K = Command_base\<lparr>
     cmd_prepare := \<lambda>_. lockTargets K (\<lambda>c. Some (mEvictKeys c)) True,
     cmd_execute := \<lambda>_ (c, s). Some (Status_ok, [], c, s),
     cmd_finish := \<lambda>now _. Evict_finish K now\<rparr>"

section \<open>Connect\<close>

type_synonym ConnectContext = "(RequestHeader, ResponseHeader) Context"

definition newConnect :: "RequestHeader \<Rightarrow> ConnectContext" where
  "newConnect req = \<lparr>mRequest = req, mResponse = emptyHeader, mReplies = []\<rparr>"

definition Connect_initSuccessResponse :: "VersionType \<Rightarrow> Event list \<Rightarrow> ConnectContext \<Rightarrow> ConnectContext option" where
  "Connect_initSuccessResponse curMaxVersion events c = do {
     assert (events = []);
     Some (c\<lparr>mResponse := (mResponse c)\<lparr>h_code := RC_OK, h_latestVersion := curMaxVersion\<rparr>\<rparr>)
   }"

definition Connect_fillResponseAndReply ::
  "(64 word \<Rightarrow> string) \<Rightarrow> ResponseCode \<Rightarrow> string \<Rightarrow> 64 word option \<Rightarrow> ConnectContext \<Rightarrow> ConnectContext option" where
  "Connect_fillResponseAndReply ip code message leaderId c =
     (let h = mResponse c;
          h1 = (if code = RC_NOT_LEADER \<and> leaderId \<noteq> None then
                  h\<lparr>h_leaderHint := to_string (unat (the leaderId)), h_leaderIp := ip (the leaderId)\<rparr> else h)
      in Some (callback (c\<lparr>mResponse := h1\<lparr>h_code := code, h_message := message\<rparr>\<rparr>)))"

definition Connect_ops :: "(64 word \<Rightarrow> string) \<Rightarrow> (ConnectContext, 's) Command" where
  "Connect_ops ip = Command_base\<lparr>
     cmd_prepare := \<lambda>_ (c, s). Some (Status_ok, c, s),
     cmd_execute := \<lambda>_ (c, s). Some (Status_ok, [], c, s),
     cmd_finish := \<lambda>_ _ (c, s). Some (Status_ok, c, s),
     ctx_initSuccessResponse := Connect_initSuccessResponse,
     ctx_fillResponseAndReply := Connect_fillResponseAndReply ip,
     ctx_getTargetKeys := \<lambda>_. Some [],
     ctx_getRequestHeader := \<lambda>c. mRequest c,
     ctx_skipPreExecuteCB := \<lambda>_. False\<rparr>"

end
