(* ===== verification/Temporal_Store.thy ===== *)
theory Temporal_Store
  imports KV_Store
begin

text \<open>
  \<^verbatim>\<open>kv-engine/store/TemporalKVStore\<close>: the private store of a transaction. It keeps the
  writes and deletes of the transaction and reads through to the store it was made over, so that a
  transaction sees its own writes before they are applied.

  The contract of the store is proved for any cache as delegate: the temporal store over a cache is
  a cache again.
\<close>

section \<open>The store\<close>

record TemporalKVStore =
  t_mData :: "KeyType \<Rightarrow> (ValueType \<times> VersionType \<times> TTLType \<times> TimeType \<times> TimeType) option"
  t_mUdfMetaMap :: "KeyType \<Rightarrow> UserDefinedMeta option"
  t_mDeletedData :: "KeyType set"

definition Temp_clear :: "TemporalKVStore \<Rightarrow> TemporalKVStore" where
  "Temp_clear t = t\<lparr>t_mData := Map.empty, t_mUdfMetaMap := Map.empty, t_mDeletedData := {}\<rparr>"

definition newTemporal :: TemporalKVStore where
  "newTemporal = \<lparr>t_mData = Map.empty, t_mUdfMetaMap = Map.empty, t_mDeletedData = {}\<rparr>"

definition Temp_writeTTLKV ::
  "KeyType \<Rightarrow> ValueType \<Rightarrow> VersionType \<Rightarrow> TTLType \<Rightarrow> TimeType \<Rightarrow> TimeType \<Rightarrow> UserDefinedMeta \<Rightarrow>
   TemporalKVStore \<Rightarrow> Status \<times> TemporalKVStore" where
  "Temp_writeTTLKV key v ver tt dl ut um t =
     (let t1 = t\<lparr>t_mData := (t_mData t)(key \<mapsto> (v, ver, tt, dl, ut))\<rparr>;
          t2 = (if uintfield um \<noteq> [] \<or> strfield um \<noteq> []
                then t1\<lparr>t_mUdfMetaMap := (t_mUdfMetaMap t1)(key \<mapsto> um)\<rparr> else t1)
      in (Status_ok, t2\<lparr>t_mDeletedData := t_mDeletedData t2 - {key}\<rparr>))"

definition Temp_writeKV ::
  "KeyType \<Rightarrow> ValueType \<Rightarrow> VersionType \<Rightarrow> TimeType \<Rightarrow> UserDefinedMeta \<Rightarrow> TemporalKVStore \<Rightarrow> Status \<times> TemporalKVStore" where
  "Temp_writeKV key v ver ut um t = Temp_writeTTLKV key v ver INFINITE_TTL NEVER_EXPIRE ut um t"

definition Temp_deleteKV :: "KeyType \<Rightarrow> VersionType \<Rightarrow> VersionType \<Rightarrow> TemporalKVStore \<Rightarrow> Status \<times> TemporalKVStore" where
  "Temp_deleteKV key recVer ver t =
     (Status_ok, t\<lparr>t_mData := (t_mData t)(key := None), t_mUdfMetaMap := (t_mUdfMetaMap t)(key := None),
                   t_mDeletedData := insert key (t_mDeletedData t)\<rparr>)"

definition Temp_readKV ::
  "'d KVStore \<Rightarrow> TimeType \<Rightarrow> KeyType \<Rightarrow> ReadOut \<Rightarrow> TemporalKVStore \<times> 'd \<Rightarrow>
   (Status \<times> ReadOut \<times> TemporalKVStore \<times> 'd) option" where
  "Temp_readKV D now key out = (\<lambda>(t, d). case t_mData t key of
      None \<Rightarrow>
        if key \<in> t_mDeletedData t then Some (Status_notFound (notFoundMsg key), out, t, d)
        else do { (st, out', d') \<leftarrow> kv_readKV D now key out d; Some (st, out', t, d') }
    | Some (v, ver, tt, dl, ut) \<Rightarrow>
        if isTimeOut now dl tt
        then Some (Status_notFound (notFoundMsg key), out, t\<lparr>t_mData := (t_mData t)(key := None)\<rparr>, d)
        else Some (Status_ok, \<lparr>outValue = v, outTTL = tt, outVersion = ver\<rparr>, t, d))"

definition Temp_readKVFromProxy ::
  "'d KVStore \<Rightarrow> TimeType \<Rightarrow> KeyType \<Rightarrow> ReadOut \<Rightarrow> TemporalKVStore \<times> 'd \<Rightarrow>
   (Status \<times> ReadOut \<times> TemporalKVStore \<times> 'd) option" where
  "Temp_readKVFromProxy D now key out = (\<lambda>(t, d). do {
     (st, out', d') \<leftarrow> kv_readKV D now key out d;
     Some (st, out', t, d')
   })"

definition onTemp :: "(TemporalKVStore \<Rightarrow> Status \<times> TemporalKVStore) \<Rightarrow> TemporalKVStore \<times> 'd \<Rightarrow>
    (Status \<times> TemporalKVStore \<times> 'd) option" where
  "onTemp f = (\<lambda>(t, d). let (st, t') = f t in Some (st, t', d))"

definition onDelegate :: "('d \<Rightarrow> (Status \<times> 'a \<times> 'd) option) \<Rightarrow> TemporalKVStore \<times> 'd \<Rightarrow>
    (Status \<times> 'a \<times> TemporalKVStore \<times> 'd) option" where
  "onDelegate f = (\<lambda>(t, d). do { (st, x, d') \<leftarrow> f d; Some (st, x, t, d') })"

text \<open>The method table: \<^verbatim>\<open>readMeta\<close> and \<^verbatim>\<open>loadMilestone\<close> are the proxy's,
  \<^verbatim>\<open>commit\<close> ends the process.\<close>

definition Temporal_ops :: "'d KVStore \<Rightarrow> (TemporalKVStore \<times> 'd) KVStore" where
  "Temporal_ops D = KVStore_base\<lparr>
     kv_open := onTemp (\<lambda>t. (Status_ok, Temp_clear t)),
     kv_close := onTemp (\<lambda>t. (Status_ok, Temp_clear t)),
     kv_writeKV := \<lambda>k v ver ut um. onTemp (Temp_writeKV k v ver ut um),
     kv_writeTTLKV := \<lambda>k v ver tt dl ut um. onTemp (Temp_writeTTLKV k v ver tt dl ut um),
     kv_readKV := Temp_readKV D,
     kv_readKVFromProxy := Temp_readKVFromProxy D,
     kv_deleteKV := \<lambda>k recVer ver. onTemp (Temp_deleteKV k recVer ver),
     kv_readMeta := \<lambda>k m. onDelegate (kv_readMeta D k m),
     kv_loadMilestone := \<lambda>m. onDelegate (kv_loadMilestone D m),
     kv_clear := \<lambda>(t, d). Some (Temp_clear t, d)\<rparr>"

lemma Temporal_ops_sel [simp]:
  "kv_writeKV (Temporal_ops D) = (\<lambda>k v ver ut um. onTemp (Temp_writeKV k v ver ut um))"
  "kv_writeTTLKV (Temporal_ops D) = (\<lambda>k v ver tt dl ut um. onTemp (Temp_writeTTLKV k v ver tt dl ut um))"
  "kv_readKV (Temporal_ops D) = Temp_readKV D"
  "kv_readKVFromProxy (Temporal_ops D) = Temp_readKVFromProxy D"
  "kv_deleteKV (Temporal_ops D) = (\<lambda>k recVer ver. onTemp (Temp_deleteKV k recVer ver))"
  by (simp_all add: Temporal_ops_def)

section \<open>Contract\<close>

definition Temp_view :: "('d \<Rightarrow> View) \<Rightarrow> TemporalKVStore \<times> 'd \<Rightarrow> View" where
  "Temp_view view = (\<lambda>(t, d) k. case t_mData t k of
      Some (v, ver, tt, dl, ut) \<Rightarrow> Some (v, ver, tt, dl)
    | None \<Rightarrow> if k \<in> t_mDeletedData t then None else view d k)"

definition Temp_inv :: "('d \<Rightarrow> bool) \<Rightarrow> TemporalKVStore \<times> 'd \<Rightarrow> bool" where
  "Temp_inv cinv = (\<lambda>(t, d). cinv d)"

definition Temp_resident :: "('d \<Rightarrow> KeyType \<Rightarrow> bool) \<Rightarrow> TemporalKVStore \<times> 'd \<Rightarrow> KeyType \<Rightarrow> bool" where
  "Temp_resident resident = (\<lambda>(t, d) k. t_mData t k \<noteq> None \<or> k \<notin> t_mDeletedData t \<and> resident d k)"

lemma Temp_new [simp]:
  "Temp_view view (newTemporal, d) = view d"
  "Temp_inv cinv (newTemporal, d) = cinv d"
  "Temp_resident resident (newTemporal, d) = resident d"
  by (auto simp: Temp_view_def Temp_inv_def Temp_resident_def newTemporal_def)

lemma Temp_write_effect:
  assumes "Temp_inv cinv s"
  shows "\<exists>s'. onTemp (Temp_writeTTLKV k v ver tt dl ut um) s = Some (Status_ok, s') \<and> Temp_inv cinv s' \<and>
           Temp_view view s' = (Temp_view view s)(k \<mapsto> (v, ver, tt, dl)) \<and>
           Temp_resident resident s' = (Temp_resident resident s)(k := True)"
  using assms
  by (cases s) (auto simp: onTemp_def Temp_writeTTLKV_def Let_def Temp_view_def Temp_resident_def Temp_inv_def fun_eq_iff)

lemma Temp_delete_effect:
  assumes "Temp_inv cinv s"
  shows "\<exists>s'. onTemp (Temp_deleteKV k recVer ver) s = Some (Status_ok, s') \<and> Temp_inv cinv s' \<and>
           Temp_view view s' = (Temp_view view s)(k := None) \<and>
           (\<forall>k'. k' \<noteq> k \<longrightarrow> Temp_resident resident s' k' = Temp_resident resident s k')"
  using assms
  by (cases s) (auto simp: onTemp_def Temp_deleteKV_def Temp_view_def Temp_resident_def Temp_inv_def fun_eq_iff)

lemma Temp_same_view:
  assumes "view d' = view d"
  shows "Temp_view view (t, d') = Temp_view view (t, d)"
  unfolding Temp_view_def prod.case assms ..

lemma Temp_same_resident:
  assumes "resident d' = resident d"
  shows "Temp_resident resident (t, d') = Temp_resident resident (t, d)"
  unfolding Temp_resident_def prod.case assms ..

context kv_cache
begin

lemma Temp_read_hit:
  assumes "Temp_inv inv (t, s)" and v: "Temp_view view (t, s) k = Some (v, ver, tt, dl)" and nt: "\<not> isTimeOut now dl tt"
  shows "\<exists>tt' s'. Temp_readKV (ReadOnlyKVStore K) now k out (t, s) =
             Some (Status_ok, \<lparr>outValue = v, outTTL = tt', outVersion = ver\<rparr>, t, s') \<and>
           inv s' \<and> view s' = view s \<and> resident s' = resident s \<and> (Temp_resident resident (t, s) k \<longrightarrow> tt' = tt)"
proof (cases "t_mData t k")
  case None
  then have d: "k \<notin> t_mDeletedData t" "view s k = Some (v, ver, tt, dl)" "inv s"
    using assms by (auto simp: Temp_view_def Temp_inv_def split: if_splits)
  from readKV_hit [OF d(3,2) nt, of out] None d(1) show ?thesis
    by (auto simp: Temp_readKV_def Temp_resident_def)
next
  case (Some p)
  then show ?thesis
    using assms by (cases p) (auto simp: Temp_readKV_def Temp_view_def Temp_inv_def)
qed

lemma Temp_read_miss:
  assumes "Temp_inv inv (t, s)"
    and v: "case Temp_view view (t, s) k of None \<Rightarrow> True | Some (v, ver, tt, dl) \<Rightarrow> isTimeOut now dl tt"
  shows "\<exists>st out' t' s'. Temp_readKV (ReadOnlyKVStore K) now k out (t, s) = Some (st, out', t', s') \<and> isNotFound st \<and>
           Temp_inv inv (t', s') \<and>
           (\<forall>k'. k' \<noteq> k \<longrightarrow> Temp_view view (t', s') k' = Temp_view view (t, s) k' \<and>
                            Temp_resident resident (t', s') k' = Temp_resident resident (t, s) k') \<and>
           (Temp_view view (t, s) k = None \<longrightarrow> Temp_view view (t', s') k = None)"
proof (cases "t_mData t k")
  case None
  show ?thesis
  proof (cases "k \<in> t_mDeletedData t")
    case True
    then show ?thesis
      using None assms by (auto simp: Temp_readKV_def)
  next
    case False
    then have d: "inv s" "case view s k of None \<Rightarrow> True | Some (v, ver, tt, dl) \<Rightarrow> isTimeOut now dl tt"
      using assms None by (simp_all add: Temp_view_def Temp_inv_def)
    from readKV_miss [OF d, of out] obtain st out' s' where
      r: "kv_readKV K now k out s = Some (st, out', s')" "isNotFound st" "inv s'"
        "\<forall>k'. k' \<noteq> k \<longrightarrow> view s' k' = view s k' \<and> resident s' k' = resident s k'"
        "view s k = None \<longrightarrow> view s' k = None"
      by (elim exE conjE) (rule that)
    have "Temp_readKV (ReadOnlyKVStore K) now k out (t, s) = Some (st, out', t, s')"
      by (simp add: Temp_readKV_def None False r(1))
    moreover have "Temp_view view (t, s') k' = Temp_view view (t, s) k'"
      "Temp_resident resident (t, s') k' = Temp_resident resident (t, s) k'" if "k' \<noteq> k" for k'
      using r(4) that by (simp_all add: Temp_view_def Temp_resident_def cong: option.case_cong)
    moreover have "Temp_view view (t, s) k = None \<longrightarrow> Temp_view view (t, s') k = None"
      using r(5) by (simp add: Temp_view_def None)
    ultimately show ?thesis
      using r(2,3) by (auto simp: Temp_inv_def)
  qed
next
  case (Some p)
  then show ?thesis
    using assms by (cases p) (auto simp: Temp_readKV_def Temp_view_def Temp_inv_def Temp_resident_def)
qed

text \<open>A temporal store over a cache is a cache.\<close>

lemma temporal_cache:
  "kv_cache (Temporal_ops (ReadOnlyKVStore K)) (Temp_inv inv) (Temp_view view) (\<lambda>_ _ _ _ _ _. True) (Temp_resident resident)"
proof (unfold_locales, goal_cases)
  case (1 s k ver ut um v)
  show ?case
    unfolding Temporal_ops_sel Temp_writeKV_def by (rule Temp_write_effect [OF 1(1)])
next
  case (2 s k ver t dl ut um v)
  show ?case
    unfolding Temporal_ops_sel by (rule Temp_write_effect [OF 2(1)])
next
  case (3 s k recVer ver)
  show ?case
    unfolding Temporal_ops_sel by (rule Temp_delete_effect [OF 3(1)])
next
  case (4 s k v ver t dl now out)
  obtain tm s0 where s: "s = (tm, s0)"
    by (cases s)
  from Temp_read_hit [OF 4 [unfolded s], of out] obtain t' s1 where
    r: "Temp_readKV (ReadOnlyKVStore K) now k out (tm, s0) =
          Some (Status_ok, \<lparr>outValue = v, outTTL = t', outVersion = ver\<rparr>, tm, s1)"
      "inv s1" "view s1 = view s0" "resident s1 = resident s0" "Temp_resident resident (tm, s0) k \<longrightarrow> t' = t"
    by (elim exE conjE) (rule that)
  have "Temp_view view (tm, s1) = Temp_view view (tm, s0)" "Temp_resident resident (tm, s1) = Temp_resident resident (tm, s0)"
    "Temp_inv inv (tm, s1)"
    using r(2) Temp_same_view [of view, OF r(3)] Temp_same_resident [of resident, OF r(4)] by (simp_all add: Temp_inv_def)
  with r(1,5) show ?case
    unfolding s Temporal_ops_sel by (intro exI [of _ t'] exI [of _ "(tm, s1)"] conjI)
next
  case (5 s k now out)
  obtain tm s0 where s: "s = (tm, s0)"
    by (cases s)
  from Temp_read_miss [OF 5 [unfolded s], of out] show ?case
    unfolding s Temporal_ops_sel by (elim exE) (rule exI, rule exI, rule exI, assumption)
qed

end

end
