(* ===== verification/Trans_Command.thy ===== *)
theory Trans_Command
  imports Commands Temporal_Store
begin

text \<open>
  \<^verbatim>\<open>kv-engine/model/KVTransCommand\<close>: a transaction checks its preconditions on the store and
  then runs its entries in order over a private \<^verbatim>\<open>TemporalKVStore\<close>, gathering one event per
  entry. The keys that a user-meta condition tells to ignore become no-op writes.
\<close>

record TransContext = "(TransRequest, TransResponse) Context" +
  ignoredPutKeys :: "KeyType set"
  ignoredUdfUintKeys :: "KeyType set"
  udfUintKey2Meta :: "KeyType \<Rightarrow> UserDefinedMeta option"

definition newTrans :: "TransRequest \<Rightarrow> TransContext" where
  "newTrans req = \<lparr>mRequest = req,
     mResponse = \<lparr>trr_header = emptyHeader, trr_results = [], trr_ignoredPutKeys = {}\<rparr>, mReplies = [],
     ignoredPutKeys = {}, ignoredUdfUintKeys = {}, udfUintKey2Meta = Map.empty\<rparr>"

section \<open>The response\<close>

text \<open>The result of one entry: with the versions the transaction gave to the keys it wrote before,
  the latest version so far, the entry and its event. A cast to the wrong class of event ends the
  process.\<close>

definition Trans_entryResult ::
  "bool \<Rightarrow> (KeyType \<Rightarrow> VersionType option) \<Rightarrow> VersionType \<Rightarrow> ReadWriteEntry \<Rightarrow> Event \<Rightarrow>
   (ReadWriteResult \<times> (KeyType \<Rightarrow> VersionType option) \<times> VersionType) option" where
  "Trans_entryResult isMetaReturned newKey2version latestVersion entry e = (case entry of
      RWWrite _ \<Rightarrow> (case e of
          EvWrite w \<Rightarrow> Some (RRWrite (emptyWriteResult\<lparr>wr_version := we_version w, wr_code := RC_OK\<rparr>),
                             newKey2version(we_key w \<mapsto> we_version w), max (we_version w) latestVersion)
        | _ \<Rightarrow> None)
    | RWRead _ \<Rightarrow> (case e of
          EvRead rd \<Rightarrow>
            let valueVersion = (case newKey2version (re_key rd) of Some v \<Rightarrow> v | None \<Rightarrow> re_version rd);
                res = emptyReadResult\<lparr>rr_value := re_value rd, rr_version := valueVersion\<rparr>;
                res' = (if re_isNotFound rd then res\<lparr>rr_code := RC_KEY_NOT_EXIST, rr_version := kInvalidVersion\<rparr>
                        else if isMetaReturned then appendMeta rd (res\<lparr>rr_code := RC_OK\<rparr>) else res\<lparr>rr_code := RC_OK\<rparr>)
            in Some (RRRead res', newKey2version, max valueVersion latestVersion)
        | _ \<Rightarrow> None)
    | RWRemove _ \<Rightarrow> (case e of
          EvRead rd \<Rightarrow> do {
            assert (re_isNotFound rd);
            Some (RRRemove (emptyRemoveResult\<lparr>dr_code := RC_KEY_NOT_EXIST, dr_version := kInvalidVersion\<rparr>),
                  newKey2version, max (re_version rd) latestVersion)
          }
        | EvDelete d \<Rightarrow>
            Some (RRRemove (emptyRemoveResult\<lparr>dr_value := de_deletedValue d, dr_version := de_deletedVersion d, dr_code := RC_OK\<rparr>),
                  newKey2version, max (de_version d) latestVersion)
        | _ \<Rightarrow> None)
    | RWUnset \<Rightarrow> None)"

fun Trans_results ::
  "bool \<Rightarrow> (KeyType \<Rightarrow> VersionType option) \<Rightarrow> VersionType \<Rightarrow> ReadWriteEntry list \<Rightarrow> Event list \<Rightarrow>
   (ReadWriteResult list \<times> VersionType) option" where
  "Trans_results mr nk latest (entry # entries) (e # es) = do {
     (res, nk', latest') \<leftarrow> Trans_entryResult mr nk latest entry e;
     (ress, latest'') \<leftarrow> Trans_results mr nk' latest' entries es;
     Some (res # ress, latest'')
   }"
| "Trans_results mr nk latest _ _ = Some ([], latest)"

definition Trans_initSuccessResponse :: "VersionType \<Rightarrow> Event list \<Rightarrow> TransContext \<Rightarrow> TransContext option" where
  "Trans_initSuccessResponse curMaxVersion events c =
     (let r = mResponse c; h = (trr_header r)\<lparr>h_code := RC_OK\<rparr>; req = mRequest c
      in do {
        (results, latestVersion) \<leftarrow>
          (if events \<noteq> [] then do {
             assert (length events = length (tr_entries req));
             Trans_results (tr_isMetaReturned req) Map.empty curMaxVersion (tr_entries req) events
           }
           else Some ([], curMaxVersion));
        Some (c\<lparr>mResponse := \<lparr>trr_header = h\<lparr>h_latestVersion := latestVersion\<rparr>,
                             trr_results = trr_results r @ results,
                             trr_ignoredPutKeys = trr_ignoredPutKeys r \<union> ignoredPutKeys c\<rparr>\<rparr>)
      })"

fun setResultCode :: "ResponseCode \<Rightarrow> ReadWriteResult \<Rightarrow> ReadWriteResult" where
  "setResultCode code (RRWrite r) = RRWrite (r\<lparr>wr_code := code\<rparr>)"
| "setResultCode code (RRRead r) = RRRead (r\<lparr>rr_code := code\<rparr>)"
| "setResultCode code (RRRemove r) = RRRemove (r\<lparr>dr_code := code\<rparr>)"

definition Trans_fillResponseAndReply ::
  "(64 word \<Rightarrow> string) \<Rightarrow> ResponseCode \<Rightarrow> string \<Rightarrow> 64 word option \<Rightarrow> TransContext \<Rightarrow> TransContext option" where
  "Trans_fillResponseAndReply ip code message leaderId c = do {
     h \<leftarrow> fillHeader RC_WRONG_ROUTE ip code message leaderId (trr_header (mResponse c));
     let r = (mResponse c)\<lparr>trr_header := h\<rparr>;
     Some (callback (c\<lparr>mResponse := (if code \<noteq> RC_OK then r\<lparr>trr_results := map (setResultCode code) (trr_results r)\<rparr> else r)\<rparr>))
   }"

section \<open>Keys\<close>

definition Trans_isFollowerReadCmd :: "('x) TransContext_scheme \<Rightarrow> bool" where
  "Trans_isFollowerReadCmd c =
     (tr_allowStale (mRequest c) \<and>
      list_all (\<lambda>entry. case entry of RWRead _ \<Rightarrow> True | _ \<Rightarrow> False) (tr_entries (mRequest c)))"

fun condKeys :: "Precondition \<Rightarrow> KeyType list" where
  "condKeys (VersionCond key _ _) = [key]"
| "condKeys (ExistCond key _) = [key]"
| "condKeys (UserMetaCond u) = [umc_key u]"
| "condKeys CondUnset = []"

fun entryKey :: "ReadWriteEntry \<Rightarrow> KeyType option" where
  "entryKey (RWWrite e) = Some (wen_key e)"
| "entryKey (RWRead e) = Some (ren_key e)"
| "entryKey (RWRemove e) = Some (den_key e)"
| "entryKey RWUnset = None"

definition Trans_getTargetKeys :: "TransContext \<Rightarrow> KeyType list option" where
  "Trans_getTargetKeys c =
     (let entries = tr_entries (mRequest c)
      in do {
        assert (list_all (\<lambda>e. entryKey e \<noteq> None) entries);
        Some (std_set (concat (map condKeys (tr_preconds (mRequest c))) @ map (the \<circ> entryKey) entries))
      })"

section \<open>Preconditions\<close>

text \<open>The template helpers: \<open>proxy\<close> selects the methods that go to the delegate.\<close>

definition Trans_readKV :: "'s KVStore \<Rightarrow> bool \<Rightarrow> TimeType \<Rightarrow> KeyType \<Rightarrow> ReadOut \<Rightarrow> 's \<Rightarrow> (Status \<times> ReadOut \<times> 's) option" where
  "Trans_readKV K proxy now key out s = (if proxy then kv_readKVFromProxy K now key out s else kv_readKV K now key out s)"

definition Trans_readMeta :: "'s KVStore \<Rightarrow> bool \<Rightarrow> KeyType \<Rightarrow> Meta \<Rightarrow> 's \<Rightarrow> (Status \<times> Meta \<times> 's) option" where
  "Trans_readMeta K proxy key meta s = (if proxy then kv_readMetaFromProxy K key meta s else kv_readMeta K key meta s)"

definition unmatchedVersionMsg :: "VersionType \<Rightarrow> VersionType \<Rightarrow> string" where
  "unmatchedVersionMsg ver expected =
     ''unmatched version, existing: '' @ to_string (unat ver) @ '', expected: '' @ to_string (unat expected)"

definition existMsg :: "bool \<Rightarrow> Status \<Rightarrow> string" where
  "existMsg shouldExist st =
     ''shouldExist: '' @ to_string (if shouldExist then 1 else 0) @ '', query result: '' @ mMsg st"

text \<open>Comparing the number at a position of the stored and of the given user meta. The first
  component tells whether the loop is left. A position that the stored meta has not, when it has no
  number at all, is used as an index nevertheless.\<close>

definition compareUintField ::
  "Status \<Rightarrow> UserMetaCondition \<Rightarrow> UserDefinedMeta \<Rightarrow> TransContext \<Rightarrow> (bool \<times> Status \<times> TransContext) option" where
  "compareUintField st u stored c =
     (let expected = uintfield stored; provided = uintfield (umc_udfMeta u); pos = unat (umc_pos u); key = umc_key u
      in if expected = [] then
           (if length provided \<le> pos then Some (True, Status_error ''out of index error'', c) else None)
         else if length expected \<le> pos \<or> length provided \<le> pos then
           Some (True, Status_error ''out of index error'', c)
         else if umc_op u = CMP_GREATER then
           (if provided ! pos \<le> expected ! pos then
              Some (False, st, c\<lparr>ignoredUdfUintKeys := insert key (ignoredUdfUintKeys c),
                                 ignoredPutKeys := insert key (ignoredPutKeys c)\<rparr>)
            else Some (False, st, c\<lparr>udfUintKey2Meta := (udfUintKey2Meta c)(key \<mapsto> umc_udfMeta u)\<rparr>))
         else Some (True, Status_notSupported [], c))"

text \<open>One condition: whether the loop is left, the status, the keys with a user-meta condition so
  far, the command and the store.\<close>

definition Trans_checkCond ::
  "'s KVStore \<Rightarrow> TimeType \<Rightarrow> bool \<Rightarrow> Precondition \<Rightarrow> KeyType set \<Rightarrow> TransContext \<Rightarrow> 's \<Rightarrow>
   (bool \<times> Status \<times> KeyType set \<times> TransContext \<times> 's) option" where
  "Trans_checkCond K now proxy cond udfKeySet c s = (case cond of
      VersionCond key expectedVersion op \<Rightarrow> do {
        (st, out, s') \<leftarrow> Trans_readKV K proxy now key noRead s;
        Some (if \<not> isOK st then (True, Status_precondUnmatched (mMsg st), udfKeySet, c, s')
              else if op = CMP_EQUAL then
                (if expectedVersion \<noteq> outVersion out
                 then (True, Status_precondUnmatched (unmatchedVersionMsg (outVersion out) expectedVersion), udfKeySet, c, s')
                 else (False, st, udfKeySet, c, s'))
              else (True, Status_notSupported [], udfKeySet, c, s'))
      }
    | ExistCond key shouldExist \<Rightarrow> do {
        (st, out, s') \<leftarrow> Trans_readKV K proxy now key noRead s;
        Some (if shouldExist \<and> isOK st \<or> \<not> shouldExist \<and> isNotFound st then (False, Status_ok, udfKeySet, c, s')
              else (True, Status_precondUnmatched (existMsg shouldExist st), udfKeySet, c, s'))
      }
    | UserMetaCond u \<Rightarrow>
        if umc_key u \<in> udfKeySet then Some (True, Status_notSupported [], udfKeySet, c, s)
        else do {
          (st, out, s1) \<leftarrow> Trans_readKV K proxy now (umc_key u) noRead s;
          let ks = insert (umc_key u) udfKeySet;
          if isNotFound st then Some (False, Status_ok, ks, c, s1)
          else do {
            (mst, meta, s2) \<leftarrow> Trans_readMeta K proxy (umc_key u) defaultMeta s1;
            case meta_udfMeta meta of
              None \<Rightarrow> Some (False, Status_ok, ks, c, s2)
            | Some stored \<Rightarrow>
                if isNotFound mst then Some (False, Status_ok, ks, c, s2)
                else if umc_metaType u = NUM then do {
                  (brk, st', c') \<leftarrow> compareUintField mst u stored c;
                  Some (brk, st', ks, c', s2)
                }
                else Some (True, Status_notSupported [], ks, c, s2)
          }
        }
    | CondUnset \<Rightarrow> Some (True, Status_notSupported [], udfKeySet, c, s))"

primrec Trans_checkLoop ::
  "'s KVStore \<Rightarrow> TimeType \<Rightarrow> bool \<Rightarrow> Precondition list \<Rightarrow> Status \<Rightarrow> KeyType set \<Rightarrow> TransContext \<Rightarrow> 's \<Rightarrow>
   (Status \<times> TransContext \<times> 's) option" where
  "Trans_checkLoop K now proxy [] st ks c s = Some (st, c, s)"
| "Trans_checkLoop K now proxy (cond # conds) st ks c s = do {
     (brk, st', ks', c', s') \<leftarrow> Trans_checkCond K now proxy cond ks c s;
     if brk then Some (st', c', s') else Trans_checkLoop K now proxy conds st' ks' c' s'
   }"

definition Trans_checkPrecond :: "'s KVStore \<Rightarrow> TimeType \<Rightarrow> TransContext \<times> 's \<Rightarrow> (Status \<times> TransContext \<times> 's) option" where
  "Trans_checkPrecond K now = (\<lambda>(c, s).
     Trans_checkLoop K now (Trans_isFollowerReadCmd c) (tr_preconds (mRequest c)) Status_ok {} c s)"

section \<open>Execution\<close>

text \<open>\<^verbatim>\<open>std::equal\<close> with three iterators: it reads the second sequence as far as the first one
  goes, past its end if need be.\<close>

fun std_equal :: "'a list \<Rightarrow> 'a list \<Rightarrow> bool option" where
  "std_equal [] ys = Some True"
| "std_equal (x # xs) [] = None"
| "std_equal (x # xs) (y # ys) = (if x = y then std_equal xs ys else Some False)"

text \<open>Whether the user meta written is the one a user-meta condition named for the key.\<close>

definition Trans_identical :: "TransContext \<Rightarrow> KeyType \<Rightarrow> UserDefinedMeta \<Rightarrow> bool option" where
  "Trans_identical c key um = (case udfUintKey2Meta c key of
      None \<Rightarrow> Some True
    | Some condUm \<Rightarrow> do {
        uintCmp \<leftarrow> std_equal (uintfield um) (uintfield condUm);
        strCmp \<leftarrow> std_equal (strfield um) (strfield condUm);
        Some (uintCmp \<and> strCmp)
      })"

text \<open>The write that later entries of the transaction read, and its event.\<close>

definition Trans_writeTemp ::
  "'s KVStore \<Rightarrow> TimeType \<Rightarrow> WriteEntry \<Rightarrow> bool \<Rightarrow> TTLType \<Rightarrow> TemporalKVStore \<times> 's \<Rightarrow>
   (Status \<times> Event list \<times> TemporalKVStore \<times> 's) option" where
  "Trans_writeTemp K now e enableTTL tt ts =
     (let key = wen_key e; v = wen_value e; um = wen_udfMeta e; dl = (if enableTTL then tt + now else NEVER_EXPIRE)
      in do {
        (st, ts') \<leftarrow>
          (if enableTTL then kv_writeTTLKV (Temporal_ops (ReadOnlyKVStore K)) key v kInvalidVersion tt dl now um ts
           else kv_writeKV (Temporal_ops (ReadOnlyKVStore K)) key v kInvalidVersion now um ts);
        Some (st, [EvWrite (newWriteEvent key v enableTTL tt dl now um False)], ts')
      })"

text \<open>One entry: whether the loop is left, the status, the events, the temporal store and the store.
  The status of an ignored write is the one of the entry before (\<open>st0\<close>). A read works on a copy of
  the temporal store.\<close>

definition Trans_writeEntry ::
  "'s KVStore \<Rightarrow> TimeType \<Rightarrow> TransContext \<Rightarrow> Status \<Rightarrow> WriteEntry \<Rightarrow> TemporalKVStore \<times> 's \<Rightarrow>
   (bool \<times> Status \<times> Event list \<times> TemporalKVStore \<times> 's) option" where
  "Trans_writeEntry K now c st0 e = (\<lambda>(t, s).
     let key = wen_key e; enableTTL = wen_enableTTL e; tt = (if enableTTL then wen_ttl e else INFINITE_TTL)
     in if key \<in> ignoredUdfUintKeys c then
          Some (False, st0, [EvWrite (newWriteEvent key (wen_value e) enableTTL tt NEVER_EXPIRE NOT_UPDATED DEFAULT_UDFMETA True)], t, s)
        else do {
          (st, enableTTL', tt', s1) \<leftarrow> fixTTL K now key enableTTL tt s;
          if \<not> (isOK st \<or> isNotFound st) then Some (True, st, [], t, s1)
          else do {
            identical \<leftarrow> Trans_identical c key (wen_udfMeta e);
            if \<not> identical then Some (True, Status_error ''udfmeta not identical'', [], t, s1)
            else do {
              (st', es, ts') \<leftarrow> Trans_writeTemp K now e enableTTL' tt' (t, s1);
              Some (False, st', es, ts')
            }
          }
        })"

definition Trans_readEntry ::
  "'s KVStore \<Rightarrow> TimeType \<Rightarrow> TransContext \<Rightarrow> ReadEntry \<Rightarrow> TemporalKVStore \<times> 's \<Rightarrow>
   (bool \<times> Status \<times> Event list \<times> TemporalKVStore \<times> 's) option" where
  "Trans_readEntry K now c e = (\<lambda>(t, s).
     let key = ren_key e; proxy = Trans_isFollowerReadCmd c
     in do {
       (st, out, _, s1) \<leftarrow> Trans_readKV (Temporal_ops (ReadOnlyKVStore K)) proxy now key noRead (t, s);
       (events, s2) \<leftarrow> readEvent K proxy (tr_isMetaReturned (mRequest c)) key st out s1;
       Some (\<not> (isOK st \<or> isNotFound st), st, events, t, s2)
     })"

definition Trans_removeEntry ::
  "'s KVStore \<Rightarrow> TimeType \<Rightarrow> RemoveEntry \<Rightarrow> TemporalKVStore \<times> 's \<Rightarrow>
   (bool \<times> Status \<times> Event list \<times> TemporalKVStore \<times> 's) option" where
  "Trans_removeEntry K now e ts = do {
     (st, out, t, s) \<leftarrow> kv_readKV (Temporal_ops (ReadOnlyKVStore K)) now (den_key e) noRead ts;
     Some (False, st, removeEvent (den_key e) (den_version e) True st out, t, s)
   }"

fun Trans_entry ::
  "'s KVStore \<Rightarrow> TimeType \<Rightarrow> TransContext \<Rightarrow> Status \<Rightarrow> ReadWriteEntry \<Rightarrow> TemporalKVStore \<times> 's \<Rightarrow>
   (bool \<times> Status \<times> Event list \<times> TemporalKVStore \<times> 's) option" where
  "Trans_entry K now c st0 (RWWrite e) ts = Trans_writeEntry K now c st0 e ts"
| "Trans_entry K now c st0 (RWRead e) ts = Trans_readEntry K now c e ts"
| "Trans_entry K now c st0 (RWRemove e) ts = Trans_removeEntry K now e ts"
| "Trans_entry K now c st0 RWUnset (t, s) = Some (True, Status_invalidArg ''invalid request'', [], t, s)"

primrec Trans_entries ::
  "'s KVStore \<Rightarrow> TimeType \<Rightarrow> TransContext \<Rightarrow> ReadWriteEntry list \<Rightarrow> Status \<Rightarrow> TemporalKVStore \<times> 's \<Rightarrow>
   (Status \<times> Event list \<times> TemporalKVStore \<times> 's) option" where
  "Trans_entries K now c [] st ts = Some (st, [], ts)"
| "Trans_entries K now c (entry # entries) st ts = do {
     (brk, st', es, ts') \<leftarrow> Trans_entry K now c st entry ts;
     if brk then Some (st', es, ts')
     else do {
       (st'', es', ts'') \<leftarrow> Trans_entries K now c entries st' ts';
       Some (st'', es @ es', ts'')
     }
   }"

definition Trans_execute ::
  "'s KVStore \<Rightarrow> TimeType \<Rightarrow> TransContext \<times> 's \<Rightarrow> (Status \<times> Event list \<times> TransContext \<times> 's) option" where
  "Trans_execute K now cs = do {
     (st, c, s) \<leftarrow> Trans_checkPrecond K now cs;
     if \<not> isOK st then Some (st, [], c, s)
     else do {
       (st', events, _, s') \<leftarrow> Trans_entries K now c (tr_entries (mRequest c)) st (newTemporal, s);
       Some (st', events, c, s')
     }
   }"

definition Trans_ops :: "(64 word \<Rightarrow> string) \<Rightarrow> 's KVStore \<Rightarrow> (TransContext, 's) Command" where
  "Trans_ops ip K = Command_base\<lparr>
     cmd_isFollowerReadCmd := Trans_isFollowerReadCmd,
     cmd_prepare := \<lambda>_. lockTargets K Trans_getTargetKeys True,
     cmd_execute := Trans_execute K,
     cmd_finish := \<lambda>_. applyAndUnlock K Trans_getTargetKeys True,
     ctx_initSuccessResponse := Trans_initSuccessResponse,
     ctx_fillResponseAndReply := Trans_fillResponseAndReply ip,
     ctx_getTargetKeys := Trans_getTargetKeys,
     ctx_getRequestHeader := \<lambda>c. tr_header (mRequest c),
     ctx_skipPreExecuteCB := \<lambda>_. False\<rparr>"

end
