(* ===== verification/Generate_Command.thy ===== *)
theory Generate_Command
  imports Trans_Command
begin

text \<open>
  \<^verbatim>\<open>kv-engine/model/KVGenerateCommand\<close>: reads source keys, runs a user-defined function that
  makes the values to write, locks sources and targets, checks that the sources are still at the
  versions that were read and writes. The user-defined function is the argument \<open>generate\<close>; the
  one instance the repository has is \<^verbatim>\<open>object-store/model/user-define/TransferCommand\<close>,
  modelled at the end.
\<close>

text \<open>\<^verbatim>\<open>std::map\<close> as an association list in the order of the keys: \<^verbatim>\<open>m[k] = v\<close>.\<close>

fun map_put :: "('k::linorder) \<Rightarrow> 'v \<Rightarrow> ('k \<times> 'v) list \<Rightarrow> ('k \<times> 'v) list" where
  "map_put k v [] = [(k, v)]"
| "map_put k v (p # m) =
     (if k < fst p then (k, v) # p # m else if k = fst p then (k, v) # m else p # map_put k v m)"

type_synonym KVsToRead = "(KeyType \<times> ValueType \<times> VersionType) list"
type_synonym KVsToWrite = "(KeyType \<times> ValueType) list"
type_synonym GenerateFunc = "KVsToRead \<Rightarrow> string \<Rightarrow> KVsToWrite \<times> string \<Rightarrow> (Status \<times> KVsToWrite \<times> string) option"

record GenerateContext = "(GenerateRequest, GenerateResponse) Context" +
  mKVsToRead :: KVsToRead
  mKVsToWrite :: KVsToWrite
  mOutputInfo :: string

definition newGenerate :: "GenerateRequest \<Rightarrow> GenerateContext" where
  "newGenerate req = \<lparr>mRequest = req,
     mResponse = \<lparr>genr_header = emptyHeader, genr_code = RC_UNKNOWN, genr_outputInfo = []\<rparr>, mReplies = [],
     mKVsToRead = [], mKVsToWrite = [], mOutputInfo = []\<rparr>"

definition Generate_initSuccessResponse :: "VersionType \<Rightarrow> Event list \<Rightarrow> GenerateContext \<Rightarrow> GenerateContext option" where
  "Generate_initSuccessResponse curMaxVersion events c = do {
     assert (list_all (\<lambda>e. getType e = WRITE) events);
     let h = genr_header (mResponse c);
     Some (c\<lparr>mResponse := \<lparr>genr_header = h\<lparr>h_code := RC_OK, h_latestVersion := curMaxVersion\<rparr>,
                          genr_code = RC_OK, genr_outputInfo = mOutputInfo c\<rparr>\<rparr>)
   }"

definition Generate_fillResponseAndReply ::
  "(64 word \<Rightarrow> string) \<Rightarrow> ResponseCode \<Rightarrow> string \<Rightarrow> 64 word option \<Rightarrow> GenerateContext \<Rightarrow> GenerateContext option" where
  "Generate_fillResponseAndReply ip code message leaderId c = do {
     h \<leftarrow> fillHeader RC_WRONG_ROUTE ip code message leaderId (genr_header (mResponse c));
     let r = (mResponse c)\<lparr>genr_header := h\<rparr>;
     Some (callback (c\<lparr>mResponse := (if code \<noteq> RC_OK then r\<lparr>genr_code := code\<rparr> else r)\<rparr>))
   }"

definition Generate_getTargetKeys :: "GenerateContext \<Rightarrow> KeyType list option" where
  "Generate_getTargetKeys c = Some (std_set (gen_srcKeys (mRequest c) @ gen_tgtKeys (mRequest c)))"

section \<open>prepare\<close>

primrec Generate_readSources ::
  "'s KVStore \<Rightarrow> TimeType \<Rightarrow> KeyType list \<Rightarrow> KVsToRead \<Rightarrow> 's \<Rightarrow> (Status \<times> KVsToRead \<times> 's) option" where
  "Generate_readSources K now [] m s = Some (Status_ok, m, s)"
| "Generate_readSources K now (key # keys) m s = do {
     (st, out, s') \<leftarrow> kv_readKV K now key noRead s;
     if \<not> isOK st then
       Some (if isNotFound st then Status_invalidArg ''the src keys not exist'' else st, m, s')
     else Generate_readSources K now keys (map_put key (outValue out, outVersion out) m) s'
   }"

definition Generate_prepare ::
  "'s KVStore \<Rightarrow> GenerateFunc \<Rightarrow> TimeType \<Rightarrow> GenerateContext \<times> 's \<Rightarrow> (Status \<times> GenerateContext \<times> 's) option" where
  "Generate_prepare K generate now = (\<lambda>(c, s). do {
     (st, kvsToRead, s1) \<leftarrow> Generate_readSources K now (gen_srcKeys (mRequest c)) (mKVsToRead c) s;
     let c1 = c\<lparr>mKVsToRead := kvsToRead\<rparr>;
     if \<not> isOK st then Some (st, c1, s1)
     else do {
       (st2, kvsToWrite, outputInfo) \<leftarrow> generate kvsToRead (gen_inputInfo (mRequest c1)) (mKVsToWrite c1, mOutputInfo c1);
       let c2 = c1\<lparr>mKVsToWrite := kvsToWrite, mOutputInfo := outputInfo\<rparr>;
       if \<not> isOK st2 then Some (st2, c2, s1)
       else do {
         same \<leftarrow> std_equal (std_set (gen_tgtKeys (mRequest c2))) (std_set (map fst kvsToWrite));
         if \<not> same then Some (Status_notSupported ''generated keys should be same as tgt keys'', c2, s1)
         else lockTargets K Generate_getTargetKeys True (c2, s1)
       }
     }
   })"

section \<open>execute\<close>

primrec Generate_checkReads ::
  "'s KVStore \<Rightarrow> TimeType \<Rightarrow> KVsToRead \<Rightarrow> 's \<Rightarrow> (Status \<times> 's) option" where
  "Generate_checkReads K now [] s = Some (Status_ok, s)"
| "Generate_checkReads K now (p # ps) s = (case p of (key, expectedValue, expectedVersion) \<Rightarrow> do {
     (st, out, s') \<leftarrow> kv_readKV K now key noRead s;
     if \<not> isOK st then Some (st, s')
     else if expectedVersion \<noteq> outVersion out then
       Some (Status_precondUnmatched (unmatchedVersionMsg (outVersion out) expectedVersion), s')
     else Generate_checkReads K now ps s'
   })"

primrec Generate_writes ::
  "'s KVStore \<Rightarrow> TimeType \<Rightarrow> KVsToWrite \<Rightarrow> 's \<Rightarrow> (Status \<times> Event list \<times> 's) option" where
  "Generate_writes K now [] s = Some (Status_ok, [], s)"
| "Generate_writes K now (p # ps) s = (case p of (key, v) \<Rightarrow> do {
     (st, meta, s') \<leftarrow> kv_readMeta K key defaultMeta s;
     if \<not> (isOK st \<or> isNotFound st) then Some (st, [], s')
     else do {
       let tt = (if isOK st \<and> meta_ttl meta \<noteq> INFINITE_TTL \<and> now < meta_deadline meta then meta_ttl meta else INFINITE_TTL);
       let enableTTL = (tt \<noteq> INFINITE_TTL);
       let dl = (if enableTTL then tt + now else NEVER_EXPIRE);
       (st', es, s'') \<leftarrow> Generate_writes K now ps s';
       Some (st', EvWrite (newWriteEvent key v enableTTL tt dl NOT_UPDATED DEFAULT_UDFMETA False) # es, s'')
     }
   })"

definition Generate_execute ::
  "'s KVStore \<Rightarrow> TimeType \<Rightarrow> GenerateContext \<times> 's \<Rightarrow> (Status \<times> Event list \<times> GenerateContext \<times> 's) option" where
  "Generate_execute K now = (\<lambda>(c, s). do {
     (st, s1) \<leftarrow> Generate_checkReads K now (mKVsToRead c) s;
     if \<not> isOK st then Some (st, [], c, s1)
     else do {
       (st', events, s2) \<leftarrow> Generate_writes K now (mKVsToWrite c) s1;
       Some (st', events, c, s2)
     }
   })"

definition Generate_ops :: "(64 word \<Rightarrow> string) \<Rightarrow> GenerateFunc \<Rightarrow> 's KVStore \<Rightarrow> (GenerateContext, 's) Command" where
  "Generate_ops ip generate K = Command_base\<lparr>
     cmd_prepare := Generate_prepare K generate,
     cmd_execute := Generate_execute K,
     cmd_finish := \<lambda>_. applyAndUnlock K Generate_getTargetKeys True,
     ctx_initSuccessResponse := Generate_initSuccessResponse,
     ctx_fillResponseAndReply := Generate_fillResponseAndReply ip,
     ctx_getTargetKeys := Generate_getTargetKeys,
     ctx_getRequestHeader := \<lambda>c. gen_header (mRequest c),
     ctx_skipPreExecuteCB := \<lambda>_. False\<rparr>"

section \<open>The transfer command\<close>

text \<open>\<^verbatim>\<open>std::stoi\<close>: the exceptions for a string without a number and for a number that does
  not fit 32 bits are not caught.\<close>

definition stoi :: "string \<Rightarrow> int option" where
  "stoi str =
     (let s1 = dropWhile is_space str;
          neg = (s1 \<noteq> [] \<and> hd s1 = CHR ''-'');
          s2 = (if s1 \<noteq> [] \<and> (hd s1 = CHR ''-'' \<or> hd s1 = CHR ''+'') then tl s1 else s1);
          ds = takeWhile is_digit s2;
          n = (if neg then - int (decimal ds) else int (decimal ds))
      in if ds = [] \<or> n < - (2 ^ 31) \<or> 2 ^ 31 \<le> n then None else Some n)"

record TransferInput =
  fromAccount :: KeyType
  toAccount :: KeyType
  transferBalance :: "64 word"

definition storedBalance :: "KVsToRead \<Rightarrow> KeyType \<Rightarrow> 64 word option" where
  "storedBalance kvsToRead acc = (case map_of kvsToRead acc of
      None \<Rightarrow> Some 0
    | Some (v, ver) \<Rightarrow> map_option of_int (stoi v))"

text \<open>\<open>parse\<close> is the generated \<^verbatim>\<open>TransferCommand::ParseFromString\<close>.\<close>

definition Transfer_generate :: "(string \<Rightarrow> TransferInput option) \<Rightarrow> GenerateFunc" where
  "Transfer_generate parse kvsToRead inputInfo = (\<lambda>(kvsToWrite, outputInfo). case parse inputInfo of
      None \<Rightarrow> Some (Status_invalidArg ''failed to parse inputinfo'', kvsToWrite, outputInfo)
    | Some cmd \<Rightarrow> do {
        balanceInFrom \<leftarrow> storedBalance kvsToRead (fromAccount cmd);
        balanceInTo \<leftarrow> storedBalance kvsToRead (toAccount cmd);
        let w1 = map_put (fromAccount cmd) (to_string (unat (balanceInFrom - transferBalance cmd))) kvsToWrite;
        let w2 = map_put (toAccount cmd) (to_string (unat (balanceInTo + transferBalance cmd))) w1;
        Some (Status_ok, w2, ''transferDemoOutputInfo'')
      })"

lemma map_put_map_of: "map_of (map_put k v m) k' = (if k' = k then Some v else map_of m k')"
proof (induction m)
  case (Cons p m)
  then show ?case
    by (cases p) auto
qed simp

end
