(* ===== verification/Command_Processor.thy ===== *)
theory Command_Processor
  imports Generate_Command
begin

text \<open>
  \<^verbatim>\<open>kv-engine/execution/CommandProcessor\<close>: runs one command at a time through its methods:
  prepare, execute, allocation of a version, hand-over to the raft store, finish. What the processor
  hands to the raft store is the trace of calls it returns; the raft store is asked for its role and
  term, and waited for after a change of term, by an argument that lists what it answers to each turn
  of the loop.
\<close>

definition toResponseCode :: "Status \<Rightarrow> ResponseCode" where
  "toResponseCode s =
     (if isOK s then RC_OK
      else if isPrecondUnMatched s then RC_PRECOND_NOT_MATCHED
      else if isInvalidArg s \<or> isNotSupported s then RC_BAD_REQUEST
      else if isWrongRoute s then RC_WRONG_ROUTE
      else if isMigratedRoute s then RC_MIGRATED_ROUTE
      else if isClientRouteOutOfDate s then RC_CLIENT_ROUTE_OUT_OF_DATE
      else if isServerRouteOutOfDate s then RC_SERVER_ROUTE_OUT_OF_DATE
      else RC_GENERAL_ERROR)"

text \<open>The calls of the raft store that hand over a command's context.\<close>

datatype 'c RaftCall =
    ReplyAsync nat nat VersionType 'c bool
  | PersistAsync nat 'c VersionType "Event list"
  | UpdateLogIndexWhenNewLeader nat

record 's Processor =
  mVersionStorePtr :: VersionStore
  mKVStorePtr :: 's
  mCurTerm :: nat

text \<open>\<^verbatim>\<open>PreExecuteCallBack\<close>: it may look at the request header and the target keys of the
  context and work on the store.\<close>

type_synonym 's PreExecute = "TimeType \<Rightarrow> RequestHeader \<Rightarrow> KeyType list option \<Rightarrow> 's \<Rightarrow> (Status \<times> 's) option"

section \<open>doExecute\<close>

text \<open>Sorting the events: the version an import expects, the events to replicate, and the largest
  version the command has read.\<close>

definition expectedVersionOf :: "Event list \<Rightarrow> VersionType option" where
  "expectedVersionOf events = foldl (\<lambda>acc e. case e of
      EvImport _ imported \<Rightarrow> do { _ \<leftarrow> acc; assert (length events = 1); Some imported }
    | _ \<Rightarrow> acc) (Some kInvalidVersion) events"

definition nonReadEventsOf :: "Event list \<Rightarrow> Event list" where
  "nonReadEventsOf events =
     filter (\<lambda>e. getType e \<noteq> READ \<and> getType e \<noteq> IMPORT \<and> \<not> (getType e = WRITE \<and> isNoOP e)) events"

definition maxReadVersionOf :: "VersionStore \<Rightarrow> Event list \<Rightarrow> VersionType" where
  "maxReadVersionOf vs events = foldl (\<lambda>acc e. case e of
      EvRead r \<Rightarrow> max acc (if re_isNotFound r \<and> re_version r = kInvalidVersion then getCurMaxVersion vs else re_version r)
    | _ \<Rightarrow> acc) kInvalidVersion events"

text \<open>Handing the events over. The version of the allocation is assigned to all events, and those to
  replicate are handed over, inside the allocation.\<close>

definition doExecute_hand ::
  "('c, 's) Command \<Rightarrow> Event list \<Rightarrow> 'c \<times> 's Processor \<Rightarrow> (Event list \<times> 'c RaftCall list \<times> 'c \<times> 's Processor) option" where
  "doExecute_hand C events = (\<lambda>(c, p). do {
     expectedVersion \<leftarrow> expectedVersionOf events;
     let vs = mVersionStorePtr p;
     if nonReadEventsOf events = [] then do {
       c' \<leftarrow> ctx_initSuccessResponse C (getCurMaxVersion vs) events c;
       Some (events, [ReplyAsync 0 (mCurTerm p) (maxReadVersionOf vs events) c' False], c', p)
     }
     else do {
       let (version, vs', res) = allocateNextVersion (\<lambda>version _. do {
             events' \<leftarrow> assignVersions version events;
             c' \<leftarrow> ctx_initSuccessResponse C (getCurMaxVersion vs) events' c;
             Some (events', [PersistAsync (mCurTerm p) c' version (nonReadEventsOf events')], c')
           }) expectedVersion (vs, None);
       (events', calls, c') \<leftarrow> res;
       Some (events', calls, c', p\<lparr>mVersionStorePtr := vs'\<rparr>)
     }
   })"

text \<open>The loop body: whether an error is to be replied, the status, the events, the calls, the
  command and the processor.\<close>

definition runPreExecute ::
  "('c, 's) Command \<Rightarrow> 's PreExecute option \<Rightarrow> TimeType \<Rightarrow> 'c \<Rightarrow> 's \<Rightarrow> (Status \<times> 's) option" where
  "runPreExecute C pre now c s = (case pre of
      None \<Rightarrow> Some (Status_ok, s)
    | Some cb \<Rightarrow> if ctx_skipPreExecuteCB C c then Some (Status_ok, s)
                 else cb now (ctx_getRequestHeader C c) (ctx_getTargetKeys C c) s)"

definition doExecute_run ::
  "('c, 's) Command \<Rightarrow> TimeType \<Rightarrow> 'c \<times> 's Processor \<Rightarrow>
   (bool \<times> Status \<times> Event list \<times> 'c RaftCall list \<times> 'c \<times> 's Processor) option" where
  "doExecute_run C now = (\<lambda>(c, p). do {
     (st, events, c1, s1) \<leftarrow> cmd_execute C now (c, mKVStorePtr p);
     let p1 = p\<lparr>mKVStorePtr := s1\<rparr>;
     if \<not> isOK st \<and> \<not> isNotFound st then Some (True, st, events, [], c1, p1)
     else if events = [] then Some (True, st, [], [], c1, p1)
     else do {
       (events', calls, c2, p2) \<leftarrow> doExecute_hand C events (c1, p1);
       Some (False, st, events', calls, c2, p2)
     }
   })"

definition doExecute_body ::
  "('c, 's) Command \<Rightarrow> 's PreExecute option \<Rightarrow> TimeType \<Rightarrow> 'c \<times> 's Processor \<Rightarrow>
   (bool \<times> Status \<times> Event list \<times> 'c RaftCall list \<times> 'c \<times> 's Processor) option" where
  "doExecute_body C pre now = (\<lambda>(c, p). do {
     (st, s) \<leftarrow> runPreExecute C pre now c (mKVStorePtr p);
     let p1 = p\<lparr>mKVStorePtr := s\<rparr>;
     if \<not> isOK st then Some (True, st, [], [], c, p1) else doExecute_run C now (c, p1)
   })"

text \<open>Replying an error: the response is initialised without events and sent with the code of the
  status.\<close>

definition replyError :: "('c, 's) Command \<Rightarrow> Status \<Rightarrow> 'c \<times> 's Processor \<Rightarrow> 'c option" where
  "replyError C st = (\<lambda>(c, p). do {
     c1 \<leftarrow> ctx_initSuccessResponse C (getCurMaxVersion (mVersionStorePtr p)) [] c;
     ctx_fillResponseAndReply C (toResponseCode st) (mMsg st) None c1
   })"

definition doExecute ::
  "('c, 's) Command \<Rightarrow> 's PreExecute option \<Rightarrow> TimeType \<Rightarrow> 'c \<times> 's Processor \<Rightarrow>
   ('c RaftCall list \<times> 'c \<times> 's Processor) option" where
  "doExecute C pre now = (\<lambda>(c, p). do {
     (st, c1, s1) \<leftarrow> cmd_prepare C now (c, mKVStorePtr p);
     let p1 = p\<lparr>mKVStorePtr := s1\<rparr>;
     if \<not> isOK st then do {
       c2 \<leftarrow> ctx_fillResponseAndReply C (toResponseCode st) (mMsg st) None c1;
       Some ([], c2, p1)
     }
     else do {
       (hasError, st2, events, calls, c2, p2) \<leftarrow> doExecute_body C pre now (c1, p1);
       (st3, c3, s3) \<leftarrow> cmd_finish C now events (c2, mKVStorePtr p2);
       assert (isOK st3);
       let p3 = p2\<lparr>mKVStorePtr := s3\<rparr>;
       if hasError then do { c4 \<leftarrow> replyError C st2 (c3, p3); Some (calls, c4, p3) }
       else Some (calls, c3, p3)
     }
   })"

section \<open>doFollowerReadExecute\<close>

primrec followerReadVersion :: "VersionStore \<Rightarrow> Event list \<Rightarrow> VersionType \<Rightarrow> VersionType option" where
  "followerReadVersion vs [] acc = Some acc"
| "followerReadVersion vs (e # es) acc = (case e of
      EvRead r \<Rightarrow> followerReadVersion vs es
        (max acc (if re_isNotFound r then getMaxAllocatedVersion vs else re_version r))
    | _ \<Rightarrow> None)"

definition doFollowerReadExecute ::
  "('c, 's) Command \<Rightarrow> TimeType \<Rightarrow> 'c \<times> 's Processor \<Rightarrow> ('c RaftCall list \<times> 'c \<times> 's Processor) option" where
  "doFollowerReadExecute C now = (\<lambda>(c, p). do {
     (st, c1, s1) \<leftarrow> cmd_prepare C now (c, mKVStorePtr p);
     if \<not> isOK st then do {
       c2 \<leftarrow> ctx_fillResponseAndReply C (toResponseCode st) (mMsg st) None c1;
       Some ([], c2, p\<lparr>mKVStorePtr := s1\<rparr>)
     }
     else do {
       (st2, events, c2, s2) \<leftarrow> cmd_execute C now (c1, s1);
       (hasError, calls, c3) \<leftarrow>
         (if \<not> isOK st2 \<and> \<not> isNotFound st2 \<or> events = [] then Some (True, [], c2)
          else do {
            maxReadVersion \<leftarrow> followerReadVersion (mVersionStorePtr p) events kInvalidVersion;
            c' \<leftarrow> ctx_initSuccessResponse C (getCurMaxVersion (mVersionStorePtr p)) events c2;
            Some (False, [ReplyAsync 0 (mCurTerm p) maxReadVersion c' True], c')
          });
       (st3, c4, s3) \<leftarrow> cmd_finish C now events (c3, s2);
       assert (isOK st3);
       let p3 = p\<lparr>mKVStorePtr := s3\<rparr>;
       if hasError then do { c5 \<leftarrow> replyError C st2 (c4, p3); Some (calls, c5, p3) }
       else Some (calls, c4, p3)
     }
   })"

section \<open>process\<close>

text \<open>What the raft store answers in one turn of the loop: whether its role is leader, the term it holds, its leader
  hint, and what \<^verbatim>\<open>waitTillLeaderIsReadyOrStepDown\<close> returns (the status, the last index, the
  last bundle and the members of the cluster).\<close>

record 'm RaftAnswer =
  ra_isLeader :: bool
  ra_term :: nat
  ra_leaderHint :: "64 word option"
  ra_wait :: "Status \<times> nat \<times> ProtoEvent list option \<times> 'm"

text \<open>Taking over as the leader of a new term.\<close>

definition recoveredVersion :: "ProtoEvent list option \<Rightarrow> VersionType option" where
  "recoveredVersion lastBundle = (case lastBundle of
      None \<Rightarrow> Some kInvalidVersion
    | Some bundle \<Rightarrow> getVersionFromBundle bundle)"

definition becomeLeader :: "'s KVStore \<Rightarrow> nat \<Rightarrow> ProtoEvent list option \<Rightarrow> 's Processor \<Rightarrow> 's Processor option" where
  "becomeLeader K curTerm lastBundle p = do {
     maxVersionInLeader \<leftarrow> recoveredVersion lastBundle;
     s1 \<leftarrow> kv_clear K (mKVStorePtr p);
     (st, s2) \<leftarrow> kv_flush K s1;
     Some (p\<lparr>mVersionStorePtr := recoverMaxVersion maxVersionInLeader (mVersionStorePtr p),
            mKVStorePtr := s2, mCurTerm := curTerm\<rparr>)
   }"

text \<open>The loop runs until the processor's term is the one of the raft store; the empty list of
  answers is a loop that is still waiting.\<close>

primrec process_loop ::
  "('c, 's) Command \<Rightarrow> 's KVStore \<Rightarrow> 's PreExecute option \<Rightarrow> ('m \<Rightarrow> Status) option \<Rightarrow> TimeType \<Rightarrow>
   'm RaftAnswer list \<Rightarrow> 'c \<times> 's Processor \<Rightarrow> ('c RaftCall list \<times> 'c \<times> 's Processor) option" where
  "process_loop C K pre becomeLeaderCB now [] cp = None"
| "process_loop C K pre becomeLeaderCB now (a # as) cp = (case cp of (c, p) \<Rightarrow>
     if \<not> ra_isLeader a then do {
       c' \<leftarrow> ctx_fillResponseAndReply C RC_NOT_LEADER ''NotLeaderAnyMore'' (ra_leaderHint a) c;
       Some ([], c', p)
     }
     else if mCurTerm p = ra_term a then doExecute C pre now (c, p)
     else (case ra_wait a of (st, lastLogIndex, lastBundle, clusterInfo) \<Rightarrow>
       if isNotLeader st then do {
         s' \<leftarrow> kv_clear K (mKVStorePtr p);
         process_loop C K pre becomeLeaderCB now as (c, p\<lparr>mKVStorePtr := s'\<rparr>)
       }
       else if (case becomeLeaderCB of None \<Rightarrow> False | Some cb \<Rightarrow> \<not> isOK (cb clusterInfo)) then do {
         s' \<leftarrow> kv_clear K (mKVStorePtr p);
         c' \<leftarrow> ctx_fillResponseAndReply C RC_GENERAL_ERROR ''fail after become leader'' (ra_leaderHint a) c;
         Some ([], c', p\<lparr>mKVStorePtr := s'\<rparr>)
       }
       else do {
         p' \<leftarrow> becomeLeader K (ra_term a) lastBundle p;
         (calls, c', p'') \<leftarrow> doExecute C pre now (c, p');
         Some (UpdateLogIndexWhenNewLeader lastLogIndex # calls, c', p'')
       }))"

text \<open>\<open>followerRead\<close> is false in a build with \<^verbatim>\<open>DISABLE_FOLLOWER_READ\<close>.\<close>

definition process ::
  "bool \<Rightarrow> ('c, 's) Command \<Rightarrow> 's KVStore \<Rightarrow> 's PreExecute option \<Rightarrow> ('m \<Rightarrow> Status) option \<Rightarrow> TimeType \<Rightarrow>
   'm RaftAnswer list \<Rightarrow> 'c \<times> 's Processor \<Rightarrow> ('c RaftCall list \<times> 'c \<times> 's Processor) option" where
  "process followerRead C K pre becomeLeaderCB now answers = (\<lambda>(c, p).
     if followerRead \<and> cmd_isFollowerReadCmd C c then doFollowerReadExecute C now (c, p)
     else process_loop C K pre becomeLeaderCB now answers (c, p))"

end
