(* ===== verification/Command_Contract.thy ===== *)
theory Command_Contract
  imports Command_Processor
begin

text \<open>
  What the processor relies on in a command, and what it then guarantees. The contract
  \<open>kv_command\<close> says that \<^verbatim>\<open>prepare\<close> takes the locks of the target keys or fails
  without taking any, that \<^verbatim>\<open>execute\<close> reads the store and leaves it alone, and that
  \<^verbatim>\<open>finish\<close> applies the events and gives the locks back. The processor's guarantees are
  proved once from it and then hold of every command.

  Reading may drop an entry that timed out from the cache, and then the entry of the store below
  shows again: what a read leaves alone is the view of the keys whose entry has not timed out
  (\<open>stable\<close>).
\<close>

section \<open>Views up to entries that timed out\<close>

definition expired :: "TimeType \<Rightarrow> View \<Rightarrow> KeyType \<Rightarrow> bool" where
  "expired now v k = (case v k of None \<Rightarrow> False | Some (_, _, t, dl) \<Rightarrow> isTimeOut now dl t)"

definition stable :: "TimeType \<Rightarrow> View \<Rightarrow> View \<Rightarrow> bool" where
  "stable now v v' = (\<forall>k. \<not> expired now v k \<longrightarrow> v' k = v k)"

lemma stable_refl [simp]: "stable now v v"
  by (simp add: stable_def)

lemma expired_cong: "v k = v' k \<Longrightarrow> expired now v k = expired now v' k"
  by (simp add: expired_def)

lemma stable_trans: "stable now v v' \<Longrightarrow> stable now v' v'' \<Longrightarrow> stable now v v''"
  unfolding stable_def by (metis expired_cong)

lemma stable_visible:
  assumes "stable now v v'" and "visible now v k = Some e"
  shows "visible now v' k = Some e"
proof -
  have "\<not> expired now v k"
    using assms(2) by (auto simp: visible_def expired_def split: option.splits if_splits)
  then have "v' k = v k"
    using assms(1) by (simp add: stable_def)
  then show ?thesis
    using assms(2) by (simp add: visible_def)
qed

lemma stable_update: "stable now v v' \<Longrightarrow> stable now (v(k := e)) (v'(k := e))"
  by (auto simp: stable_def expired_def)

lemma stable_event_view: "stable now v v' \<Longrightarrow> stable now (event_view e v) (event_view e v')"
  by (cases e) (simp_all add: stable_update write_view_def)

lemma stable_events_view: "stable now v v' \<Longrightarrow> stable now (events_view es v) (events_view es v')"
  by (induction es arbitrary: v v') (simp_all add: stable_event_view)

text \<open>The keys with a live entry that the cache holds stay in the cache as well.\<close>

definition keeps :: "TimeType \<Rightarrow> ('s \<Rightarrow> View) \<Rightarrow> ('s \<Rightarrow> KeyType \<Rightarrow> bool) \<Rightarrow> 's \<Rightarrow> 's \<Rightarrow> bool" where
  "keeps now view resident s s' = (stable now (view s) (view s') \<and>
     (\<forall>k. visible now (view s) k \<noteq> None \<longrightarrow> resident s k \<longrightarrow> resident s' k))"

lemma keeps_refl [simp]: "keeps now view resident s s"
  by (simp add: keeps_def)

lemma keeps_same: "view s' = view s \<Longrightarrow> resident s' = resident s \<Longrightarrow> keeps now view resident s s'"
  by (simp add: keeps_def)

lemma keeps_trans: "keeps now view resident s s' \<Longrightarrow> keeps now view resident s' s'' \<Longrightarrow> keeps now view resident s s''"
  unfolding keeps_def by (metis stable_trans stable_visible option.exhaust)

section \<open>Reads on the store of the commands\<close>

context kv_command_store
begin

lemma read_law:
  assumes "inv s"
  shows "\<exists>st out' s'. kv_readKV K now k out s = Some (st, out', s') \<and> inv s' \<and> locks s' = locks s \<and>
           keeps now view resident s s' \<and> (isOK st \<or> isNotFound st) \<and>
           (case visible now (view s) k of
              Some (v, ver) \<Rightarrow> st = Status_ok \<and> outValue out' = v \<and> outVersion out' = ver \<and>
                               view s' = view s \<and> resident s' = resident s
            | None \<Rightarrow> isNotFound st)"
proof (cases "visible now (view s) k")
  case None
  then have miss: "case view s k of None \<Rightarrow> True | Some (v, ver, t, dl) \<Rightarrow> isTimeOut now dl t"
    by (auto simp: visible_def split: option.splits if_splits)
  from readKV_miss [OF assms miss, of out] obtain st out' s' where
    r: "kv_readKV K now k out s = Some (st, out', s')" "isNotFound st" "inv s'"
      "\<forall>k'. k' \<noteq> k \<longrightarrow> view s' k' = view s k' \<and> resident s' k' = resident s k'" "view s k = None \<longrightarrow> view s' k = None"
    by (elim exE conjE) (rule that)
  have "view s' k' = view s k'" if "\<not> expired now (view s) k'" for k'
    using r(4,5) miss that by (cases "k' = k") (auto simp: expired_def split: option.splits)
  then have "keeps now view resident s s'"
    using r(4) None unfolding keeps_def stable_def by metis
  with r readKV_locks [OF r(1)] None show ?thesis
    by auto
next
  case (Some p)
  then obtain v ver t dl where e: "view s k = Some (v, ver, t, dl)" "\<not> isTimeOut now dl t" "p = (v, ver)"
    by (auto simp: visible_def split: option.splits if_splits)
  from readKV_hit [OF assms e(1,2), of out] obtain t' s' where
    r: "kv_readKV K now k out s = Some (Status_ok, \<lparr>outValue = v, outTTL = t', outVersion = ver\<rparr>, s')"
      "inv s'" "view s' = view s" "resident s' = resident s"
    by (elim exE conjE) (rule that)
  with readKV_locks [OF r(1)] Some e(3) show ?thesis
    by (auto simp: isOK_def Status_ok_def keeps_same)
qed

text \<open>The effects of the reads that return.\<close>

lemma read_effect:
  assumes "kv_readKV K now k out s = Some (st, out', s')" and "inv s"
  shows "inv s'" "locks s' = locks s" "keeps now view resident s s'" "isOK st \<or> isNotFound st"
  using read_law [OF assms(2), of now k out] assms(1) by auto

lemma proxy_effect:
  assumes "kv_readKVFromProxy K now k out s = Some (st, out', s')" and "inv s"
  shows "inv s'" "locks s' = locks s" "keeps now view resident s s'" "isOK st \<or> isNotFound st"
  using readKVFromProxy_law [OF assms(2), of now k out] assms(1) by (auto simp: keeps_same)

lemma meta_effect:
  assumes "kv_readMeta K k meta s = Some (st, meta', s')" and "inv s"
  shows "inv s'" "locks s' = locks s" "keeps now view resident s s'"
  using readMeta_law [OF assms(2), of k meta] assms(1) by (auto simp: keeps_same)

lemma metaProxy_effect:
  assumes "kv_readMetaFromProxy K k meta s = Some (st, meta', s')" and "inv s"
  shows "inv s'" "locks s' = locks s" "keeps now view resident s s'"
  using readMetaFromProxy_law [OF assms(2), of k meta] assms(1) by (auto simp: keeps_same)

text \<open>Applying any events keeps the invariant and the locks.\<close>

lemma apply_event_keeps:
  assumes "inv s"
  shows "\<exists>s'. apply_event K e s = Some (Status_ok, s') \<and> inv s' \<and> locks s' = locks s"
proof -
  have w: "\<exists>s'. WriteEvent_apply K w s = Some (Status_ok, s') \<and> inv s' \<and> locks s' = locks s" for w
    using assms writeKV_law [OF assms storable_any] writeTTLKV_law [OF assms storable_any]
    unfolding WriteEvent_apply_def by (metis writeKV_locks writeTTLKV_locks)
  show ?thesis
  proof (cases e)
    case (EvDelete d)
    from deleteKV_any [OF assms, of "de_key d" "de_version d" "de_deletedVersion d"] show ?thesis
      using EvDelete by (auto dest: deleteKV_locks)
  qed (use w assms in auto)
qed

lemma event_storable_any: "event_storable storable e"
  by (cases e) (simp_all add: write_storable_def storable_any)

lemma apply_events_keeps:
  assumes "inv s"
  shows "\<exists>s'. apply_events K es s = Some (Status_ok, s') \<and> inv s' \<and> locks s' = locks s"
  using assms
proof (induction es arbitrary: s)
  case (Cons e es)
  from apply_event_keeps [OF Cons.prems, of e] obtain s1 where
    s1: "apply_event K e s = Some (Status_ok, s1)" "inv s1" "locks s1 = locks s"
    by blast
  from Cons.IH [OF s1(2)] s1 show ?case
    by (auto simp: isOK_def Status_ok_def)
qed simp

end

section \<open>The contract of a command\<close>

locale kv_command = kv_command_store K inv view storable resident locks available
  for K :: "'s KVStore" and inv view storable resident
    and locks :: "'s \<Rightarrow> 'l" and available :: "'l \<Rightarrow> KeyType list \<Rightarrow> bool \<Rightarrow> bool" +
  fixes C :: "('c, 's) Command"
    and targets :: "'c \<Rightarrow> KeyType list option"
    and isExclusive :: bool
  assumes prepare_law: "\<lbrakk>cmd_prepare C now (c, s) = Some (st, c', s'); inv s\<rbrakk> \<Longrightarrow>
      inv s' \<and> keeps now view resident s s' \<and>
      (if isOK st then \<exists>keys s0. inv s0 \<and> locks s0 = locks s \<and> targets c' = Some keys \<and>
                                 kv_lock K keys isExclusive s0 = Some (Status_ok, s')
       else locks s' = locks s)"
    and execute_law: "\<lbrakk>cmd_execute C now (c, s) = Some (st, es, c', s'); inv s\<rbrakk> \<Longrightarrow>
      inv s' \<and> keeps now view resident s s' \<and> locks s' = locks s \<and> targets c' = targets c"
    and finish_law: "cmd_finish C now es (c, s) = applyAndUnlock K targets isExclusive es (c, s)"
    and init_law: "ctx_initSuccessResponse C ver es c = Some c' \<Longrightarrow> targets c' = targets c"

text \<open>The pre-execution callback may read the store but not change it.\<close>

definition pre_keeps :: "('s \<Rightarrow> bool) \<Rightarrow> ('s \<Rightarrow> View) \<Rightarrow> ('s \<Rightarrow> KeyType \<Rightarrow> bool) \<Rightarrow> ('s \<Rightarrow> 'l) \<Rightarrow> 's PreExecute option \<Rightarrow> bool" where
  "pre_keeps pinv view resident locks pre = (\<forall>cb now h ks s st s'. pre = Some cb \<longrightarrow> pinv s \<longrightarrow>
     cb now h ks s = Some (st, s') \<longrightarrow> pinv s' \<and> keeps now view resident s s' \<and> locks s' = locks s)"

lemma nonReadEvents_view:
  assumes "\<forall>e \<in> set es. getType e \<noteq> IMPORT"
  shows "events_view (nonReadEventsOf es) v = events_view es v"
  using assms
proof (induction es arbitrary: v)
  case (Cons e es)
  then show ?case
    by (cases e) (auto simp: nonReadEventsOf_def write_view_def)
qed (simp add: nonReadEventsOf_def)

lemma expectedVersionOf_import:
  assumes "expectedVersionOf es = Some v" and "e \<in> set es" and "getType e = IMPORT"
  shows "length es = 1"
proof -
  define f where "f = (\<lambda>(acc :: VersionType option) e. case e of
      EvImport _ imported \<Rightarrow> do { _ \<leftarrow> acc; assert (length es = 1); Some imported } | _ \<Rightarrow> acc)"
  have none: "foldl f None xs = None" for xs
    by (induction xs) (auto simp: f_def split: Event.split)
  have "length es = 1" if "foldl f acc xs = Some v" "e \<in> set xs" for acc xs
    using that
  proof (induction xs arbitrary: acc)
    case (Cons x xs)
    show ?case
    proof (cases "x = e")
      case True
      then obtain w i where "x = EvImport w i"
        using assms(3) by (cases e) auto
      then have "f acc x = None" if "length es \<noteq> 1"
        using that by (cases acc) (simp_all add: f_def)
      then show ?thesis
        using Cons.prems(1) none by force
    next
      case False
      then show ?thesis
        using Cons by simp
    qed
  qed simp
  then show ?thesis
    using assms(1,2) unfolding expectedVersionOf_def f_def [symmetric] by blast
qed

lemma assignVersion_type: "assignVersion ver e = Some e' \<Longrightarrow> getType e' = getType e"
  by (cases e) (auto simp: bind_eq_Some_conv)

lemma assignVersions_types: "assignVersions ver es = Some es' \<Longrightarrow> map getType es' = map getType es"
  by (induction es arbitrary: es') (auto simp: bind_eq_Some_conv assignVersion_type)

lemma nonReadEvents_resident:
  assumes "\<forall>e \<in> set es. getType e \<noteq> IMPORT"
  shows "deletes_resident r (nonReadEventsOf es) = deletes_resident r es"
  using assms
proof (induction es arbitrary: r)
  case (Cons e es)
  then show ?case
    by (cases e) (auto simp: nonReadEventsOf_def)
qed (simp add: nonReadEventsOf_def)

text \<open>A command that replicates events has no import among them.\<close>

lemma nonRead_no_import:
  assumes "expectedVersionOf es = Some expected" and "nonReadEventsOf es \<noteq> []"
  shows "\<forall>e \<in> set es. getType e \<noteq> IMPORT"
proof
  fix e
  assume e: "e \<in> set es"
  show "getType e \<noteq> IMPORT"
  proof
    assume i: "getType e = IMPORT"
    have "length es = 1"
      by (rule expectedVersionOf_import [OF assms(1) e i])
    then have "es = [e]"
      using e by (cases es) auto
    then show False
      using assms(2) i by (simp add: nonReadEventsOf_def)
  qed
qed

section \<open>What the processor guarantees\<close>

context kv_command
begin

lemma doExecute_hand_effect:
  assumes "doExecute_hand C events (c, p) = Some (events', calls, c', p')"
  shows "mKVStorePtr p' = mKVStorePtr p" "targets c' = targets c"
    "(events' = events \<and> nonReadEventsOf events = [] \<and> calls = [ReplyAsync 0 (mCurTerm p) (maxReadVersionOf (mVersionStorePtr p) events) c' False]) \<or>
     (\<exists>expected version. expectedVersionOf events = Some expected \<and> nonReadEventsOf events \<noteq> [] \<and>
        assignVersions version events = Some events' \<and>
        calls = [PersistAsync (mCurTerm p) c' version (nonReadEventsOf events')])"
  using assms init_law
  by (auto simp: doExecute_hand_def bind_eq_Some_conv allocateNextVersion_def Let_def split: if_splits prod.splits)

lemma runPreExecute_effect:
  assumes "runPreExecute C pre now c s = Some (st, s')" and "inv s" and "pre_keeps inv view resident locks pre"
  shows "inv s'" "keeps now view resident s s'" "locks s' = locks s"
  using assms unfolding runPreExecute_def pre_keeps_def by (auto split: option.splits if_splits)

lemma doExecute_run_effect:
  assumes "doExecute_run C now (c, p) = Some (hasError, st, events, calls, c', p')" and "inv (mKVStorePtr p)"
  shows "inv (mKVStorePtr p') \<and> keeps now view resident (mKVStorePtr p) (mKVStorePtr p') \<and>
    locks (mKVStorePtr p') = locks (mKVStorePtr p) \<and> targets c' = targets c"
proof -
  from assms(1) obtain st1 es c1 s1 where x: "cmd_execute C now (c, mKVStorePtr p) = Some (st1, es, c1, s1)"
    and rest: "mKVStorePtr p' = s1 \<and> c' = c1 \<or>
      (\<exists>es' calls'. doExecute_hand C es (c1, p\<lparr>mKVStorePtr := s1\<rparr>) = Some (es', calls', c', p'))"
    by (auto simp: doExecute_run_def bind_eq_Some_conv Let_def split: if_splits)
  have "mKVStorePtr p' = s1" "targets c' = targets c1"
    using rest doExecute_hand_effect(1,2) [of es c1 "p\<lparr>mKVStorePtr := s1\<rparr>" _ _ c' p'] by auto
  with execute_law [OF x assms(2)] show ?thesis
    by simp
qed

lemma doExecute_body_effect:
  assumes "doExecute_body C pre now (c, p) = Some (hasError, st, events, calls, c', p')"
    and inv: "inv (mKVStorePtr p)" and pre: "pre_keeps inv view resident locks pre"
  shows "inv (mKVStorePtr p') \<and> keeps now view resident (mKVStorePtr p) (mKVStorePtr p') \<and>
    locks (mKVStorePtr p') = locks (mKVStorePtr p) \<and> targets c' = targets c"
proof -
  from assms(1) obtain st0 s0 where s0: "runPreExecute C pre now c (mKVStorePtr p) = Some (st0, s0)"
    and rest: "p' = p\<lparr>mKVStorePtr := s0\<rparr> \<and> c' = c \<or>
      doExecute_run C now (c, p\<lparr>mKVStorePtr := s0\<rparr>) = Some (hasError, st, events, calls, c', p')"
    by (auto simp: doExecute_body_def bind_eq_Some_conv Let_def split: if_splits)
  note pk = runPreExecute_effect [OF s0 inv pre]
  from rest show ?thesis
  proof
    assume "p' = p\<lparr>mKVStorePtr := s0\<rparr> \<and> c' = c"
    with pk show ?thesis
      by simp
  next
    assume r: "doExecute_run C now (c, p\<lparr>mKVStorePtr := s0\<rparr>) = Some (hasError, st, events, calls, c', p')"
    have "inv (mKVStorePtr (p\<lparr>mKVStorePtr := s0\<rparr>))"
      using pk(1) by simp
    from doExecute_run_effect [OF r this] pk show ?thesis
      by (auto intro: keeps_trans)
  qed
qed

lemma doExecute_body_persist:
  assumes "doExecute_body C pre now (c, p) = Some (hasError, st, events, calls, c', p')"
    and "PersistAsync term ctx version evs \<in> set calls"
  shows "\<exists>es expected. expectedVersionOf es = Some expected \<and> nonReadEventsOf es \<noteq> [] \<and>
    assignVersions version es = Some events \<and> evs = nonReadEventsOf events \<and> term = mCurTerm p \<and> ctx = c' \<and> \<not> hasError"
proof -
  from assms obtain es c1 p1 where hand: "doExecute_hand C es (c1, p1) = Some (events, calls, c', p')"
      "mCurTerm p1 = mCurTerm p" "\<not> hasError"
    by (auto simp: doExecute_body_def doExecute_run_def bind_eq_Some_conv Let_def split: if_splits)
  with doExecute_hand_effect(3) [OF hand(1)] assms(2) show ?thesis
    by auto
qed

text \<open>The two ways a command takes: it fails in \<^verbatim>\<open>prepare\<close>, or it runs and applies the events
  its body leaves. The locks are given back on both.\<close>

lemma doExecute_cases:
  assumes "doExecute C pre now (c, p) = Some (calls, c', p')"
    and inv: "inv (mKVStorePtr p)" and pre: "pre_keeps inv view resident locks pre"
  obtains (failed) "calls = []" "inv (mKVStorePtr p')" "keeps now view resident (mKVStorePtr p) (mKVStorePtr p')"
      "locks (mKVStorePtr p') = locks (mKVStorePtr p)"
  | (run) c1 s1 hasError st events c2 p2 s2 where "inv s1" "keeps now view resident (mKVStorePtr p) s1"
      "doExecute_body C pre now (c1, p\<lparr>mKVStorePtr := s1\<rparr>) = Some (hasError, st, events, calls, c2, p2)"
      "inv (mKVStorePtr p2)" "keeps now view resident s1 (mKVStorePtr p2)"
      "apply_events K events (mKVStorePtr p2) = Some (Status_ok, s2)"
      "inv (mKVStorePtr p')" "view (mKVStorePtr p') = view s2" "locks (mKVStorePtr p') = locks (mKVStorePtr p)"
proof -
  from assms(1) obtain st c1 s1 where prep: "cmd_prepare C now (c, mKVStorePtr p) = Some (st, c1, s1)"
    by (auto simp: doExecute_def bind_eq_Some_conv)
  note pl = prepare_law [OF prep inv]
  show thesis
  proof (cases "isOK st")
    case False
    then show ?thesis
      using assms(1) pl by (intro failed) (auto simp: doExecute_def bind_eq_Some_conv prep Let_def)
  next
    case True
    from True assms(1) obtain hasError st2 events c2 p2 st3 c3 s3 where
      body: "doExecute_body C pre now (c1, p\<lparr>mKVStorePtr := s1\<rparr>) = Some (hasError, st2, events, calls, c2, p2)"
      and fin: "cmd_finish C now events (c2, mKVStorePtr p2) = Some (st3, c3, s3)" and p': "mKVStorePtr p' = s3"
      by (auto simp: doExecute_def bind_eq_Some_conv prep Let_def split: if_splits)
    have "inv (mKVStorePtr (p\<lparr>mKVStorePtr := s1\<rparr>))"
      using pl by simp
    note be = doExecute_body_effect [OF body this pre]
    from True pl obtain keys s0 where lock: "inv s0" "locks s0 = locks (mKVStorePtr p)" "targets c1 = Some keys"
        "kv_lock K keys isExclusive s0 = Some (Status_ok, s1)"
      by auto
    from apply_events_keeps [of "mKVStorePtr p2" events] be obtain s2 where
      s2: "apply_events K events (mKVStorePtr p2) = Some (Status_ok, s2)" "inv s2" "locks s2 = locks s1"
      by auto
    from unlock_law [OF lock(4,1) s2(2,3)] obtain s4 where
      s4: "kv_unlock K keys isExclusive s2 = Some (Status_ok, s4)" "inv s4" "view s4 = view s2" "locks s4 = locks s0"
      by blast
    have "s3 = s4"
      using fin be lock(3) s2 s4 by (auto simp: finish_law applyAndUnlock_def bind_eq_Some_conv)
    with run [OF _ _ body _ _ s2(1)] pl be s4 lock(2) p' show ?thesis
      by simp
  qed
qed

lemma doExecute_locks:
  assumes "doExecute C pre now (c, p) = Some (calls, c', p')"
    and inv: "inv (mKVStorePtr p)" and pre: "pre_keeps inv view resident locks pre"
  shows "inv (mKVStorePtr p') \<and> locks (mKVStorePtr p') = locks (mKVStorePtr p)"
  using assms by (rule doExecute_cases) auto

text \<open>What is handed over for replication is what was applied to the leader's cache: after a command
  that persists events, the view is the one of the events applied to the view before, up to entries
  that timed out. Deletes count for the keys the cache holds.\<close>

lemma doExecute_persist:
  assumes ex: "doExecute C pre now (c, p) = Some (calls, c', p')"
    and inv: "inv (mKVStorePtr p)" and pre: "pre_keeps inv view resident locks pre"
    and call: "PersistAsync term ctx version evs \<in> set calls"
    and res: "deletes_resident (\<lambda>k. resident (mKVStorePtr p) k \<and> visible now (view (mKVStorePtr p)) k \<noteq> None) evs"
  shows "\<exists>v. stable now (view (mKVStorePtr p)) v \<and> view (mKVStorePtr p') = events_view evs v"
  using ex inv pre
proof (cases rule: doExecute_cases)
  case (run c1 s1 hasError st events c2 p2 s2)
  from doExecute_body_persist [OF run(3) call] obtain es expected where
    es: "expectedVersionOf es = Some expected" "nonReadEventsOf es \<noteq> []" "assignVersions version es = Some events"
      "evs = nonReadEventsOf events"
    by blast
  have "set (map getType events) = set (map getType es)"
    using assignVersions_types [OF es(3)] by simp
  then have ni: "\<forall>e \<in> set events. getType e \<noteq> IMPORT"
    using nonRead_no_import [OF es(1,2)] by (metis (no_types, lifting) image_iff set_map)
  have k: "keeps now view resident (mKVStorePtr p) (mKVStorePtr p2)"
    using run(2,5) by (rule keeps_trans)
  then have "(\<lambda>k. resident (mKVStorePtr p) k \<and> visible now (view (mKVStorePtr p)) k \<noteq> None) \<le> resident (mKVStorePtr p2)"
    by (auto simp: keeps_def le_fun_def)
  from deletes_resident_mono [OF this res] have dr: "deletes_resident (resident (mKVStorePtr p2)) events"
    by (simp add: es(4) nonReadEvents_resident [OF ni])
  have "\<forall>e \<in> set events. event_storable storable e"
    by (simp add: event_storable_any)
  from apply_events_law [OF run(4) this dr] have "view s2 = events_view events (view (mKVStorePtr p2))"
    using run(6) by auto
  then show ?thesis
    using k run(8) nonReadEvents_view [OF ni] by (auto simp: es(4) keeps_def)
qed (use call in simp)

end

end
