(* ===== verification/Command_Instances.thy ===== *)
theory Command_Instances
  imports Command_Contract Store_Stack Temporal_Store
begin

text \<open>
  The commands meet the contract \<open>kv_command\<close> over any store that is fit for commands, and so
  over the leader's stack: the interpretations at the end make the guarantees of the processor
  available for every command on the stack the leader runs.
\<close>

context kv_command_store
begin

section \<open>Shared bodies\<close>

lemma lockTargets_effect:
  assumes "lockTargets K targets x (c, s) = Some (st, c', s')" and "inv s"
  shows "c' = c \<and> st = Status_ok \<and> inv s' \<and> keeps now view resident s s' \<and>
    (\<exists>keys. targets c = Some keys \<and> kv_lock K keys x s = Some (Status_ok, s'))"
proof -
  from assms(1) obtain keys where k: "targets c = Some keys" "kv_lock K keys x s = Some (st, s')" "c' = c"
    by (auto simp: lockTargets_def bind_eq_Some_conv)
  with lock_keeps [OF k(2) assms(2)] show ?thesis
    by (auto simp: keeps_same)
qed

lemma lockTargets_prepare:
  assumes "lockTargets K targets x (c, s) = Some (st, c', s')" and "inv s"
  shows "inv s' \<and> keeps now view resident s s' \<and>
    (if isOK st then \<exists>keys s0. inv s0 \<and> locks s0 = locks s \<and> targets c' = Some keys \<and>
                               kv_lock K keys x s0 = Some (Status_ok, s')
     else locks s' = locks s)"
  using lockTargets_effect [OF assms, of now] assms(2) by (auto simp: isOK_def Status_ok_def)

lemma fixTTL_effect:
  assumes "fixTTL K now k en tt s = Some (st, en', tt', s')" and "inv s"
  shows "inv s' \<and> keeps now view resident s s' \<and> locks s' = locks s"
  using assms meta_effect [of k defaultMeta s _ _ _, OF _ assms(2)]
  by (auto simp: fixTTL_def bind_eq_Some_conv split: if_splits)

lemma readEvent_effect:
  assumes "readEvent K proxy mr k st out s = Some (es, s')" and "inv s"
  shows "inv s' \<and> keeps now view resident s s' \<and> locks s' = locks s \<and> (\<forall>e \<in> set es. getType e = READ)"
  using assms meta_effect [OF _ assms(2), of k defaultMeta] metaProxy_effect [OF _ assms(2), of k defaultMeta]
  by (auto simp: readEvent_def bind_eq_Some_conv newReadEvent_def newReadMetaEvent_def split: if_splits option.splits)

section \<open>Commands on one key\<close>

lemma put_command: "kv_command K inv view storable resident locks available (Put_ops ip K) Put_getTargetKeys True"
proof (unfold_locales, goal_cases)
  case (1 now c s st c' s')
  then show ?case
    by (intro lockTargets_prepare) (simp_all add: Put_ops_def)
next
  case (2 now c s st es c' s')
  then show ?case
    using fixTTL_effect [OF _ 2(2)] by (auto simp: Put_ops_def Put_execute_def bind_eq_Some_conv Let_def split: if_splits)
next
  case (3 now es c s)
  then show ?case
    by (simp add: Put_ops_def)
next
  case (4 ver es c c')
  then show ?case
    by (auto simp: Put_ops_def Put_initSuccessResponse_def Put_getTargetKeys_def bind_eq_Some_conv Let_def split: if_splits)
qed

lemma import_command: "kv_command K inv view storable resident locks available (Import_ops ip K) Put_getTargetKeys True"
proof (unfold_locales, goal_cases)
  case (1 now c s st c' s')
  then show ?case
    by (intro lockTargets_prepare) (simp_all add: Import_ops_def Put_ops_def)
next
  case (2 now c s st es c' s')
  then show ?case
    using fixTTL_effect [OF _ 2(2)] by (auto simp: Import_ops_def Import_execute_def bind_eq_Some_conv Let_def split: if_splits)
next
  case (3 now es c s)
  then show ?case
    by (simp add: Import_ops_def Put_ops_def)
next
  case (4 ver es c c')
  then show ?case
    by (auto simp: Import_ops_def Put_ops_def Put_initSuccessResponse_def Put_getTargetKeys_def bind_eq_Some_conv Let_def
        split: if_splits)
qed

lemma Get_execute_effect:
  assumes "Get_execute K now (c, s) = Some (st, es, c', s')" and "inv s"
  shows "inv s' \<and> keeps now view resident s s' \<and> locks s' = locks s \<and> c' = c \<and> (\<forall>e \<in> set es. getType e = READ)"
proof -
  let ?k = "ren_key (get_entry (mRequest c))"
  from assms(1) obtain out s1 where
    r: "(if Get_isFollowerReadCmd c then kv_readKVFromProxy K now ?k noRead s else kv_readKV K now ?k noRead s) = Some (st, out, s1)"
      "readEvent K (Get_isFollowerReadCmd c) (get_isMetaReturned (mRequest c)) ?k st out s1 = Some (es, s')" "c' = c"
    by (auto simp: Get_execute_def bind_eq_Some_conv Let_def)
  have s1: "inv s1" "locks s1 = locks s" "keeps now view resident s s1"
    using r(1) read_effect [OF _ assms(2)] proxy_effect [OF _ assms(2)] by (auto split: if_splits)
  with readEvent_effect [OF r(2) s1(1), of now] r(3) show ?thesis
    by (auto intro: keeps_trans)
qed

lemma get_command: "kv_command K inv view storable resident locks available (Get_ops ip K) Get_getTargetKeys False"
proof (unfold_locales, goal_cases)
  case (1 now c s st c' s')
  then show ?case
    by (intro lockTargets_prepare) (simp_all add: Get_ops_def)
next
  case (2 now c s st es c' s')
  then show ?case
    using Get_execute_effect [of now c s st es c' s'] by (simp add: Get_ops_def)
next
  case (3 now es c s)
  then show ?case
    by (simp add: Get_ops_def)
next
  case (4 ver es c c')
  then show ?case
    by (auto simp: Get_ops_def Get_initSuccessResponse_def Get_getTargetKeys_def bind_eq_Some_conv Let_def split: if_splits)
qed

lemma delete_command: "kv_command K inv view storable resident locks available (Delete_ops ip K) Delete_getTargetKeys True"
proof (unfold_locales, goal_cases)
  case (1 now c s st c' s')
  then show ?case
    by (intro lockTargets_prepare) (simp_all add: Delete_ops_def)
next
  case (2 now c s st es c' s')
  then show ?case
    using read_effect [OF _ 2(2)] by (auto simp: Delete_ops_def Delete_execute_def bind_eq_Some_conv Let_def)
next
  case (3 now es c s)
  then show ?case
    by (simp add: Delete_ops_def)
next
  case (4 ver es c c')
  then show ?case
    by (auto simp: Delete_ops_def Delete_initSuccessResponse_def Delete_getTargetKeys_def bind_eq_Some_conv Let_def
        split: if_splits Event.splits)
qed

section \<open>Transactions\<close>

lemma Trans_readKV_effect:
  assumes "Trans_readKV K proxy now k out s = Some (st, out', s')" and "inv s"
  shows "inv s'" "locks s' = locks s" "keeps now view resident s s'" "isOK st \<or> isNotFound st"
  using assms read_effect [OF _ assms(2)] proxy_effect [OF _ assms(2)] by (auto simp: Trans_readKV_def split: if_splits)

lemma Trans_readMeta_effect:
  assumes "Trans_readMeta K proxy k meta s = Some (st, meta', s')" and "inv s"
  shows "inv s'" "locks s' = locks s" "keeps now view resident s s'"
  using assms meta_effect [OF _ assms(2)] metaProxy_effect [OF _ assms(2)] by (auto simp: Trans_readMeta_def split: if_splits)

lemma compareUintField_request:
  "compareUintField st u stored c = Some (brk, st', c') \<Longrightarrow> mRequest c' = mRequest c"
  by (auto simp: compareUintField_def Let_def split: if_splits)

lemma Trans_checkCond_effect:
  assumes "Trans_checkCond K now proxy cond ks c s = Some (brk, st, ks', c', s')" and "inv s"
  shows "inv s' \<and> keeps now view resident s s' \<and> locks s' = locks s \<and> mRequest c' = mRequest c"
proof (cases cond)
  case (VersionCond k ver op)
  then show ?thesis
    using assms Trans_readKV_effect [OF _ assms(2)]
    by (auto simp: Trans_checkCond_def bind_eq_Some_conv split: if_splits)
next
  case (ExistCond k b)
  then show ?thesis
    using assms Trans_readKV_effect [OF _ assms(2)]
    by (auto simp: Trans_checkCond_def bind_eq_Some_conv split: if_splits)
next
  case (UserMetaCond u)
  show ?thesis
  proof (cases "umc_key u \<in> ks")
    case True
    then show ?thesis
      using assms UserMetaCond by (simp add: Trans_checkCond_def)
  next
    case False
    then obtain st1 out s1 where r: "Trans_readKV K proxy now (umc_key u) noRead s = Some (st1, out, s1)"
      using assms(1) UserMetaCond by (auto simp: Trans_checkCond_def bind_eq_Some_conv)
    note s1 = Trans_readKV_effect [OF r assms(2)]
    show ?thesis
    proof (cases "isNotFound st1")
      case True
      then show ?thesis
        using assms(1) UserMetaCond False r s1 by (simp add: Trans_checkCond_def)
    next
      case nf: False
      then obtain mst meta s2 where m: "Trans_readMeta K proxy (umc_key u) defaultMeta s1 = Some (mst, meta, s2)"
        using assms(1) UserMetaCond False r by (auto simp: Trans_checkCond_def Let_def bind_eq_Some_conv)
      have "s' = s2 \<and> mRequest c' = mRequest c"
        using assms(1) UserMetaCond False r nf m
        by (cases "meta_udfMeta meta")
          (auto simp: Trans_checkCond_def Let_def bind_eq_Some_conv split: if_splits dest: compareUintField_request)
      with Trans_readMeta_effect [OF m s1(1)] s1 show ?thesis
        by (auto intro: keeps_trans)
    qed
  qed
next
  case CondUnset
  then show ?thesis
    using assms by (simp add: Trans_checkCond_def)
qed

lemma Trans_checkLoop_effect:
  assumes "Trans_checkLoop K now proxy conds st ks c s = Some (st', c', s')" and "inv s"
  shows "inv s' \<and> keeps now view resident s s' \<and> locks s' = locks s \<and> mRequest c' = mRequest c"
  using assms
proof (induction conds arbitrary: st ks c s)
  case (Cons cond conds)
  then obtain brk st1 ks1 c1 s1 where x: "Trans_checkCond K now proxy cond ks c s = Some (brk, st1, ks1, c1, s1)"
    by (auto simp: bind_eq_Some_conv)
  note e = Trans_checkCond_effect [OF x Cons.prems(2)]
  show ?case
  proof (cases brk)
    case True
    then show ?thesis
      using Cons.prems(1) x e by simp
  next
    case False
    then have "Trans_checkLoop K now proxy conds st1 ks1 c1 s1 = Some (st', c', s')"
      using Cons.prems(1) x by simp
    from Cons.IH [OF this] e show ?thesis
      by (auto intro: keeps_trans)
  qed
qed simp

lemma Temp_readKV_effect:
  assumes "Temp_readKV (ReadOnlyKVStore K) now k out (t, s) = Some (st, out', t', s')" and "inv s"
  shows "inv s' \<and> keeps now view resident s s' \<and> locks s' = locks s"
  using assms read_effect [OF _ assms(2)]
  by (auto simp: Temp_readKV_def bind_eq_Some_conv isOK_def Status_ok_def split: option.splits if_splits)

lemma Temp_proxy_effect:
  assumes "Temp_readKVFromProxy (ReadOnlyKVStore K) now k out (t, s) = Some (st, out', t', s')" and "inv s"
  shows "inv s' \<and> keeps now view resident s s' \<and> locks s' = locks s"
  using assms read_effect [OF _ assms(2)] by (auto simp: Temp_readKVFromProxy_def bind_eq_Some_conv)

lemma onTemp_delegate: "onTemp f (t, s) = Some (st, t', s') \<Longrightarrow> s' = s"
  by (simp add: onTemp_def split: prod.splits)

lemma Trans_writeTemp_delegate: "Trans_writeTemp K now e en tt (t, s) = Some (st, es, t', s') \<Longrightarrow> s' = s"
  by (auto simp: Trans_writeTemp_def Let_def bind_eq_Some_conv dest: onTemp_delegate split: if_splits)

lemma Trans_writeEntry_effect:
  assumes "Trans_writeEntry K now c st0 e (t, s) = Some (brk, st, es, t', s')" and "inv s"
  shows "inv s' \<and> keeps now view resident s s' \<and> locks s' = locks s"
  using assms fixTTL_effect [OF _ assms(2)]
  by (auto simp: Trans_writeEntry_def Let_def bind_eq_Some_conv dest: Trans_writeTemp_delegate split: if_splits)

lemma Trans_readEntry_effect:
  assumes "Trans_readEntry K now c e (t, s) = Some (brk, st, es, t', s')" and "inv s"
  shows "inv s' \<and> keeps now view resident s s' \<and> locks s' = locks s"
proof -
  from assms(1) obtain out t1 s1 where
    r: "Trans_readKV (Temporal_ops (ReadOnlyKVStore K)) (Trans_isFollowerReadCmd c) now (ren_key e) noRead (t, s)
          = Some (st, out, t1, s1)"
      "readEvent K (Trans_isFollowerReadCmd c) (tr_isMetaReturned (mRequest c)) (ren_key e) st out s1 = Some (es, s')"
    by (auto simp: Trans_readEntry_def bind_eq_Some_conv Let_def)
  have s1: "inv s1 \<and> keeps now view resident s s1 \<and> locks s1 = locks s"
    using r(1) Temp_readKV_effect [OF _ assms(2)] Temp_proxy_effect [OF _ assms(2)]
    by (auto simp: Trans_readKV_def split: if_splits)
  with readEvent_effect [OF r(2), of now] show ?thesis
    by (auto intro: keeps_trans)
qed

lemma Trans_entry_effect:
  assumes "Trans_entry K now c st0 e (t, s) = Some (brk, st, es, t', s')" and "inv s"
  shows "inv s' \<and> keeps now view resident s s' \<and> locks s' = locks s"
proof (cases e)
  case (RWWrite w)
  with assms Trans_writeEntry_effect [of now c st0 w t s brk st es t' s'] show ?thesis
    by simp
next
  case (RWRead r)
  with assms Trans_readEntry_effect [of now c r t s brk st es t' s'] show ?thesis
    by simp
next
  case (RWRemove d)
  with assms Temp_readKV_effect [OF _ assms(2)] show ?thesis
    by (auto simp: Trans_removeEntry_def bind_eq_Some_conv)
next
  case RWUnset
  with assms show ?thesis
    by simp
qed

lemma Trans_entries_effect:
  assumes "Trans_entries K now c entries st (t, s) = Some (st', es, t', s')" and "inv s"
  shows "inv s' \<and> keeps now view resident s s' \<and> locks s' = locks s"
  using assms
proof (induction entries arbitrary: st t s st' es)
  case (Cons e entries)
  then obtain brk st1 es1 t1 s1 where x: "Trans_entry K now c st e (t, s) = Some (brk, st1, es1, t1, s1)"
    by (auto simp: bind_eq_Some_conv)
  note f = Trans_entry_effect [OF x Cons.prems(2)]
  show ?case
  proof (cases brk)
    case True
    then show ?thesis
      using Cons.prems(1) x f by simp
  next
    case False
    then obtain es2 where "Trans_entries K now c entries st1 (t1, s1) = Some (st', es2, t', s')"
      using Cons.prems(1) x by (auto simp: bind_eq_Some_conv)
    from Cons.IH [OF this] f show ?thesis
      by (auto intro: keeps_trans)
  qed
qed simp

lemma Trans_execute_effect:
  assumes "Trans_execute K now (c, s) = Some (st, es, c', s')" and "inv s"
  shows "inv s' \<and> keeps now view resident s s' \<and> locks s' = locks s \<and> mRequest c' = mRequest c"
proof -
  from assms(1) obtain st1 s1 where x: "Trans_checkPrecond K now (c, s) = Some (st1, c', s1)"
    and rest: "s' = s1 \<or> (\<exists>t'. Trans_entries K now c' (tr_entries (mRequest c')) st1 (newTemporal, s1) = Some (st, es, t', s'))"
    by (auto simp: Trans_execute_def bind_eq_Some_conv split: if_splits)
  have e: "inv s1 \<and> keeps now view resident s s1 \<and> locks s1 = locks s \<and> mRequest c' = mRequest c"
    using x Trans_checkLoop_effect [OF _ assms(2)] by (auto simp: Trans_checkPrecond_def)
  from rest show ?thesis
  proof
    assume "s' = s1"
    with e show ?thesis
      by simp
  next
    assume "\<exists>t'. Trans_entries K now c' (tr_entries (mRequest c')) st1 (newTemporal, s1) = Some (st, es, t', s')"
    then obtain t' where "Trans_entries K now c' (tr_entries (mRequest c')) st1 (newTemporal, s1) = Some (st, es, t', s')" ..
    from Trans_entries_effect [OF this] e show ?thesis
      by (auto intro: keeps_trans)
  qed
qed

lemma Trans_initSuccessResponse_request:
  "Trans_initSuccessResponse ver es c = Some c' \<Longrightarrow> mRequest c' = mRequest c"
  by (auto simp: Trans_initSuccessResponse_def bind_eq_Some_conv Let_def)

lemma trans_command: "kv_command K inv view storable resident locks available (Trans_ops ip K) Trans_getTargetKeys True"
proof (unfold_locales, goal_cases)
  case (1 now c s st c' s')
  then show ?case
    by (intro lockTargets_prepare) (simp_all add: Trans_ops_def)
next
  case (2 now c s st es c' s')
  then show ?case
    using Trans_execute_effect [of now c s st es c' s'] by (simp add: Trans_ops_def Trans_getTargetKeys_def)
next
  case (3 now es c s)
  then show ?case
    by (simp add: Trans_ops_def)
next
  case (4 ver es c c')
  then show ?case
    using Trans_initSuccessResponse_request [of ver es c c'] by (simp add: Trans_ops_def Trans_getTargetKeys_def)
qed

section \<open>Generate\<close>

lemma Generate_readSources_effect:
  assumes "Generate_readSources K now keys m s = Some (st, m', s')" and "inv s"
  shows "inv s' \<and> keeps now view resident s s' \<and> locks s' = locks s"
  using assms
proof (induction keys arbitrary: m s)
  case (Cons k keys)
  then obtain st1 out s1 where x: "kv_readKV K now k noRead s = Some (st1, out, s1)"
    and rest: "s' = s1 \<or> (\<exists>m1. Generate_readSources K now keys m1 s1 = Some (st, m', s'))"
    by (auto simp: bind_eq_Some_conv split: if_splits)
  with read_effect [OF x Cons.prems(2)] Cons.IH [of _ s1] show ?case
    by (auto intro: keeps_trans)
qed simp

lemma Generate_checkReads_effect:
  assumes "Generate_checkReads K now ps s = Some (st, s')" and "inv s"
  shows "inv s' \<and> keeps now view resident s s' \<and> locks s' = locks s"
  using assms
proof (induction ps arbitrary: s)
  case (Cons p ps)
  obtain k v ver where p: "p = (k, v, ver)"
    by (cases p)
  with Cons.prems(1) obtain st1 out s1 where x: "kv_readKV K now k noRead s = Some (st1, out, s1)"
    and rest: "s' = s1 \<or> Generate_checkReads K now ps s1 = Some (st, s')"
    by (auto simp: bind_eq_Some_conv split: if_splits)
  with read_effect [OF x Cons.prems(2)] Cons.IH [of s1] show ?case
    by (auto intro: keeps_trans)
qed simp

lemma Generate_writes_effect:
  assumes "Generate_writes K now ps s = Some (st, es, s')" and "inv s"
  shows "inv s' \<and> keeps now view resident s s' \<and> locks s' = locks s"
  using assms
proof (induction ps arbitrary: s es)
  case (Cons p ps)
  obtain k v where p: "p = (k, v)"
    by (cases p)
  with Cons.prems(1) obtain st1 meta s1 where x: "kv_readMeta K k defaultMeta s = Some (st1, meta, s1)"
    and rest: "s' = s1 \<or> (\<exists>es1. Generate_writes K now ps s1 = Some (st, es1, s'))"
    by (auto simp: bind_eq_Some_conv Let_def split: if_splits)
  with meta_effect [OF x Cons.prems(2)] Cons.IH [of s1] show ?case
    by (auto intro: keeps_trans)
qed simp

lemma Generate_prepare_effect:
  assumes "Generate_prepare K generate now (c, s) = Some (st, c', s')" and "inv s"
  shows "inv s' \<and> keeps now view resident s s' \<and>
    (if isOK st then \<exists>keys s0. inv s0 \<and> locks s0 = locks s \<and> Generate_getTargetKeys c' = Some keys \<and>
                               kv_lock K keys True s0 = Some (Status_ok, s')
     else locks s' = locks s)"
proof -
  from assms(1) obtain st1 m s1 where r: "Generate_readSources K now (gen_srcKeys (mRequest c)) (mKVsToRead c) s = Some (st1, m, s1)"
    and rest: "\<not> isOK st \<and> s' = s1 \<or> (\<exists>c2. lockTargets K Generate_getTargetKeys True (c2, s1) = Some (st, c', s'))"
    by (auto simp: Generate_prepare_def bind_eq_Some_conv Let_def isOK_def Status_notSupported_def split: if_splits)
  note e = Generate_readSources_effect [OF r assms(2)]
  from rest show ?thesis
  proof
    assume "\<not> isOK st \<and> s' = s1"
    with e show ?thesis
      by simp
  next
    assume "\<exists>c2. lockTargets K Generate_getTargetKeys True (c2, s1) = Some (st, c', s')"
    then obtain c2 where "lockTargets K Generate_getTargetKeys True (c2, s1) = Some (st, c', s')" ..
    from lockTargets_prepare [OF this, of now] e show ?thesis
      by (auto intro: keeps_trans)
  qed
qed

lemma Generate_execute_effect:
  assumes "Generate_execute K now (c, s) = Some (st, es, c', s')" and "inv s"
  shows "inv s' \<and> keeps now view resident s s' \<and> locks s' = locks s \<and> c' = c"
proof -
  from assms(1) obtain st1 s1 where r: "Generate_checkReads K now (mKVsToRead c) s = Some (st1, s1)" "c' = c"
    and rest: "s' = s1 \<or> Generate_writes K now (mKVsToWrite c) s1 = Some (st, es, s')"
    by (auto simp: Generate_execute_def bind_eq_Some_conv split: if_splits)
  note e = Generate_checkReads_effect [OF r(1) assms(2)]
  with rest r(2) Generate_writes_effect [of now _ s1 st es s'] show ?thesis
    by (auto intro: keeps_trans)
qed

lemma generate_command:
  "kv_command K inv view storable resident locks available (Generate_ops ip generate K) Generate_getTargetKeys True"
proof (unfold_locales, goal_cases)
  case (1 now c s st c' s')
  then show ?case
    by (intro Generate_prepare_effect) (simp_all add: Generate_ops_def)
next
  case (2 now c s st es c' s')
  then show ?case
    using Generate_execute_effect [of now c s st es c' s'] by (simp add: Generate_ops_def)
next
  case (3 now es c s)
  then show ?case
    by (simp add: Generate_ops_def)
next
  case (4 ver es c c')
  then show ?case
    by (auto simp: Generate_ops_def Generate_initSuccessResponse_def Generate_getTargetKeys_def bind_eq_Some_conv Let_def)
qed

end

section \<open>On the leader's stack\<close>

interpretation leader_temp: kv_cache "Temporal_ops (ReadOnlyKVStore (leaderStack hash lookup L))"
  "Temp_inv (leaderInv hash lookup L)" "Temp_view (leaderView hash lookup L)" "\<lambda>_ _ _ _ _ _. True"
  "Temp_resident (WS_resident hash lookup)"
  for hash lookup L
  by (rule kv_cache.temporal_cache [OF rocks_ro.ws.routed.kv_cache_axioms])

interpretation leader_put: kv_command "leaderStack hash lookup L" "leaderInv hash lookup L" "leaderView hash lookup L"
  "\<lambda>_ _ _ _ _ _. True" "WS_resident hash lookup" WS_locks "WS_available hash lookup"
  "Put_ops ip (leaderStack hash lookup L)" Put_getTargetKeys True
  for hash lookup L ip
  by (rule rocks_ro.ws_commands.put_command)

interpretation leader_import: kv_command "leaderStack hash lookup L" "leaderInv hash lookup L" "leaderView hash lookup L"
  "\<lambda>_ _ _ _ _ _. True" "WS_resident hash lookup" WS_locks "WS_available hash lookup"
  "Import_ops ip (leaderStack hash lookup L)" Put_getTargetKeys True
  for hash lookup L ip
  by (rule rocks_ro.ws_commands.import_command)

interpretation leader_get: kv_command "leaderStack hash lookup L" "leaderInv hash lookup L" "leaderView hash lookup L"
  "\<lambda>_ _ _ _ _ _. True" "WS_resident hash lookup" WS_locks "WS_available hash lookup"
  "Get_ops ip (leaderStack hash lookup L)" Get_getTargetKeys False
  for hash lookup L ip
  by (rule rocks_ro.ws_commands.get_command)

interpretation leader_delete: kv_command "leaderStack hash lookup L" "leaderInv hash lookup L" "leaderView hash lookup L"
  "\<lambda>_ _ _ _ _ _. True" "WS_resident hash lookup" WS_locks "WS_available hash lookup"
  "Delete_ops ip (leaderStack hash lookup L)" Delete_getTargetKeys True
  for hash lookup L ip
  by (rule rocks_ro.ws_commands.delete_command)

interpretation leader_trans: kv_command "leaderStack hash lookup L" "leaderInv hash lookup L" "leaderView hash lookup L"
  "\<lambda>_ _ _ _ _ _. True" "WS_resident hash lookup" WS_locks "WS_available hash lookup"
  "Trans_ops ip (leaderStack hash lookup L)" Trans_getTargetKeys True
  for hash lookup L ip
  by (rule rocks_ro.ws_commands.trans_command)

interpretation leader_generate: kv_command "leaderStack hash lookup L" "leaderInv hash lookup L" "leaderView hash lookup L"
  "\<lambda>_ _ _ _ _ _. True" "WS_resident hash lookup" WS_locks "WS_available hash lookup"
  "Generate_ops ip generate (leaderStack hash lookup L)" Generate_getTargetKeys True
  for hash lookup L ip generate
  by (rule rocks_ro.ws_commands.generate_command)

end
