(* ===== verification/Command_Correct.thy ===== *)
theory Command_Correct
  imports Command_Instances
begin

text \<open>
  The commands that touch one key, run by the processor to the end: on a store that is fit for
  commands they return whenever the lock of their key is free, and what they hand over, answer and
  leave in the store is stated in terms of the store's view.
\<close>

text \<open>The time to live a put ends up with: one that is not given is the one of the live entry.\<close>

definition storedTTL :: "TimeType \<Rightarrow> bool \<Rightarrow> TTLType \<Rightarrow> (ValueType \<times> VersionType \<times> TTLType \<times> TimeType) option \<Rightarrow> bool \<times> TTLType" where
  "storedTTL now enableTTL tt entry =
     (if enableTTL \<and> tt = INFINITE_TTL then
        (case entry of
           Some (v, ver, t, dl) \<Rightarrow> if t \<noteq> INFINITE_TTL \<and> now < dl then (True, t) else (False, INFINITE_TTL)
         | None \<Rightarrow> (False, INFINITE_TTL))
      else (enableTTL, tt))"

context kv_command_store
begin

section \<open>Running a command that locks its targets\<close>

lemma doExecute_locked:
  assumes prep: "cmd_prepare C now = lockTargets K targets x" and fin: "cmd_finish C now = applyAndUnlock K targets x"
    and inv: "inv (mKVStorePtr p)" and av: "available (locks (mKVStorePtr p)) keys x" and t: "targets c = Some keys"
    and body: "\<And>s1. \<lbrakk>inv s1; view s1 = view (mKVStorePtr p); resident s1 = resident (mKVStorePtr p)\<rbrakk> \<Longrightarrow>
      \<exists>st events calls c2 p2. doExecute_body C pre now (c, p\<lparr>mKVStorePtr := s1\<rparr>) = Some (False, st, events, calls, c2, p2) \<and>
        inv (mKVStorePtr p2) \<and> locks (mKVStorePtr p2) = locks s1 \<and> targets c2 = Some keys \<and> P s1 events calls c2 p2"
  obtains s1 events calls c2 p2 s2 s3 where "inv s1" "view s1 = view (mKVStorePtr p)" "resident s1 = resident (mKVStorePtr p)"
    "inv (mKVStorePtr p2)" "P s1 events calls c2 p2" "apply_events K events (mKVStorePtr p2) = Some (Status_ok, s2)"
    "doExecute C pre now (c, p) = Some (calls, c2, p2\<lparr>mKVStorePtr := s3\<rparr>)"
    "inv s3" "view s3 = view s2" "resident s3 = resident s2" "locks s3 = locks (mKVStorePtr p)"
proof -
  from lock_law [OF inv av] obtain s1 where s1: "kv_lock K keys x (mKVStorePtr p) = Some (Status_ok, s1)" "inv s1"
      "view s1 = view (mKVStorePtr p)" "resident s1 = resident (mKVStorePtr p)"
    by blast
  from body [OF s1(2-4)] obtain st events calls c2 p2 where
    p2: "doExecute_body C pre now (c, p\<lparr>mKVStorePtr := s1\<rparr>) = Some (False, st, events, calls, c2, p2)"
      "inv (mKVStorePtr p2)" "P s1 events calls c2 p2" "locks (mKVStorePtr p2) = locks s1" "targets c2 = Some keys"
    by blast
  from apply_events_keeps [OF p2(2), of events] obtain s2 where
    s2: "apply_events K events (mKVStorePtr p2) = Some (Status_ok, s2)" "inv s2" "locks s2 = locks (mKVStorePtr p2)"
    by blast
  with p2(4) have "locks s2 = locks s1"
    by simp
  from unlock_law [OF s1(1) inv s2(2) this] obtain s3 where
    s3: "kv_unlock K keys x s2 = Some (Status_ok, s3)" "inv s3" "view s3 = view s2" "resident s3 = resident s2"
      "locks s3 = locks (mKVStorePtr p)"
    by blast
  have "doExecute C pre now (c, p) = Some (calls, c2, p2\<lparr>mKVStorePtr := s3\<rparr>)"
    by (simp add: doExecute_def prep fin lockTargets_def applyAndUnlock_def t p2(1,5) s1(1) s2(1) s3(1)
        isOK_def Status_ok_def)
  from that [OF s1(2-4) p2(2,3) s2(1) this s3(2-5)] show thesis .
qed

section \<open>Put\<close>

lemma fixTTL_law:
  assumes "inv s" and "en \<and> tt = INFINITE_TTL \<longrightarrow> resident s k" and "storedTTL now en tt (view s k) = (en', tt')"
  shows "\<exists>st s'. fixTTL K now k en tt s = Some (st, en', tt', s') \<and> isOK st \<and> inv s' \<and> view s' = view s \<and>
           resident s' = resident s \<and> locks s' = locks s"
proof (cases "en \<and> tt = INFINITE_TTL")
  case True
  from readMeta_law [OF assms(1), of k defaultMeta] obtain st meta s' where
    m: "kv_readMeta K k defaultMeta s = Some (st, meta, s')" "inv s'" "view s' = view s" "resident s' = resident s"
      "locks s' = locks s" "isOK st" "map_option snd (map_option snd (view s k)) = Some (meta_ttl meta, meta_deadline meta)"
    using True assms(2) by blast
  with True assms(3) show ?thesis
    by (auto simp: fixTTL_def storedTTL_def split: if_splits)
next
  case False
  with assms show ?thesis
    by (auto simp: fixTTL_def storedTTL_def isOK_def Status_ok_def)
qed

lemma put_body:
  assumes "inv s" and "wen_enableTTL e \<and> wen_ttl e = INFINITE_TTL \<longrightarrow> resident s (wen_key e)"
    and "storedTTL now (wen_enableTTL e) (if wen_enableTTL e then wen_ttl e else INFINITE_TTL) (view s (wen_key e)) = (en, tt)"
    and "put_entry (mRequest c) = e"
    and w: "w = (newWriteEvent (wen_key e) (wen_value e) en tt (if en then tt + now else NEVER_EXPIRE) now (wen_udfMeta e) False)
                \<lparr>we_version := mNextVersion vs\<rparr>"
    and r: "Put_initSuccessResponse (mMaxVersion vs) [EvWrite w] c = Some c'"
  shows "\<exists>s'. doExecute_body (Put_ops ip K) None now (c, \<lparr>mVersionStorePtr = vs, mKVStorePtr = s, mCurTerm = term\<rparr>) =
      Some (False, Status_ok, [EvWrite w], [PersistAsync term c' (mNextVersion vs) [EvWrite w]], c',
        \<lparr>mVersionStorePtr = vs\<lparr>mNextVersion := mNextVersion vs + 1\<rparr>, mKVStorePtr = s', mCurTerm = term\<rparr>) \<and>
      inv s' \<and> locks s' = locks s \<and> view s' = view s \<and> resident s' = resident s"
proof -
  from assms(2) have "wen_enableTTL e \<and> (if wen_enableTTL e then wen_ttl e else INFINITE_TTL) = INFINITE_TTL \<longrightarrow> resident s (wen_key e)"
    by auto
  from fixTTL_law [OF assms(1) this assms(3)] obtain st s' where
    f: "fixTTL K now (wen_key e) (wen_enableTTL e) (if wen_enableTTL e then wen_ttl e else INFINITE_TTL) s = Some (st, en, tt, s')"
      "isOK st" "inv s'" "view s' = view s" "resident s' = resident s" "locks s' = locks s"
    by blast
  define ev where "ev = EvWrite (newWriteEvent (wen_key e) (wen_value e) en tt (if en then tt + now else NEVER_EXPIRE) now
    (wen_udfMeta e) False)"
  have x: "Put_execute K now (c, s) = Some (Status_ok, [ev], c, s')"
    using f(1,2) by (simp add: Put_execute_def assms(4) ev_def)
  have ev: "expectedVersionOf [ev] = Some kInvalidVersion" "nonReadEventsOf [ev] = [ev]"
      "assignVersion (mNextVersion vs) ev = Some (EvWrite w)"
    by (simp_all add: ev_def expectedVersionOf_def nonReadEventsOf_def newWriteEvent_def assignVersionW_def w)
  have nr: "nonReadEventsOf [EvWrite w] = [EvWrite w]"
    by (simp add: w nonReadEventsOf_def newWriteEvent_def)
  have "doExecute_hand (Put_ops ip K) [ev] (c, \<lparr>mVersionStorePtr = vs, mKVStorePtr = s', mCurTerm = term\<rparr>) =
     Some ([EvWrite w], [PersistAsync term c' (mNextVersion vs) [EvWrite w]], c',
       \<lparr>mVersionStorePtr = vs\<lparr>mNextVersion := mNextVersion vs + 1\<rparr>, mKVStorePtr = s', mCurTerm = term\<rparr>)"
    using r by (simp add: doExecute_hand_def ev nr allocateNextVersion_def getCurMaxVersion_def Put_ops_def)
  with x f show ?thesis
    by (simp add: doExecute_body_def runPreExecute_def doExecute_run_def isOK_def Status_ok_def) (simp add: Put_ops_def)
qed

lemma put_law:
  assumes "inv (mKVStorePtr p)" and "e = put_entry req"
    and "available (locks (mKVStorePtr p)) [wen_key e] True"
    and "wen_enableTTL e \<and> wen_ttl e = INFINITE_TTL \<longrightarrow> resident (mKVStorePtr p) (wen_key e)"
    and "storedTTL now (wen_enableTTL e) (if wen_enableTTL e then wen_ttl e else INFINITE_TTL)
           (view (mKVStorePtr p) (wen_key e)) = (en, tt)"
    and "ver = mNextVersion (mVersionStorePtr p)" and "dl = (if en then tt + now else NEVER_EXPIRE)"
  shows "\<exists>c' p'. doExecute (Put_ops ip K) None now (newPut req, p) =
        Some ([PersistAsync (mCurTerm p) c' ver
                 [EvWrite \<lparr>we_key = wen_key e, we_value = wen_value e, we_version = ver, we_enableTTL = en, we_ttl = tt,
                    we_deadline = dl, we_updateTime = now, we_udfMeta = wen_udfMeta e, we_isNoOp = False\<rparr>]], c', p') \<and>
      putr_result (mResponse c') = \<lparr>wr_code = RC_OK, wr_message = [], wr_version = ver\<rparr> \<and>
      h_latestVersion (putr_header (mResponse c')) = max ver (mMaxVersion (mVersionStorePtr p)) \<and> mReplies c' = [] \<and>
      mVersionStorePtr p' = (mVersionStorePtr p)\<lparr>mNextVersion := ver + 1\<rparr> \<and> mCurTerm p' = mCurTerm p \<and>
      inv (mKVStorePtr p') \<and> locks (mKVStorePtr p') = locks (mKVStorePtr p) \<and>
      view (mKVStorePtr p') = (view (mKVStorePtr p))(wen_key e \<mapsto> (wen_value e, ver, if en then tt else INFINITE_TTL, dl))"
proof -
  define w where "w = (newWriteEvent (wen_key e) (wen_value e) en tt (if en then tt + now else NEVER_EXPIRE) now (wen_udfMeta e) False)
      \<lparr>we_version := ver\<rparr>"
  define c' where "c' = (newPut req)\<lparr>mResponse := \<lparr>putr_header = emptyHeader\<lparr>h_code := RC_OK,
      h_latestVersion := max ver (mMaxVersion (mVersionStorePtr p))\<rparr>,
      putr_result = \<lparr>wr_code = RC_OK, wr_message = [], wr_version = ver\<rparr>\<rparr>\<rparr>"
  have r: "Put_initSuccessResponse (mMaxVersion (mVersionStorePtr p)) [EvWrite w] (newPut req) = Some c'"
    by (simp add: Put_initSuccessResponse_def newPut_def c'_def w_def newWriteEvent_def emptyWriteResult_def emptyHeader_def)
  define P where "P s1 events calls c2 p2 = (view (mKVStorePtr p2) = view s1 \<and> events = [EvWrite w] \<and>
      calls = [PersistAsync (mCurTerm p) c' ver [EvWrite w]] \<and> c2 = c' \<and>
      mVersionStorePtr p2 = (mVersionStorePtr p)\<lparr>mNextVersion := ver + 1\<rparr> \<and> mCurTerm p2 = mCurTerm p)"
    for s1 events calls c2 and p2 :: "'a Processor"
  have body: "\<exists>st events calls c2 p2. doExecute_body (Put_ops ip K) None now (newPut req, p\<lparr>mKVStorePtr := s1\<rparr>) =
        Some (False, st, events, calls, c2, p2) \<and>
      inv (mKVStorePtr p2) \<and> locks (mKVStorePtr p2) = locks s1 \<and> Put_getTargetKeys c2 = Some [wen_key e] \<and>
      P s1 events calls c2 p2"
    if "inv s1" "view s1 = view (mKVStorePtr p)" "resident s1 = resident (mKVStorePtr p)" for s1
    using put_body [OF that(1), of e now en tt "newPut req" w "mVersionStorePtr p" c' ip "mCurTerm p"] assms r that
    by (cases p) (auto simp: newPut_def w_def P_def c'_def Put_getTargetKeys_def)
  have ops: "cmd_prepare (Put_ops ip K) now = lockTargets K Put_getTargetKeys True"
      "cmd_finish (Put_ops ip K) now = applyAndUnlock K Put_getTargetKeys True"
      "Put_getTargetKeys (newPut req) = Some [wen_key e]"
    by (simp_all add: Put_ops_def Put_getTargetKeys_def newPut_def assms(2))
  obtain s1 events calls c2 p2 s2 s3 where x0: "view s1 = view (mKVStorePtr p)" "inv (mKVStorePtr p2)"
      "P s1 events calls c2 p2" "apply_events K events (mKVStorePtr p2) = Some (Status_ok, s2)"
      "doExecute (Put_ops ip K) None now (newPut req, p) = Some (calls, c2, p2\<lparr>mKVStorePtr := s3\<rparr>)"
      "inv s3" "view s3 = view s2" "locks s3 = locks (mKVStorePtr p)"
    by (rule doExecute_locked [OF ops(1,2) assms(1,3) ops(3) body])
  note x = x0 [unfolded P_def]
  have "view s2 = write_view w (view (mKVStorePtr p2))"
    using apply_events_law [OF x(2), of "[EvWrite w]"] x(3,4) event_storable_any [of "EvWrite w"] by auto
  with x show ?thesis
    by (simp add: c'_def newPut_def w_def newWriteEvent_def write_view_def assms(7))
qed

section \<open>Get\<close>

lemma readEvent_law:
  assumes "inv s" and "isOK st \<or> isNotFound st"
  shows "\<exists>ut um s'. readEvent K False mr k st out s =
      Some ([EvRead \<lparr>re_key = k, re_value = outValue out, re_ttl = outTTL out, re_version = outVersion out,
                    re_isNotFound = isNotFound st, re_updateTime = ut, re_udfMeta = um\<rparr>], s') \<and>
      inv s' \<and> view s' = view s \<and> resident s' = resident s \<and> locks s' = locks s"
proof (cases "isOK st \<and> mr")
  case True
  from readMeta_law [OF assms(1), of k defaultMeta] obtain mst meta s' where
    m: "kv_readMeta K k defaultMeta s = Some (mst, meta, s')" "inv s'" "view s' = view s" "resident s' = resident s"
      "locks s' = locks s"
    by blast
  with True show ?thesis
    by (cases "meta_udfMeta meta")
      (auto simp: readEvent_def newReadEvent_def newReadMetaEvent_def isOK_def isNotFound_def)
next
  case False
  with assms show ?thesis
    by (auto simp: readEvent_def newReadEvent_def isOK_def isNotFound_def)
qed

lemma get_body:
  assumes "inv s" and "get_allowStale (mRequest c) = False" and "k = ren_key (get_entry (mRequest c))"
  shows "\<exists>st rd c' s'. doExecute_body (Get_ops ip K) None now (c, p\<lparr>mKVStorePtr := s\<rparr>) =
      Some (False, st, [EvRead rd], [ReplyAsync 0 (mCurTerm p) (maxReadVersionOf (mVersionStorePtr p) [EvRead rd]) c' False], c',
        p\<lparr>mKVStorePtr := s'\<rparr>) \<and>
      Get_initSuccessResponse (mMaxVersion (mVersionStorePtr p)) [EvRead rd] c = Some c' \<and>
      inv s' \<and> locks s' = locks s \<and> keeps now view resident s s' \<and>
      (case visible now (view s) k of
         Some (v, ver) \<Rightarrow> \<not> re_isNotFound rd \<and> re_value rd = v \<and> re_version rd = ver
       | None \<Rightarrow> re_isNotFound rd)"
proof -
  from read_law [OF assms(1), of now k noRead] obtain st out s1 where
    r: "kv_readKV K now k noRead s = Some (st, out, s1)" "inv s1" "locks s1 = locks s" "keeps now view resident s s1"
      "isOK st \<or> isNotFound st"
      "case visible now (view s) k of Some (v, ver) \<Rightarrow> st = Status_ok \<and> outValue out = v \<and> outVersion out = ver | None \<Rightarrow> isNotFound st"
    by (auto split: option.splits)
  from readEvent_law [OF r(2,5), of "get_isMetaReturned (mRequest c)" k out] obtain ut um s' where
    e: "readEvent K False (get_isMetaReturned (mRequest c)) k st out s1 =
      Some ([EvRead \<lparr>re_key = k, re_value = outValue out, re_ttl = outTTL out, re_version = outVersion out,
                    re_isNotFound = isNotFound st, re_updateTime = ut, re_udfMeta = um\<rparr>], s')"
      "inv s'" "view s' = view s1" "resident s' = resident s1" "locks s' = locks s1"
    by blast
  define rd where "rd = \<lparr>re_key = k, re_value = outValue out, re_ttl = outTTL out, re_version = outVersion out,
                    re_isNotFound = isNotFound st, re_updateTime = ut, re_udfMeta = um\<rparr>"
  have ev: "expectedVersionOf [EvRead rd] = Some kInvalidVersion" "nonReadEventsOf [EvRead rd] = []"
    by (simp_all add: expectedVersionOf_def nonReadEventsOf_def)
  have x: "Get_execute K now (c, s) = Some (st, [EvRead rd], c, s')"
    using r(1) e(1) assms(2,3) by (simp add: Get_execute_def Get_isFollowerReadCmd_def rd_def)
  obtain c' where c': "Get_initSuccessResponse (mMaxVersion (mVersionStorePtr p)) [EvRead rd] c = Some c'"
    by (simp add: Get_initSuccessResponse_def Let_def)
  have "doExecute_body (Get_ops ip K) None now (c, p\<lparr>mKVStorePtr := s\<rparr>) =
      Some (False, st, [EvRead rd], [ReplyAsync 0 (mCurTerm p) (maxReadVersionOf (mVersionStorePtr p) [EvRead rd]) c' False], c',
        p\<lparr>mKVStorePtr := s'\<rparr>)"
    using r(5) x c' by (auto simp: doExecute_body_def runPreExecute_def doExecute_run_def doExecute_hand_def ev
        getCurMaxVersion_def Get_ops_def isOK_def Status_ok_def)
  moreover have "keeps now view resident s s'"
    using r(4) e(3,4) by (simp add: keeps_def)
  moreover have "isNotFound st = (visible now (view s) k = None)"
    using r(6) by (auto simp: isNotFound_def Status_ok_def split: option.splits)
  ultimately show ?thesis
    using r e c' by (auto simp: rd_def split: option.splits)
qed

lemma Get_response:
  assumes "Get_initSuccessResponse curMax [EvRead rd] (newGet req) = Some c'"
  shows "mReplies c' = []" "mRequest c' = req"
    "re_isNotFound rd \<Longrightarrow> rr_code (getr_result (mResponse c')) = RC_KEY_NOT_EXIST"
    "\<not> re_isNotFound rd \<Longrightarrow> rr_code (getr_result (mResponse c')) = RC_OK \<and>
       rr_value (getr_result (mResponse c')) = re_value rd \<and> rr_version (getr_result (mResponse c')) = re_version rd"
    "h_latestVersion (getr_header (mResponse c')) = max curMax (re_version rd)"
  using assms by (auto simp: Get_initSuccessResponse_def newGet_def Let_def appendMeta_def emptyReadResult_def)

lemma get_law:
  assumes "inv (mKVStorePtr p)" and "k = ren_key (get_entry req)" and "available (locks (mKVStorePtr p)) [k] False"
    and "\<not> get_allowStale req"
  shows "\<exists>ver c' p'. doExecute (Get_ops ip K) None now (newGet req, p) = Some ([ReplyAsync 0 (mCurTerm p) ver c' False], c', p') \<and>
      mReplies c' = [] \<and> mVersionStorePtr p' = mVersionStorePtr p \<and>
      inv (mKVStorePtr p') \<and> locks (mKVStorePtr p') = locks (mKVStorePtr p) \<and>
      stable now (view (mKVStorePtr p)) (view (mKVStorePtr p')) \<and>
      (case visible now (view (mKVStorePtr p)) k of
         Some (v, ver') \<Rightarrow> rr_code (getr_result (mResponse c')) = RC_OK \<and> rr_value (getr_result (mResponse c')) = v \<and>
           rr_version (getr_result (mResponse c')) = ver' \<and> ver = ver'
       | None \<Rightarrow> rr_code (getr_result (mResponse c')) = RC_KEY_NOT_EXIST)"
proof -
  define P where "P s1 events calls c2 p2 = (\<exists>rd s'. events = [EvRead rd] \<and> p2 = p\<lparr>mKVStorePtr := s'\<rparr> \<and>
      calls = [ReplyAsync 0 (mCurTerm p) (maxReadVersionOf (mVersionStorePtr p) [EvRead rd]) c2 False] \<and>
      Get_initSuccessResponse (mMaxVersion (mVersionStorePtr p)) [EvRead rd] (newGet req) = Some c2 \<and>
      keeps now view resident s1 s' \<and>
      (case visible now (view s1) k of
         Some (v, ver) \<Rightarrow> \<not> re_isNotFound rd \<and> re_value rd = v \<and> re_version rd = ver
       | None \<Rightarrow> re_isNotFound rd))" for s1 events calls c2 and p2 :: "'a Processor"
  have body: "\<exists>st events calls c2 p2. doExecute_body (Get_ops ip K) None now (newGet req, p\<lparr>mKVStorePtr := s1\<rparr>) =
        Some (False, st, events, calls, c2, p2) \<and>
      inv (mKVStorePtr p2) \<and> locks (mKVStorePtr p2) = locks s1 \<and> Get_getTargetKeys c2 = Some [k] \<and> P s1 events calls c2 p2"
    if "inv s1" for s1
  proof -
    have "get_allowStale (mRequest (newGet req)) = False" "k = ren_key (get_entry (mRequest (newGet req)))"
      using assms(2,4) by (simp_all add: newGet_def)
    from get_body [OF that this, of ip now p] obtain st rd c' s' where
      b: "doExecute_body (Get_ops ip K) None now (newGet req, p\<lparr>mKVStorePtr := s1\<rparr>) =
        Some (False, st, [EvRead rd], [ReplyAsync 0 (mCurTerm p) (maxReadVersionOf (mVersionStorePtr p) [EvRead rd]) c' False], c',
          p\<lparr>mKVStorePtr := s'\<rparr>)"
      "Get_initSuccessResponse (mMaxVersion (mVersionStorePtr p)) [EvRead rd] (newGet req) = Some c'"
      "inv s'" "locks s' = locks s1" "keeps now view resident s1 s'"
      "case visible now (view s1) k of
         Some (v, ver) \<Rightarrow> \<not> re_isNotFound rd \<and> re_value rd = v \<and> re_version rd = ver
       | None \<Rightarrow> re_isNotFound rd"
      by (elim exE conjE) (rule that)
    have "P s1 [EvRead rd] [ReplyAsync 0 (mCurTerm p) (maxReadVersionOf (mVersionStorePtr p) [EvRead rd]) c' False] c'
        (p\<lparr>mKVStorePtr := s'\<rparr>)"
      unfolding P_def using b(2,5,6) by (intro exI conjI) (rule refl | assumption)+
    moreover have "Get_getTargetKeys c' = Some [k]"
      using Get_response(2) [OF b(2)] assms(2) by (simp add: Get_getTargetKeys_def)
    ultimately show ?thesis
      using b(1,3,4) by (intro exI conjI) (assumption | simp)+
  qed
  have ops: "cmd_prepare (Get_ops ip K) now = lockTargets K Get_getTargetKeys False"
      "cmd_finish (Get_ops ip K) now = applyAndUnlock K Get_getTargetKeys False"
      "Get_getTargetKeys (newGet req) = Some [k]"
    by (simp_all add: Get_ops_def Get_getTargetKeys_def newGet_def assms(2))
  obtain s1 events calls c2 p2 s2 s3 where x: "view s1 = view (mKVStorePtr p)"
      "P s1 events calls c2 p2" "apply_events K events (mKVStorePtr p2) = Some (Status_ok, s2)"
      "doExecute (Get_ops ip K) None now (newGet req, p) = Some (calls, c2, p2\<lparr>mKVStorePtr := s3\<rparr>)"
      "inv s3" "view s3 = view s2" "locks s3 = locks (mKVStorePtr p)"
    by (rule doExecute_locked [OF ops(1,2) assms(1,3) ops(3) body])
  from x(2) obtain rd s' where
    y: "events = [EvRead rd]" "p2 = p\<lparr>mKVStorePtr := s'\<rparr>"
      "calls = [ReplyAsync 0 (mCurTerm p) (maxReadVersionOf (mVersionStorePtr p) [EvRead rd]) c2 False]"
      "Get_initSuccessResponse (mMaxVersion (mVersionStorePtr p)) [EvRead rd] (newGet req) = Some c2"
      "keeps now view resident s1 s'"
      "case visible now (view s1) k of
         Some (v, ver) \<Rightarrow> \<not> re_isNotFound rd \<and> re_value rd = v \<and> re_version rd = ver
       | None \<Rightarrow> re_isNotFound rd"
    unfolding P_def by (elim exE conjE) (rule that)
  note resp = Get_response [OF y(4)]
  have "s2 = s'"
    using x(3) by (simp add: y(1,2) isOK_def Status_ok_def)
  then have "stable now (view (mKVStorePtr p)) (view s3)"
    using y(5) x(1,6) by (simp add: keeps_def)
  moreover have "\<not> re_isNotFound rd \<Longrightarrow> maxReadVersionOf (mVersionStorePtr p) [EvRead rd] = re_version rd"
    by (simp add: maxReadVersionOf_def kInvalidVersion_def)
  ultimately show ?thesis
    using x(4,5,7) y(2,3,6) resp(1,3,4) x(1) by (auto split: option.splits)
qed

section \<open>Delete\<close>

lemma delete_body:
  assumes "inv s" and "e = del_entry (mRequest c)" and "visible now (view s) (den_key e) = Some (v, ver)"
    and "den_version e = kInvalidVersion \<or> den_version e = ver"
    and "d = \<lparr>de_key = den_key e, de_deletedValue = (if del_returnValue (mRequest c) then v else []), de_deletedVersion = ver,
              de_version = mNextVersion vs\<rparr>"
    and r: "Delete_initSuccessResponse (mMaxVersion vs) [EvDelete d] c = Some c'"
  shows "\<exists>s'. doExecute_body (Delete_ops ip K) None now (c, \<lparr>mVersionStorePtr = vs, mKVStorePtr = s, mCurTerm = term\<rparr>) =
      Some (False, Status_ok, [EvDelete d], [PersistAsync term c' (mNextVersion vs) [EvDelete d]], c',
        \<lparr>mVersionStorePtr = vs\<lparr>mNextVersion := mNextVersion vs + 1\<rparr>, mKVStorePtr = s', mCurTerm = term\<rparr>) \<and>
      inv s' \<and> locks s' = locks s \<and> view s' = view s \<and> resident s' = resident s"
proof -
  from read_law [OF assms(1), of now "den_key e" noRead] obtain out s' where
    f: "kv_readKV K now (den_key e) noRead s = Some (Status_ok, out, s')" "outValue out = v" "outVersion out = ver"
      "inv s'" "view s' = view s" "resident s' = resident s" "locks s' = locks s"
    unfolding assms(3) by auto
  define ev where "ev = newDeleteEvent (den_key e) (if del_returnValue (mRequest c) then v else []) ver"
  have x: "Delete_execute K now (c, s) = Some (Status_ok, [ev], c, s')"
    using f(1-3) assms(4) by (auto simp: Delete_execute_def assms(2) [symmetric] removeEvent_def ev_def isNotFound_def isOK_def Status_ok_def)
  have ev: "expectedVersionOf [ev] = Some kInvalidVersion" "nonReadEventsOf [ev] = [ev]"
      "assignVersion (mNextVersion vs) ev = Some (EvDelete d)" "nonReadEventsOf [EvDelete d] = [EvDelete d]"
    by (simp_all add: ev_def expectedVersionOf_def nonReadEventsOf_def newDeleteEvent_def assms(5))
  have "doExecute_hand (Delete_ops ip K) [ev] (c, \<lparr>mVersionStorePtr = vs, mKVStorePtr = s', mCurTerm = term\<rparr>) =
     Some ([EvDelete d], [PersistAsync term c' (mNextVersion vs) [EvDelete d]], c',
       \<lparr>mVersionStorePtr = vs\<lparr>mNextVersion := mNextVersion vs + 1\<rparr>, mKVStorePtr = s', mCurTerm = term\<rparr>)"
    using r by (simp add: doExecute_hand_def ev allocateNextVersion_def getCurMaxVersion_def Delete_ops_def)
  with x f show ?thesis
    by (simp add: doExecute_body_def runPreExecute_def doExecute_run_def isOK_def Status_ok_def) (simp add: Delete_ops_def)
qed

lemma delete_law:
  assumes "inv (mKVStorePtr p)" and "e = del_entry req" and "available (locks (mKVStorePtr p)) [den_key e] True"
    and "visible now (view (mKVStorePtr p)) (den_key e) = Some (v, ver)" and "resident (mKVStorePtr p) (den_key e)"
    and "den_version e = kInvalidVersion \<or> den_version e = ver"
    and "newVer = mNextVersion (mVersionStorePtr p)" and "rv = (if del_returnValue req then v else [])"
  shows "\<exists>c' p'. doExecute (Delete_ops ip K) None now (newDelete req, p) =
        Some ([PersistAsync (mCurTerm p) c' newVer
                 [EvDelete \<lparr>de_key = den_key e, de_deletedValue = rv, de_deletedVersion = ver, de_version = newVer\<rparr>]], c', p') \<and>
      delr_result (mResponse c') = \<lparr>dr_code = RC_OK, dr_message = [], dr_version = ver, dr_value = rv\<rparr> \<and> mReplies c' = [] \<and>
      mVersionStorePtr p' = (mVersionStorePtr p)\<lparr>mNextVersion := newVer + 1\<rparr> \<and>
      inv (mKVStorePtr p') \<and> locks (mKVStorePtr p') = locks (mKVStorePtr p) \<and>
      view (mKVStorePtr p') = (view (mKVStorePtr p))(den_key e := None)"
proof -
  define d where "d = \<lparr>de_key = den_key e, de_deletedValue = rv, de_deletedVersion = ver, de_version = newVer\<rparr>"
  define c' where "c' = (newDelete req)\<lparr>mResponse := \<lparr>delr_header = emptyHeader\<lparr>h_code := RC_OK,
      h_latestVersion := max newVer (mMaxVersion (mVersionStorePtr p))\<rparr>,
      delr_result = \<lparr>dr_code = RC_OK, dr_message = [], dr_version = ver, dr_value = rv\<rparr>\<rparr>\<rparr>"
  have r: "Delete_initSuccessResponse (mMaxVersion (mVersionStorePtr p)) [EvDelete d] (newDelete req) = Some c'"
    by (simp add: Delete_initSuccessResponse_def newDelete_def c'_def d_def emptyRemoveResult_def emptyHeader_def)
  define P where "P s1 events calls c2 p2 = (view (mKVStorePtr p2) = view s1 \<and> resident (mKVStorePtr p2) = resident s1 \<and>
      events = [EvDelete d] \<and> calls = [PersistAsync (mCurTerm p) c' newVer [EvDelete d]] \<and> c2 = c' \<and>
      mVersionStorePtr p2 = (mVersionStorePtr p)\<lparr>mNextVersion := newVer + 1\<rparr>)"
    for s1 events calls c2 and p2 :: "'a Processor"
  have body: "\<exists>st events calls c2 p2. doExecute_body (Delete_ops ip K) None now (newDelete req, p\<lparr>mKVStorePtr := s1\<rparr>) =
        Some (False, st, events, calls, c2, p2) \<and>
      inv (mKVStorePtr p2) \<and> locks (mKVStorePtr p2) = locks s1 \<and> Delete_getTargetKeys c2 = Some [den_key e] \<and>
      P s1 events calls c2 p2"
    if "inv s1" "view s1 = view (mKVStorePtr p)" "resident s1 = resident (mKVStorePtr p)" for s1
    using delete_body [OF that(1), of e "newDelete req" now v ver d "mVersionStorePtr p" c' ip "mCurTerm p"] assms r that
    by (cases p) (auto simp: newDelete_def d_def P_def c'_def Delete_getTargetKeys_def)
  have ops: "cmd_prepare (Delete_ops ip K) now = lockTargets K Delete_getTargetKeys True"
      "cmd_finish (Delete_ops ip K) now = applyAndUnlock K Delete_getTargetKeys True"
      "Delete_getTargetKeys (newDelete req) = Some [den_key e]"
    by (simp_all add: Delete_ops_def Delete_getTargetKeys_def newDelete_def assms(2))
  obtain s1 events calls c2 p2 s2 s3 where x0: "view s1 = view (mKVStorePtr p)" "resident s1 = resident (mKVStorePtr p)"
      "inv (mKVStorePtr p2)" "P s1 events calls c2 p2" "apply_events K events (mKVStorePtr p2) = Some (Status_ok, s2)"
      "doExecute (Delete_ops ip K) None now (newDelete req, p) = Some (calls, c2, p2\<lparr>mKVStorePtr := s3\<rparr>)"
      "inv s3" "view s3 = view s2" "locks s3 = locks (mKVStorePtr p)"
    by (rule doExecute_locked [OF ops(1,2) assms(1,3) ops(3) body])
  note x = x0 [unfolded P_def]
  have "view s2 = (view (mKVStorePtr p2))(den_key e := None)"
    using deleteKV_law [OF x(3), of "den_key e" newVer ver] x(2,4,5) assms(5) by (auto simp: d_def isOK_def Status_ok_def)
  with x show ?thesis
    by (simp add: c'_def newDelete_def d_def)
qed

end

end
