(* ===== verification/Trans_Correct.thy ===== *)
theory Trans_Correct
  imports Command_Correct
begin

text \<open>
  Transactions, run by the processor to the end: a transaction of writes is one bundle of one
  version, a transaction whose precondition does not hold leaves nothing behind, and a read inside a
  transaction sees what the transaction wrote before.
\<close>

text \<open>The write event of an entry that gives its time to live.\<close>

definition transWrite :: "TimeType \<Rightarrow> WriteEntry \<Rightarrow> WriteEvent" where
  "transWrite now e =
     (let en = wen_enableTTL e; tt = (if en then wen_ttl e else INFINITE_TTL)
      in newWriteEvent (wen_key e) (wen_value e) en tt (if en then tt + now else NEVER_EXPIRE) now (wen_udfMeta e) False)"

text \<open>Conditions on the version and on the existence of a key, and what they ask of a view.\<close>

fun plainCond :: "Precondition \<Rightarrow> bool" where
  "plainCond (VersionCond _ _ op) = (op = CMP_EQUAL)"
| "plainCond (ExistCond _ _) = True"
| "plainCond _ = False"

fun condHolds :: "TimeType \<Rightarrow> View \<Rightarrow> Precondition \<Rightarrow> bool" where
  "condHolds now f (VersionCond k expected _) = (\<exists>v. visible now f k = Some (v, expected))"
| "condHolds now f (ExistCond k shouldExist) = ((visible now f k \<noteq> None) = shouldExist)"
| "condHolds now f _ = False"

text \<open>A condition that can be judged by the view: no entry that has timed out is in the way, which the
  first read would remove.\<close>

definition judgeable :: "TimeType \<Rightarrow> View \<Rightarrow> Precondition \<Rightarrow> bool" where
  "judgeable now f cond = (plainCond cond \<and> (\<forall>k \<in> set (condKeys cond). \<not> expired now f k))"

lemma judgeable_stable:
  assumes "stable now f g" and "judgeable now f cond"
  shows "condHolds now g cond = condHolds now f cond" and "judgeable now g cond"
proof -
  have "g k = f k" if "k \<in> set (condKeys cond)" for k
    using assms that by (auto simp: stable_def judgeable_def)
  then show "condHolds now g cond = condHolds now f cond" "judgeable now g cond"
    using assms(2) by (cases cond; auto simp: judgeable_def visible_def expired_def)+
qed

text \<open>The event of a read of a key shows what is visible of it, and so does its result.\<close>

definition readSeen :: "TimeType \<Rightarrow> View \<Rightarrow> ReadEntry \<Rightarrow> ReadEvent \<Rightarrow> bool" where
  "readSeen now f e rd = (case visible now f (ren_key e) of
      Some (v, ver) \<Rightarrow> \<not> re_isNotFound rd \<and> re_value rd = v \<and> re_version rd = ver
    | None \<Rightarrow> re_isNotFound rd)"

definition resultSeen :: "TimeType \<Rightarrow> View \<Rightarrow> ReadEntry \<Rightarrow> ReadWriteResult \<Rightarrow> bool" where
  "resultSeen now f e res = (\<exists>rr. res = RRRead rr \<and> (case visible now f (ren_key e) of
      Some (v, ver) \<Rightarrow> rr_code rr = RC_OK \<and> rr_value rr = v \<and> rr_version rr = ver
    | None \<Rightarrow> rr_code rr = RC_KEY_NOT_EXIST))"

lemma Trans_results_reads:
  assumes "list_all2 (readSeen now f) rs rds"
  shows "\<exists>ress latest'. Trans_results False Map.empty latest (map RWRead rs) (map EvRead rds) = Some (ress, latest') \<and>
      list_all2 (resultSeen now f) rs ress"
  using assms
proof (induction rs rds arbitrary: latest rule: list_all2_induct)
  case (Cons e rs rd rds)
  obtain res latest1 where "Trans_entryResult False Map.empty latest (RWRead e) (EvRead rd) = Some (res, Map.empty, latest1)"
      "resultSeen now f e res"
    using Cons.hyps(1) by (auto simp: Trans_entryResult_def resultSeen_def readSeen_def Let_def split: option.splits)
  with Cons.IH [of latest1] show ?case
    by auto
qed simp

lemma assignVersions_transWrites:
  "assignVersions ver (map (\<lambda>e. EvWrite (transWrite now e)) ws) =
     Some (map (\<lambda>e. EvWrite ((transWrite now e)\<lparr>we_version := ver\<rparr>)) ws)"
  by (induction ws) (simp_all add: transWrite_def newWriteEvent_def assignVersionW_def Let_def)

lemma expectedVersionOf_writes: "expectedVersionOf (map (\<lambda>e. EvWrite (f e)) ws) = Some kInvalidVersion"
proof -
  have "foldl (\<lambda>acc e. case e of EvImport _ imported \<Rightarrow> do { _ \<leftarrow> acc; assert (length es = 1); Some imported } | _ \<Rightarrow> acc)
      acc (map (\<lambda>e. EvWrite (f e)) ws) = acc" for acc es
    by (induction ws) simp_all
  then show ?thesis
    by (simp add: expectedVersionOf_def)
qed

lemma nonReadEventsOf_transWrites:
  "nonReadEventsOf (map (\<lambda>e. EvWrite (transWrite now e)) ws) = map (\<lambda>e. EvWrite (transWrite now e)) ws"
  "nonReadEventsOf (map (\<lambda>e. EvWrite ((transWrite now e)\<lparr>we_version := ver\<rparr>)) ws) =
     map (\<lambda>e. EvWrite ((transWrite now e)\<lparr>we_version := ver\<rparr>)) ws"
  by (induction ws) (simp_all add: nonReadEventsOf_def transWrite_def newWriteEvent_def Let_def)

lemma Trans_results_writes:
  "\<exists>latest'. Trans_results mr nk latest (map RWWrite ws) (map (\<lambda>e. EvWrite ((f e)\<lparr>we_version := ver\<rparr>)) ws) =
     Some (map (\<lambda>_. RRWrite \<lparr>wr_code = RC_OK, wr_message = [], wr_version = ver\<rparr>) ws, latest')"
proof (induction ws arbitrary: nk latest)
  case (Cons e ws)
  define nk' where "nk' = nk(we_key (f e) \<mapsto> ver)"
  have "Trans_entryResult mr nk latest (RWWrite e) (EvWrite ((f e)\<lparr>we_version := ver\<rparr>)) =
      Some (RRWrite \<lparr>wr_code = RC_OK, wr_message = [], wr_version = ver\<rparr>, nk', max ver latest)"
    by (simp add: Trans_entryResult_def emptyWriteResult_def nk'_def)
  with Cons.IH [of nk' "max ver latest"] show ?case
    by auto
qed simp

context kv_command_store
begin

section \<open>Conditions\<close>

lemma checkCond_law:
  assumes "inv s" and "plainCond cond"
  shows "\<exists>st s'. Trans_checkCond K now False cond ks c s = Some (\<not> condHolds now (view s) cond, st, ks, c, s') \<and> inv s' \<and>
      locks s' = locks s \<and> keeps now view resident s s' \<and>
      (if condHolds now (view s) cond then st = Status_ok else \<exists>msg. st = Status_precondUnmatched msg)"
proof -
  have read: "\<exists>st out s'. kv_readKV K now k noRead s = Some (st, out, s') \<and> inv s' \<and> locks s' = locks s \<and> keeps now view resident s s' \<and>
      (case visible now (view s) k of Some (v, ver) \<Rightarrow> st = Status_ok \<and> outVersion out = ver | None \<Rightarrow> isNotFound st)" for k
    using read_law [OF assms(1), of now k noRead] by (auto split: option.splits)
  show ?thesis
  proof (cases cond)
    case (VersionCond k expected op)
    from read [of k] obtain st out s' where
      "kv_readKV K now k noRead s = Some (st, out, s')" "inv s'" "locks s' = locks s" "keeps now view resident s s'"
      "case visible now (view s) k of Some (v, ver) \<Rightarrow> st = Status_ok \<and> outVersion out = ver | None \<Rightarrow> isNotFound st"
      by blast
    then show ?thesis
      using assms(2) VersionCond
      by (auto simp: Trans_checkCond_def Trans_readKV_def isOK_def isNotFound_def Status_ok_def split: option.splits)
  next
    case (ExistCond k shouldExist)
    from read [of k] obtain st out s' where
      "kv_readKV K now k noRead s = Some (st, out, s')" "inv s'" "locks s' = locks s" "keeps now view resident s s'"
      "case visible now (view s) k of Some (v, ver) \<Rightarrow> st = Status_ok \<and> outVersion out = ver | None \<Rightarrow> isNotFound st"
      by blast
    then show ?thesis
      using ExistCond
      by (cases shouldExist) (auto simp: Trans_checkCond_def Trans_readKV_def isOK_def isNotFound_def Status_ok_def split: option.splits)
  qed (use assms(2) in auto)
qed

lemma checkLoop_law:
  assumes "inv s" and "\<forall>cond \<in> set conds. judgeable now (view s) cond"
  shows "\<exists>st s'. Trans_checkLoop K now False conds Status_ok ks c s = Some (st, c, s') \<and> inv s' \<and>
      locks s' = locks s \<and> keeps now view resident s s' \<and>
      (if \<forall>cond \<in> set conds. condHolds now (view s) cond then st = Status_ok else \<exists>msg. st = Status_precondUnmatched msg)"
  using assms
proof (induction conds arbitrary: s)
  case (Cons cond conds)
  then have "plainCond cond"
    by (simp add: judgeable_def)
  from checkCond_law [OF Cons.prems(1) this, of now ks c] obtain st1 s1 where
    s1: "Trans_checkCond K now False cond ks c s = Some (\<not> condHolds now (view s) cond, st1, ks, c, s1)" "inv s1"
      "locks s1 = locks s" "keeps now view resident s s1"
      "if condHolds now (view s) cond then st1 = Status_ok else \<exists>msg. st1 = Status_precondUnmatched msg"
    by blast
  show ?case
  proof (cases "condHolds now (view s) cond")
    case True
    have "stable now (view s) (view s1)"
      using s1(4) by (simp add: keeps_def)
    with judgeable_stable Cons.prems(2) have
      j: "\<forall>cond \<in> set conds. judgeable now (view s1) cond \<and> condHolds now (view s1) cond = condHolds now (view s) cond"
      by (metis list.set_intros(2))
    with Cons.IH [OF s1(2)] obtain st s' where
      s': "Trans_checkLoop K now False conds Status_ok ks c s1 = Some (st, c, s')" "inv s'" "locks s' = locks s1"
        "keeps now view resident s1 s'"
        "if \<forall>cond \<in> set conds. condHolds now (view s1) cond then st = Status_ok else \<exists>msg. st = Status_precondUnmatched msg"
      by blast
    have "keeps now view resident s s'"
      using keeps_trans [OF s1(4) s'(4)] .
    with s' s1 True j show ?thesis
      by (intro exI [of _ st] exI [of _ s']) auto
  qed (use s1 in auto)
qed (auto intro!: exI)

lemma newTrans_checks:
  assumes "inv s" and "\<forall>cond \<in> set (tr_preconds req). judgeable now (view s) cond" and "\<not> Trans_isFollowerReadCmd (newTrans req)"
  shows "\<exists>st s'. Trans_checkPrecond K now (newTrans req, s) = Some (st, newTrans req, s') \<and> inv s' \<and> locks s' = locks s \<and>
      keeps now view resident s s' \<and>
      (if \<forall>cond \<in> set (tr_preconds req). condHolds now (view s) cond then st = Status_ok else \<exists>msg. st = Status_precondUnmatched msg)"
  using checkLoop_law [OF assms(1,2), of "{}" "newTrans req"] assms(3) by (simp add: Trans_checkPrecond_def newTrans_def)

section \<open>Transactions of writes\<close>

lemma Trans_writeEntry_law:
  assumes "\<not> (wen_enableTTL e \<and> wen_ttl e = INFINITE_TTL)" and "ignoredUdfUintKeys c = {}" and "udfUintKey2Meta c = Map.empty"
  shows "\<exists>t'. Trans_writeEntry K now c st0 e (t, s) = Some (False, Status_ok, [EvWrite (transWrite now e)], t', s) \<and>
           t_mData t' (wen_key e) = Some (wen_value e, kInvalidVersion, we_ttl (transWrite now e), we_deadline (transWrite now e), now)"
  using assms
  by (auto simp: Trans_writeEntry_def fixTTL_def Trans_identical_def Trans_writeTemp_def onTemp_def Temp_writeTTLKV_def
      Temp_writeKV_def transWrite_def newWriteEvent_def Let_def isOK_def Status_ok_def)

lemma Trans_entries_writes:
  assumes "\<forall>e \<in> set ws. \<not> (wen_enableTTL e \<and> wen_ttl e = INFINITE_TTL)" and "ignoredUdfUintKeys c = {}"
    and "udfUintKey2Meta c = Map.empty"
  shows "\<exists>t'. Trans_entries K now c (map RWWrite ws) Status_ok (t, s) =
           Some (Status_ok, map (\<lambda>e. EvWrite (transWrite now e)) ws, t', s)"
  using assms(1)
proof (induction ws arbitrary: t)
  case (Cons e ws)
  then obtain t1 where t1: "Trans_writeEntry K now c Status_ok e (t, s) =
      Some (False, Status_ok, [EvWrite (transWrite now e)], t1, s)"
    using Trans_writeEntry_law [OF _ assms(2,3), of e now Status_ok t s] by auto
  from Cons obtain t2 where "Trans_entries K now c (map RWWrite ws) Status_ok (t1, s) =
      Some (Status_ok, map (\<lambda>e. EvWrite (transWrite now e)) ws, t2, s)"
    by auto
  with t1 show ?case
    by simp
qed simp

lemma newTrans_entries_writes:
  assumes "\<forall>e \<in> set ws. \<not> (wen_enableTTL e \<and> wen_ttl e = INFINITE_TTL)"
  shows "\<exists>t'. Trans_entries K now (newTrans req) (map RWWrite ws) Status_ok (newTemporal, s) =
      Some (Status_ok, map (\<lambda>e. EvWrite (transWrite now e)) ws, t', s)"
  using Trans_entries_writes [OF assms] by (simp add: newTrans_def)

lemma trans_writes_hand:
  assumes "tr_entries req = map RWWrite ws" and "ws \<noteq> []" and "ver = mNextVersion (mVersionStorePtr p)"
    and evs: "evs = map (\<lambda>e. EvWrite ((transWrite now e)\<lparr>we_version := ver\<rparr>)) ws"
  shows "\<exists>c'. doExecute_hand (Trans_ops ip K) (map (\<lambda>e. EvWrite (transWrite now e)) ws) (newTrans req, p) =
      Some (evs, [PersistAsync (mCurTerm p) c' ver evs], c', p\<lparr>mVersionStorePtr := (mVersionStorePtr p)\<lparr>mNextVersion := ver + 1\<rparr>\<rparr>) \<and>
      trr_results (mResponse c') = map (\<lambda>_. RRWrite \<lparr>wr_code = RC_OK, wr_message = [], wr_version = ver\<rparr>) ws \<and>
      mReplies c' = [] \<and> mRequest c' = req"
proof -
  define es where "es = map (\<lambda>e. EvWrite (transWrite now e)) ws"
  obtain latest where "Trans_results (tr_isMetaReturned req) Map.empty (getCurMaxVersion (mVersionStorePtr p)) (map RWWrite ws) evs =
      Some (map (\<lambda>_. RRWrite \<lparr>wr_code = RC_OK, wr_message = [], wr_version = ver\<rparr>) ws, latest)"
    using Trans_results_writes [where f = "transWrite now" and ver = ver and ws = ws] unfolding evs by blast
  then obtain c' where c': "Trans_initSuccessResponse (getCurMaxVersion (mVersionStorePtr p)) evs (newTrans req) = Some c'"
      "trr_results (mResponse c') = map (\<lambda>_. RRWrite \<lparr>wr_code = RC_OK, wr_message = [], wr_version = ver\<rparr>) ws"
      "mReplies c' = []" "mRequest c' = req"
    using assms(1,2) by (auto simp: Trans_initSuccessResponse_def newTrans_def evs)
  have e: "expectedVersionOf es = Some kInvalidVersion" "nonReadEventsOf es = es" "es \<noteq> []"
      "assignVersions ver es = Some evs" "nonReadEventsOf evs = evs"
    unfolding es_def evs
    by (rule expectedVersionOf_writes nonReadEventsOf_transWrites assignVersions_transWrites | use assms(2) in simp)+
  have "doExecute_hand (Trans_ops ip K) es (newTrans req, p) = Some (evs, [PersistAsync (mCurTerm p) c' ver evs], c',
      p\<lparr>mVersionStorePtr := (mVersionStorePtr p)\<lparr>mNextVersion := ver + 1\<rparr>\<rparr>)"
    using e c'(1) assms(3) by (simp add: doExecute_hand_def allocateNextVersion_def Trans_ops_def Let_def)
  with c' show ?thesis
    unfolding es_def by blast
qed

lemma writes_no_follower:
  assumes "tr_entries req = map RWWrite ws" and "ws \<noteq> []"
  shows "\<not> Trans_isFollowerReadCmd (newTrans req)"
  using assms by (cases ws) (auto simp: Trans_isFollowerReadCmd_def newTrans_def)

lemma trans_writes_body:
  assumes "inv s" and "\<forall>cond \<in> set (tr_preconds req). judgeable now (view s) cond \<and> condHolds now (view s) cond"
    and "tr_entries req = map RWWrite ws" and "ws \<noteq> []"
    and "\<forall>e \<in> set ws. \<not> (wen_enableTTL e \<and> wen_ttl e = INFINITE_TTL)" and "ver = mNextVersion (mVersionStorePtr p)"
    and evs: "evs = map (\<lambda>e. EvWrite ((transWrite now e)\<lparr>we_version := ver\<rparr>)) ws"
  shows "\<exists>c' s'. doExecute_body (Trans_ops ip K) None now (newTrans req, p\<lparr>mKVStorePtr := s\<rparr>) =
      Some (False, Status_ok, evs, [PersistAsync (mCurTerm p) c' ver evs], c',
        p\<lparr>mKVStorePtr := s', mVersionStorePtr := (mVersionStorePtr p)\<lparr>mNextVersion := ver + 1\<rparr>\<rparr>) \<and>
      trr_results (mResponse c') = map (\<lambda>_. RRWrite \<lparr>wr_code = RC_OK, wr_message = [], wr_version = ver\<rparr>) ws \<and>
      mReplies c' = [] \<and> mRequest c' = req \<and> inv s' \<and> locks s' = locks s \<and> keeps now view resident s s'"
proof -
  define es where "es = map (\<lambda>e. EvWrite (transWrite now e)) ws"
  from newTrans_checks [OF assms(1) _ writes_no_follower [OF assms(3,4)], of now] assms(2) obtain s' where
    s': "Trans_checkPrecond K now (newTrans req, s) = Some (Status_ok, newTrans req, s')" "inv s'" "locks s' = locks s"
      "keeps now view resident s s'"
    by auto
  from newTrans_entries_writes [OF assms(5), of now req s'] obtain t' where
    "Trans_entries K now (newTrans req) (map RWWrite ws) Status_ok (newTemporal, s') = Some (Status_ok, es, t', s')"
    unfolding es_def by blast
  moreover have "mRequest (newTrans req) = req"
    by (simp add: newTrans_def)
  ultimately have x: "Trans_execute K now (newTrans req, s) = Some (Status_ok, es, newTrans req, s')"
    using s'(1) assms(3) by (simp add: Trans_execute_def isOK_def Status_ok_def)
  let ?p = "p\<lparr>mKVStorePtr := s'\<rparr>"
  have "ver = mNextVersion (mVersionStorePtr ?p)"
    using assms(6) by simp
  from trans_writes_hand [OF assms(3,4) this evs, of ip] obtain c' where
    c': "doExecute_hand (Trans_ops ip K) es (newTrans req, ?p) = Some (evs, [PersistAsync (mCurTerm p) c' ver evs], c',
        p\<lparr>mKVStorePtr := s', mVersionStorePtr := (mVersionStorePtr p)\<lparr>mNextVersion := ver + 1\<rparr>\<rparr>)"
      "trr_results (mResponse c') = map (\<lambda>_. RRWrite \<lparr>wr_code = RC_OK, wr_message = [], wr_version = ver\<rparr>) ws"
      "mReplies c' = []" "mRequest c' = req"
    unfolding es_def by auto
  have "es \<noteq> []"
    using assms(4) by (simp add: es_def)
  with x c'(1) have "doExecute_body (Trans_ops ip K) None now (newTrans req, p\<lparr>mKVStorePtr := s\<rparr>) =
      Some (False, Status_ok, evs, [PersistAsync (mCurTerm p) c' ver evs], c',
        p\<lparr>mKVStorePtr := s', mVersionStorePtr := (mVersionStorePtr p)\<lparr>mNextVersion := ver + 1\<rparr>\<rparr>)"
    by (simp add: doExecute_body_def runPreExecute_def doExecute_run_def isOK_def Status_ok_def) (simp add: Trans_ops_def)
  with c' s' show ?thesis
    by blast
qed

lemma trans_writes_law:
  assumes "inv (mKVStorePtr p)" and "\<forall>cond \<in> set (tr_preconds req). judgeable now (view (mKVStorePtr p)) cond \<and> condHolds now (view (mKVStorePtr p)) cond"
    and "tr_entries req = map RWWrite ws" and "ws \<noteq> []"
    and "\<forall>e \<in> set ws. \<not> (wen_enableTTL e \<and> wen_ttl e = INFINITE_TTL)"
    and "Trans_getTargetKeys (newTrans req) = Some keys" and "available (locks (mKVStorePtr p)) keys True"
    and "ver = mNextVersion (mVersionStorePtr p)"
    and evs: "evs = map (\<lambda>e. EvWrite ((transWrite now e)\<lparr>we_version := ver\<rparr>)) ws"
  shows "\<exists>c' p' v. doExecute (Trans_ops ip K) None now (newTrans req, p) = Some ([PersistAsync (mCurTerm p) c' ver evs], c', p') \<and>
      trr_results (mResponse c') = map (\<lambda>_. RRWrite \<lparr>wr_code = RC_OK, wr_message = [], wr_version = ver\<rparr>) ws \<and>
      mReplies c' = [] \<and> mVersionStorePtr p' = (mVersionStorePtr p)\<lparr>mNextVersion := ver + 1\<rparr> \<and> mCurTerm p' = mCurTerm p \<and>
      inv (mKVStorePtr p') \<and> locks (mKVStorePtr p') = locks (mKVStorePtr p) \<and>
      stable now (view (mKVStorePtr p)) v \<and> view (mKVStorePtr p') = events_view evs v"
proof -
  define P where "P s1 events calls c2 p2 = (events = evs \<and> calls = [PersistAsync (mCurTerm p) c2 ver evs] \<and> mCurTerm p2 = mCurTerm p \<and>
      keeps now view resident s1 (mKVStorePtr p2) \<and> mVersionStorePtr p2 = (mVersionStorePtr p)\<lparr>mNextVersion := ver + 1\<rparr> \<and>
      trr_results (mResponse c2) = map (\<lambda>_. RRWrite \<lparr>wr_code = RC_OK, wr_message = [], wr_version = ver\<rparr>) ws \<and> mReplies c2 = [])"
    for s1 events calls and c2 :: TransContext and p2 :: "'a Processor"
  have tk: "Trans_getTargetKeys c2 = Some keys" if "mRequest c2 = req" for c2
    using assms(6) that by (simp add: Trans_getTargetKeys_def newTrans_def)
  have body: "\<exists>st events calls c2 p2. doExecute_body (Trans_ops ip K) None now (newTrans req, p\<lparr>mKVStorePtr := s1\<rparr>) =
        Some (False, st, events, calls, c2, p2) \<and>
      inv (mKVStorePtr p2) \<and> locks (mKVStorePtr p2) = locks s1 \<and> Trans_getTargetKeys c2 = Some keys \<and> P s1 events calls c2 p2"
    if "inv s1" "view s1 = view (mKVStorePtr p)" for s1
    using trans_writes_body [OF that(1) _ assms(3-5,8) evs, of ip] assms(2) that tk by (auto simp: P_def)
  have ops: "cmd_prepare (Trans_ops ip K) now = lockTargets K Trans_getTargetKeys True"
      "cmd_finish (Trans_ops ip K) now = applyAndUnlock K Trans_getTargetKeys True"
    by (simp_all add: Trans_ops_def)
  obtain s1 events calls c2 p2 s2 s3 where x0: "view s1 = view (mKVStorePtr p)" "inv (mKVStorePtr p2)"
      "P s1 events calls c2 p2" "apply_events K events (mKVStorePtr p2) = Some (Status_ok, s2)"
      "doExecute (Trans_ops ip K) None now (newTrans req, p) = Some (calls, c2, p2\<lparr>mKVStorePtr := s3\<rparr>)"
      "inv s3" "view s3 = view s2" "locks s3 = locks (mKVStorePtr p)"
    by (rule doExecute_locked [OF ops assms(1,7,6) body])
  note x = x0 [unfolded P_def]
  have "deletes_resident r evs" for r
    unfolding evs by (induction ws arbitrary: r) simp_all
  then have "view s2 = events_view evs (view (mKVStorePtr p2))"
    using apply_events_law [OF x(2), of evs] x(3,4) event_storable_any by auto
  moreover have "stable now (view (mKVStorePtr p)) (view (mKVStorePtr p2))"
    using x(1,3) by (simp add: keeps_def)
  ultimately show ?thesis
    using x by auto
qed

section \<open>Preconditions that do not hold\<close>

lemma doExecute_error:
  assumes prep: "cmd_prepare C now = lockTargets K targets x" and fin: "cmd_finish C now = applyAndUnlock K targets x"
    and inv: "inv (mKVStorePtr p)" and av: "available (locks (mKVStorePtr p)) keys x" and t: "targets c = Some keys"
    and body: "\<And>s1. \<lbrakk>inv s1; view s1 = view (mKVStorePtr p); resident s1 = resident (mKVStorePtr p)\<rbrakk> \<Longrightarrow>
      \<exists>st c2 s2 c3. doExecute_body C pre now (c, p\<lparr>mKVStorePtr := s1\<rparr>) = Some (True, st, [], [], c2, p\<lparr>mKVStorePtr := s2\<rparr>) \<and>
        inv s2 \<and> locks s2 = locks s1 \<and> targets c2 = Some keys \<and> replyError C st (c2, p) = Some c3 \<and> P s1 s2 c3"
  obtains s1 s2 c3 s3 where "view s1 = view (mKVStorePtr p)" "P s1 s2 c3"
    "doExecute C pre now (c, p) = Some ([], c3, p\<lparr>mKVStorePtr := s3\<rparr>)"
    "inv s3" "view s3 = view s2" "locks s3 = locks (mKVStorePtr p)"
proof -
  from lock_law [OF inv av] obtain s1 where s1: "kv_lock K keys x (mKVStorePtr p) = Some (Status_ok, s1)" "inv s1"
      "view s1 = view (mKVStorePtr p)" "resident s1 = resident (mKVStorePtr p)"
    by blast
  from body [OF s1(2-4)] obtain st c2 s2 c3 where
    b: "doExecute_body C pre now (c, p\<lparr>mKVStorePtr := s1\<rparr>) = Some (True, st, [], [], c2, p\<lparr>mKVStorePtr := s2\<rparr>)"
      "inv s2" "locks s2 = locks s1" "targets c2 = Some keys" "replyError C st (c2, p) = Some c3" "P s1 s2 c3"
    by blast
  from unlock_law [OF s1(1) inv b(2,3)] obtain s3 where
    s3: "kv_unlock K keys x s2 = Some (Status_ok, s3)" "inv s3" "view s3 = view s2" "locks s3 = locks (mKVStorePtr p)"
    by blast
  have "replyError C st (c2, p\<lparr>mKVStorePtr := s3\<rparr>) = Some c3"
    using b(5) by (simp add: replyError_def)
  then have "doExecute C pre now (c, p) = Some ([], c3, p\<lparr>mKVStorePtr := s3\<rparr>)"
    by (simp add: doExecute_def prep fin lockTargets_def applyAndUnlock_def t b(1,4) s1(1) s3(1) isOK_def Status_ok_def)
  from that [OF s1(3) b(6) this s3(2-4)] show thesis .
qed

lemma precond_reply:
  assumes "mRequest c = req" and "mReplies c = []" and "trr_results (mResponse c) = []"
  shows "\<exists>c' r. replyError (Trans_ops ip K) (Status_precondUnmatched msg) (c, p) = Some c' \<and> mReplies c' = [r] \<and>
      h_code (trr_header r) = RC_PRECOND_NOT_MATCHED \<and> h_message (trr_header r) = msg \<and> trr_results r = []"
  using assms
  by (auto simp: replyError_def Trans_ops_def Trans_initSuccessResponse_def Trans_fillResponseAndReply_def toResponseCode_def
      Status_precondUnmatched_def isOK_def isPrecondUnMatched_def fillHeader_def callback_def Let_def)

lemma trans_precond_body:
  assumes "inv s" and "\<forall>cond \<in> set (tr_preconds req). judgeable now (view s) cond" and "\<not> Trans_isFollowerReadCmd (newTrans req)"
    and "\<exists>cond \<in> set (tr_preconds req). \<not> condHolds now (view s) cond"
  shows "\<exists>msg s'. doExecute_body (Trans_ops ip K) None now (newTrans req, p\<lparr>mKVStorePtr := s\<rparr>) =
      Some (True, Status_precondUnmatched msg, [], [], newTrans req, p\<lparr>mKVStorePtr := s'\<rparr>) \<and>
      inv s' \<and> locks s' = locks s \<and> keeps now view resident s s'"
proof -
  from newTrans_checks [OF assms(1-3)] assms(4) obtain msg s' where
    r: "Trans_checkPrecond K now (newTrans req, s) = Some (Status_precondUnmatched msg, newTrans req, s')" "inv s'" "locks s' = locks s"
      "keeps now view resident s s'"
    by (auto split: if_splits)
  then have "Trans_execute K now (newTrans req, s) = Some (Status_precondUnmatched msg, [], newTrans req, s')"
    by (simp add: Trans_execute_def isOK_def Status_precondUnmatched_def)
  then have "doExecute_body (Trans_ops ip K) None now (newTrans req, p\<lparr>mKVStorePtr := s\<rparr>) =
      Some (True, Status_precondUnmatched msg, [], [], newTrans req, p\<lparr>mKVStorePtr := s'\<rparr>)"
    by (simp add: doExecute_body_def runPreExecute_def doExecute_run_def Trans_ops_def isOK_def isNotFound_def Status_ok_def
        Status_precondUnmatched_def)
  with r show ?thesis
    by blast
qed

lemma trans_precond_law:
  assumes "inv (mKVStorePtr p)" and "Trans_getTargetKeys (newTrans req) = Some keys" and "available (locks (mKVStorePtr p)) keys True"
    and "\<forall>cond \<in> set (tr_preconds req). judgeable now (view (mKVStorePtr p)) cond" and "\<not> Trans_isFollowerReadCmd (newTrans req)"
    and "\<exists>cond \<in> set (tr_preconds req). \<not> condHolds now (view (mKVStorePtr p)) cond"
  shows "\<exists>c' r s'. doExecute (Trans_ops ip K) None now (newTrans req, p) = Some ([], c', p\<lparr>mKVStorePtr := s'\<rparr>) \<and>
      mReplies c' = [r] \<and> h_code (trr_header r) = RC_PRECOND_NOT_MATCHED \<and> trr_results r = [] \<and>
      inv s' \<and> locks s' = locks (mKVStorePtr p) \<and> stable now (view (mKVStorePtr p)) (view s')"
proof -
  define P where "P s1 s2 c3 = (\<exists>r. mReplies c3 = [r] \<and> h_code (trr_header r) = RC_PRECOND_NOT_MATCHED \<and> trr_results r = [] \<and>
      keeps now view resident s1 s2)" for s1 s2 and c3 :: TransContext
  have body: "\<exists>st c2 s2 c3. doExecute_body (Trans_ops ip K) None now (newTrans req, p\<lparr>mKVStorePtr := s1\<rparr>) =
        Some (True, st, [], [], c2, p\<lparr>mKVStorePtr := s2\<rparr>) \<and>
      inv s2 \<and> locks s2 = locks s1 \<and> Trans_getTargetKeys c2 = Some keys \<and> replyError (Trans_ops ip K) st (c2, p) = Some c3 \<and> P s1 s2 c3"
    if "inv s1" "view s1 = view (mKVStorePtr p)" for s1
  proof -
    from trans_precond_body [OF that(1), of req now ip p] that(2) assms(4-6) obtain msg s2 where
      b: "doExecute_body (Trans_ops ip K) None now (newTrans req, p\<lparr>mKVStorePtr := s1\<rparr>) =
          Some (True, Status_precondUnmatched msg, [], [], newTrans req, p\<lparr>mKVStorePtr := s2\<rparr>)"
        "inv s2" "locks s2 = locks s1" "keeps now view resident s1 s2"
      by auto
    have "mRequest (newTrans req) = req" "mReplies (newTrans req) = []" "trr_results (mResponse (newTrans req)) = []"
      by (simp_all add: newTrans_def)
    from precond_reply [OF this, of ip msg p] b(4) obtain c3 where
      "replyError (Trans_ops ip K) (Status_precondUnmatched msg) (newTrans req, p) = Some c3" "P s1 s2 c3"
      unfolding P_def by blast
    with b assms(2) show ?thesis
      by blast
  qed
  have ops: "cmd_prepare (Trans_ops ip K) now = lockTargets K Trans_getTargetKeys True"
      "cmd_finish (Trans_ops ip K) now = applyAndUnlock K Trans_getTargetKeys True"
    by (simp_all add: Trans_ops_def)
  obtain s1 s2 c3 s3 where "view s1 = view (mKVStorePtr p)" "P s1 s2 c3"
      "doExecute (Trans_ops ip K) None now (newTrans req, p) = Some ([], c3, p\<lparr>mKVStorePtr := s3\<rparr>)"
      "inv s3" "view s3 = view s2" "locks s3 = locks (mKVStorePtr p)"
    by (rule doExecute_error [OF ops assms(1,3,2) body])
  then show ?thesis
    by (auto simp: P_def keeps_def intro!: exI [of _ s3])
qed

section \<open>Transactions of reads\<close>

lemma Trans_readEntry_law:
  assumes "inv s" and "\<not> Trans_isFollowerReadCmd c" and "\<not> tr_isMetaReturned (mRequest c)"
  shows "\<exists>st rd s'. Trans_readEntry K now c e (newTemporal, s) = Some (False, st, [EvRead rd], newTemporal, s') \<and>
      (isOK st \<or> isNotFound st) \<and> readSeen now (view s) e rd \<and> inv s' \<and> locks s' = locks s \<and> keeps now view resident s s'"
proof -
  from read_law [OF assms(1), of now "ren_key e" noRead] obtain st out s' where
    r: "kv_readKV K now (ren_key e) noRead s = Some (st, out, s')" "inv s'" "locks s' = locks s" "keeps now view resident s s'"
      "isOK st \<or> isNotFound st"
      "case visible now (view s) (ren_key e) of Some (v, ver) \<Rightarrow> st = Status_ok \<and> outValue out = v \<and> outVersion out = ver | None \<Rightarrow> isNotFound st"
    by (auto split: option.splits)
  have "Trans_readKV (Temporal_ops (ReadOnlyKVStore K)) False now (ren_key e) noRead (newTemporal, s) = Some (st, out, newTemporal, s')"
    using r(1) by (simp add: Trans_readKV_def Temp_readKV_def newTemporal_def)
  moreover have "readEvent K False False (ren_key e) st out s' = Some ([newReadEvent (ren_key e) out (isNotFound st)], s')"
    using r(5) by (auto simp: readEvent_def isOK_def isNotFound_def)
  ultimately have "Trans_readEntry K now c e (newTemporal, s) =
      Some (False, st, [newReadEvent (ren_key e) out (isNotFound st)], newTemporal, s')"
    using assms(2,3) r(5) by (simp add: Trans_readEntry_def)
  then show ?thesis
    using r by (auto simp: newReadEvent_def readSeen_def isOK_def isNotFound_def Status_ok_def split: option.splits)
qed

lemma Trans_entries_reads:
  assumes "inv s" and "\<not> Trans_isFollowerReadCmd c" and "\<not> tr_isMetaReturned (mRequest c)" and "isOK st \<or> isNotFound st"
    and "\<forall>e \<in> set rs. \<not> expired now (view s) (ren_key e)"
  shows "\<exists>st' rds s'. Trans_entries K now c (map RWRead rs) st (newTemporal, s) = Some (st', map EvRead rds, newTemporal, s') \<and>
      (isOK st' \<or> isNotFound st') \<and> list_all2 (readSeen now (view s)) rs rds \<and> inv s' \<and> locks s' = locks s \<and>
      keeps now view resident s s'"
  using assms(1,4,5)
proof (induction rs arbitrary: s st)
  case (Cons e rs)
  from Trans_readEntry_law [OF Cons.prems(1) assms(2,3), of now e] obtain st1 rd s1 where
    s1: "Trans_readEntry K now c e (newTemporal, s) = Some (False, st1, [EvRead rd], newTemporal, s1)" "isOK st1 \<or> isNotFound st1"
      "readSeen now (view s) e rd" "inv s1" "locks s1 = locks s" "keeps now view resident s s1"
    by blast
  have same: "view s1 (ren_key e') = view s (ren_key e')" if "e' \<in> set rs" for e'
    using s1(6) Cons.prems(3) that by (auto simp: keeps_def stable_def)
  then have "\<forall>e \<in> set rs. \<not> expired now (view s1) (ren_key e)"
    using Cons.prems(3) by (auto simp: expired_def)
  from Cons.IH [OF s1(4,2) this] obtain st' rds s' where
    s': "Trans_entries K now c (map RWRead rs) st1 (newTemporal, s1) = Some (st', map EvRead rds, newTemporal, s')"
      "isOK st' \<or> isNotFound st'" "list_all2 (readSeen now (view s1)) rs rds" "inv s'" "locks s' = locks s1"
      "keeps now view resident s1 s'"
    by blast
  have "list_all2 (readSeen now (view s)) rs rds"
    using s'(3) by (rule list.rel_mono_strong) (use same in \<open>simp add: readSeen_def visible_def\<close>)
  moreover have "keeps now view resident s s'"
    using keeps_trans [OF s1(6) s'(6)] .
  ultimately show ?case
    using s1 s' by (intro exI [of _ st'] exI [of _ "rd # rds"] exI [of _ s']) auto
qed (auto intro!: exI)

lemma expectedVersionOf_reads: "expectedVersionOf (map EvRead rds) = Some kInvalidVersion" "nonReadEventsOf (map EvRead rds) = []"
proof -
  have "foldl (\<lambda>acc e. case e of EvImport _ imported \<Rightarrow> do { _ \<leftarrow> acc; assert (length es = 1); Some imported } | _ \<Rightarrow> acc)
      acc (map EvRead rds) = acc" for acc es
    by (induction rds) simp_all
  then show "expectedVersionOf (map EvRead rds) = Some kInvalidVersion"
    by (simp add: expectedVersionOf_def)
  show "nonReadEventsOf (map EvRead rds) = []"
    by (simp add: nonReadEventsOf_def filter_empty_conv)
qed

lemma trans_reads_body:
  assumes "inv s" and "\<forall>cond \<in> set (tr_preconds req). judgeable now (view s) cond \<and> condHolds now (view s) cond"
    and "tr_entries req = map RWRead rs" and "rs \<noteq> []" and "\<not> tr_allowStale req" and "\<not> tr_isMetaReturned req"
    and "\<forall>e \<in> set rs. \<not> expired now (view s) (ren_key e)"
  shows "\<exists>st rds ver c' s'. doExecute_body (Trans_ops ip K) None now (newTrans req, p\<lparr>mKVStorePtr := s\<rparr>) =
      Some (False, st, map EvRead rds, [ReplyAsync 0 (mCurTerm p) ver c' False], c', p\<lparr>mKVStorePtr := s'\<rparr>) \<and>
      h_code (trr_header (mResponse c')) = RC_OK \<and> list_all2 (resultSeen now (view s)) rs (trr_results (mResponse c')) \<and>
      mReplies c' = [] \<and> mRequest c' = req \<and> inv s' \<and> locks s' = locks s \<and> keeps now view resident s s'"
proof -
  have nf: "\<not> Trans_isFollowerReadCmd (newTrans req)" "mRequest (newTrans req) = req"
    using assms(5) by (simp_all add: Trans_isFollowerReadCmd_def newTrans_def)
  from newTrans_checks [OF assms(1) _ nf(1), of now] assms(2) obtain s1 where
    s1: "Trans_checkPrecond K now (newTrans req, s) = Some (Status_ok, newTrans req, s1)" "inv s1" "locks s1 = locks s"
      "keeps now view resident s s1"
    by auto
  have same: "view s1 (ren_key e) = view s (ren_key e)" if "e \<in> set rs" for e
    using s1(4) assms(7) that by (auto simp: keeps_def stable_def)
  then have ne: "\<forall>e \<in> set rs. \<not> expired now (view s1) (ren_key e)"
    using assms(7) by (auto simp: expired_def)
  have "\<not> tr_isMetaReturned (mRequest (newTrans req))" "isOK Status_ok \<or> isNotFound Status_ok"
    using assms(6) nf(2) by (simp_all add: isOK_def Status_ok_def)
  from Trans_entries_reads [OF s1(2) nf(1) this ne] obtain st rds s' where
    s': "Trans_entries K now (newTrans req) (map RWRead rs) Status_ok (newTemporal, s1) = Some (st, map EvRead rds, newTemporal, s')"
      "isOK st \<or> isNotFound st" "list_all2 (readSeen now (view s1)) rs rds" "inv s'" "locks s' = locks s1" "keeps now view resident s1 s'"
    by blast
  have seen: "list_all2 (readSeen now (view s)) rs rds"
    using s'(3) by (rule list.rel_mono_strong) (use same in \<open>simp add: readSeen_def visible_def\<close>)
  then have len: "length rds = length rs" "rds \<noteq> []"
    using assms(4) by (auto dest: list_all2_lengthD)
  from Trans_results_reads [OF seen, of "getCurMaxVersion (mVersionStorePtr p)"] obtain ress latest where
    ress: "Trans_results False Map.empty (getCurMaxVersion (mVersionStorePtr p)) (map RWRead rs) (map EvRead rds) = Some (ress, latest)"
      "list_all2 (resultSeen now (view s)) rs ress"
    by blast
  then obtain c' where c': "Trans_initSuccessResponse (getCurMaxVersion (mVersionStorePtr p)) (map EvRead rds) (newTrans req) = Some c'"
      "h_code (trr_header (mResponse c')) = RC_OK" "trr_results (mResponse c') = ress" "mReplies c' = []" "mRequest c' = req"
    using assms(3,6) len by (auto simp: Trans_initSuccessResponse_def newTrans_def Let_def)
  have x: "Trans_execute K now (newTrans req, s) = Some (st, map EvRead rds, newTrans req, s')"
    using s1(1) s'(1) nf(2) assms(3) by (simp add: Trans_execute_def isOK_def Status_ok_def)
  obtain ver where "doExecute_hand (Trans_ops ip K) (map EvRead rds) (newTrans req, p\<lparr>mKVStorePtr := s'\<rparr>) =
      Some (map EvRead rds, [ReplyAsync 0 (mCurTerm p) ver c' False], c', p\<lparr>mKVStorePtr := s'\<rparr>)"
    using c'(1) expectedVersionOf_reads [of rds] by (simp add: doExecute_hand_def Trans_ops_def Let_def)
  with x s'(2) len have "doExecute_body (Trans_ops ip K) None now (newTrans req, p\<lparr>mKVStorePtr := s\<rparr>) =
      Some (False, st, map EvRead rds, [ReplyAsync 0 (mCurTerm p) ver c' False], c', p\<lparr>mKVStorePtr := s'\<rparr>)"
    by (auto simp: doExecute_body_def runPreExecute_def doExecute_run_def isOK_def isNotFound_def Status_ok_def Trans_ops_def)
  moreover have "keeps now view resident s s'"
    using keeps_trans [OF s1(4) s'(6)] .
  ultimately show ?thesis
    using c' ress(2) s'(4,5) s1(3) by auto
qed

lemma trans_reads_law:
  assumes "inv (mKVStorePtr p)" and "\<forall>cond \<in> set (tr_preconds req). judgeable now (view (mKVStorePtr p)) cond \<and> condHolds now (view (mKVStorePtr p)) cond"
    and "tr_entries req = map RWRead rs" and "rs \<noteq> []" and "\<not> tr_allowStale req" and "\<not> tr_isMetaReturned req"
    and "\<forall>e \<in> set rs. \<not> expired now (view (mKVStorePtr p)) (ren_key e)"
    and "Trans_getTargetKeys (newTrans req) = Some keys" and "available (locks (mKVStorePtr p)) keys True"
  shows "\<exists>ver c' p'. doExecute (Trans_ops ip K) None now (newTrans req, p) = Some ([ReplyAsync 0 (mCurTerm p) ver c' False], c', p') \<and>
      h_code (trr_header (mResponse c')) = RC_OK \<and> list_all2 (resultSeen now (view (mKVStorePtr p))) rs (trr_results (mResponse c')) \<and>
      mReplies c' = [] \<and> mVersionStorePtr p' = mVersionStorePtr p \<and> mCurTerm p' = mCurTerm p \<and>
      inv (mKVStorePtr p') \<and> locks (mKVStorePtr p') = locks (mKVStorePtr p) \<and>
      stable now (view (mKVStorePtr p)) (view (mKVStorePtr p'))"
proof -
  define P where "P s1 events calls c2 p2 = ((\<exists>rds. events = map EvRead rds) \<and> (\<exists>ver. calls = [ReplyAsync 0 (mCurTerm p) ver c2 False]) \<and>
      mCurTerm p2 = mCurTerm p \<and> keeps now view resident s1 (mKVStorePtr p2) \<and> mVersionStorePtr p2 = mVersionStorePtr p \<and>
      h_code (trr_header (mResponse c2)) = RC_OK \<and> list_all2 (resultSeen now (view s1)) rs (trr_results (mResponse c2)) \<and> mReplies c2 = [])"
    for s1 events calls and c2 :: TransContext and p2 :: "'a Processor"
  have tk: "Trans_getTargetKeys c2 = Some keys" if "mRequest c2 = req" for c2
    using assms(8) that by (simp add: Trans_getTargetKeys_def newTrans_def)
  have body: "\<exists>st events calls c2 p2. doExecute_body (Trans_ops ip K) None now (newTrans req, p\<lparr>mKVStorePtr := s1\<rparr>) =
        Some (False, st, events, calls, c2, p2) \<and>
      inv (mKVStorePtr p2) \<and> locks (mKVStorePtr p2) = locks s1 \<and> Trans_getTargetKeys c2 = Some keys \<and> P s1 events calls c2 p2"
    if "inv s1" "view s1 = view (mKVStorePtr p)" for s1
    using trans_reads_body [OF that(1) _ assms(3-6), of now ip p] assms(2,7) that tk by (auto simp: P_def)
  have ops: "cmd_prepare (Trans_ops ip K) now = lockTargets K Trans_getTargetKeys True"
      "cmd_finish (Trans_ops ip K) now = applyAndUnlock K Trans_getTargetKeys True"
    by (simp_all add: Trans_ops_def)
  obtain s1 events calls c2 p2 s2 s3 where x0: "view s1 = view (mKVStorePtr p)" "inv (mKVStorePtr p2)"
      "P s1 events calls c2 p2" "apply_events K events (mKVStorePtr p2) = Some (Status_ok, s2)"
      "doExecute (Trans_ops ip K) None now (newTrans req, p) = Some (calls, c2, p2\<lparr>mKVStorePtr := s3\<rparr>)"
      "inv s3" "view s3 = view s2" "locks s3 = locks (mKVStorePtr p)"
    by (rule doExecute_locked [OF ops assms(1,9,8) body])
  note x = x0 [unfolded P_def]
  have "apply_events K (map EvRead rds) s = Some (Status_ok, s)" for rds s
    by (induction rds) simp_all
  then have "s2 = mKVStorePtr p2"
    using x(3,4) by auto
  moreover have "stable now (view (mKVStorePtr p)) (view (mKVStorePtr p2))"
    using x(1,3) by (simp add: keeps_def)
  ultimately show ?thesis
    using x by auto
qed

section \<open>Reading its own writes\<close>

lemma trans_reads_own_write:
  assumes "ignoredUdfUintKeys c = {}" and "udfUintKey2Meta c = Map.empty" and "\<not> tr_isMetaReturned (mRequest c)"
    and "\<not> tr_allowStale (mRequest c)"
    and ttl: "wen_enableTTL e \<longrightarrow> wen_ttl e \<noteq> INFINITE_TTL \<and> now < wen_ttl e + now" and "ren_key r = wen_key e"
  shows "\<exists>rd t'. Trans_entries K now c [RWWrite e, RWRead r] st (t, s) =
      Some (Status_ok, [EvWrite (transWrite now e), EvRead rd], t', s) \<and> re_value rd = wen_value e \<and> \<not> re_isNotFound rd"
proof -
  define tt where "tt = we_ttl (transWrite now e)"
  define dl where "dl = we_deadline (transWrite now e)"
  from ttl have "\<not> (wen_enableTTL e \<and> wen_ttl e = INFINITE_TTL)"
    by blast
  from Trans_writeEntry_law [OF this assms(1,2), of now st t s] obtain t' where
    t': "Trans_writeEntry K now c st e (t, s) = Some (False, Status_ok, [EvWrite (transWrite now e)], t', s)"
      "t_mData t' (wen_key e) = Some (wen_value e, kInvalidVersion, tt, dl, now)"
    unfolding tt_def dl_def by blast
  have "\<not> isTimeOut now dl tt"
    using ttl by (auto simp: isTimeOut_def tt_def dl_def transWrite_def newWriteEvent_def Let_def)
  with t'(2) have "Trans_readEntry K now c r (t', s) = Some (False, Status_ok,
      [newReadEvent (wen_key e) \<lparr>outValue = wen_value e, outTTL = tt, outVersion = kInvalidVersion\<rparr> False], t', s)"
    using assms(3,4,6)
    by (simp add: Trans_readEntry_def Trans_isFollowerReadCmd_def Trans_readKV_def Temp_readKV_def readEvent_def isOK_def
        isNotFound_def Status_ok_def)
  with t'(1) show ?thesis
    by (simp add: newReadEvent_def)
qed

end

end
