(* ===== verification/Command_Properties.thy ===== *)
theory Command_Properties
  imports Trans_Correct Store_Properties
begin

text \<open>
  What a client can rely on when the leader runs its command: the processor of
  \<^verbatim>\<open>CommandProcessor\<close> over the stack of stores a leader uses.
\<close>

section \<open>A leader for the witnesses\<close>

text \<open>A leader of term 1 with an empty store that recovered version 4.\<close>

definition refProcessor :: "(WSConcurInMemoryKVStore \<times> RawMap RocksDBKVStore) Processor" where
  "refProcessor = \<lparr>mVersionStorePtr = recoverMaxVersion 4 initVersionStore, mKVStorePtr = (refWS, refRocks), mCurTerm = 1\<rparr>"

definition refHeader :: RequestHeader where
  "refHeader = \<lparr>rh_knownVersion = 0, rh_routeVersion = 0\<rparr>"

definition refEntry :: "KeyType \<Rightarrow> ValueType \<Rightarrow> WriteEntry" where
  "refEntry k v = \<lparr>wen_key = k, wen_value = v, wen_enableTTL = False, wen_ttl = 0, wen_version = 0, wen_updateTime = 0,
     wen_udfMeta = DEFAULT_UDFMETA\<rparr>"

definition refPut :: "KeyType \<Rightarrow> ValueType \<Rightarrow> PutRequest" where
  "refPut k v = \<lparr>put_header = refHeader, put_entry = refEntry k v\<rparr>"

definition refGet :: "KeyType \<Rightarrow> GetRequest" where
  "refGet k = \<lparr>get_header = refHeader, get_entry = \<lparr>ren_key = k, ren_version = 0\<rparr>, get_allowStale = False,
     get_isMetaReturned = False\<rparr>"

definition refDelete :: "KeyType \<Rightarrow> DeleteRequest" where
  "refDelete k = \<lparr>del_header = refHeader, del_entry = \<lparr>den_key = k, den_version = 0\<rparr>, del_returnValue = True\<rparr>"

abbreviation refStack where
  "refStack \<equiv> leaderStack refHash refLookup refLib"

abbreviation refInv where
  "refInv \<equiv> leaderInv refHash refLookup refLib"

abbreviation refView where
  "refView \<equiv> leaderView refHash refLookup refLib"

lemma refProcessor_store [simp]:
  "mKVStorePtr refProcessor = (refWS, refRocks)" "mCurTerm refProcessor = 1"
  "mNextVersion (mVersionStorePtr refProcessor) = 5" "mMaxVersion (mVersionStorePtr refProcessor) = 4"
  by (simp_all add: refProcessor_def recoverMaxVersion_def)

lemma refWS_available: "WS_available refHash refLookup (WS_locks (refWS, refRocks)) [k] x"
  by (cases x) (auto simp: WS_available_def ws2Keys_def std_set_def refLookup_def WS_locks_def refWS_def
        Concur_available_def segmentLocks_def newConcur_def lockable_def)

text \<open>The same leader with one key in its cache.\<close>

lemma refLeader_with:
  obtains w where "refInv (w, refRocks)" "refView (w, refRocks) k = Some (v, ver, INFINITE_TTL, NEVER_EXPIRE)"
    "WS_resident refHash refLookup (w, refRocks) k" "\<forall>ks x. WS_available refHash refLookup (WS_locks (w, refRocks)) [ks] x"
proof -
  obtain w where w: "kv_writeKV refStack k v ver 0 DEFAULT_UDFMETA (refWS, refRocks) = Some (Status_ok, w, refRocks)"
      "refInv (w, refRocks)" "refView (w, refRocks) k = Some (v, ver, INFINITE_TTL, NEVER_EXPIRE)"
      "WS_resident refHash refLookup (w, refRocks) k"
    using refStack_after_write by blast
  have "WS_locks (w, refRocks) = WS_locks (refWS, refRocks)"
    using rocks_ro.ws_locking.writeKV_locks [OF w(1)] .
  with that [of w] w refWS_available show thesis
    by simp
qed

section \<open>Put, get and delete\<close>




text \<open>C11: A get that finds the lock of its key free answers from the leader's view: the value and the
  version of the live entry, to be released once that version is committed, or that the key does not
  exist. It hands nothing over for replication, allocates no version, leaves every live entry as it
  is and gives the lock back.\<close>

theorem get_correct:
  assumes "leaderInv hash lookup L (mKVStorePtr p)" and "k = ren_key (get_entry req)"
    and "WS_available hash lookup (WS_locks (mKVStorePtr p)) [k] False" and "\<not> get_allowStale req"
  shows "\<exists>ver c' p'. doExecute (Get_ops ip (leaderStack hash lookup L)) None now (newGet req, p) =
        Some ([ReplyAsync 0 (mCurTerm p) ver c' False], c', p') \<and>
      mReplies c' = [] \<and> mVersionStorePtr p' = mVersionStorePtr p \<and>
      leaderInv hash lookup L (mKVStorePtr p') \<and> WS_locks (mKVStorePtr p') = WS_locks (mKVStorePtr p) \<and>
      stable now (leaderView hash lookup L (mKVStorePtr p)) (leaderView hash lookup L (mKVStorePtr p')) \<and>
      (case visible now (leaderView hash lookup L (mKVStorePtr p)) k of
         Some (v, ver') \<Rightarrow> rr_code (getr_result (mResponse c')) = RC_OK \<and> rr_value (getr_result (mResponse c')) = v \<and>
           rr_version (getr_result (mResponse c')) = ver' \<and> ver = ver'
       | None \<Rightarrow> rr_code (getr_result (mResponse c')) = RC_KEY_NOT_EXIST)"
  using assms by (rule rocks_ro.ws_commands.get_law)

theorem get_correct_witness:
  "\<exists>w c' p'. doExecute (Get_ops (\<lambda>_. []) refStack) None 100 (newGet (refGet ''a''), refProcessor\<lparr>mKVStorePtr := (w, refRocks)\<rparr>) =
       Some ([ReplyAsync 0 1 7 c' False], c', p') \<and> rr_value (getr_result (mResponse c')) = ''1'' \<and>
     rr_version (getr_result (mResponse c')) = 7"
proof -
  obtain w where w: "refInv (w, refRocks)" "refView (w, refRocks) ''a'' = Some (''1'', 7, INFINITE_TTL, NEVER_EXPIRE)"
      "\<forall>ks x. WS_available refHash refLookup (WS_locks (w, refRocks)) [ks] x"
    by (rule refLeader_with [of "''a''" "''1''" 7])
  have "\<not> get_allowStale (refGet ''a'')" "''a'' = ren_key (get_entry (refGet ''a''))"
    by (simp_all add: refGet_def)
  from get_correct [OF _ this(2) _ this(1), where hash = refHash and lookup = refLookup and L = refLib and p = "refProcessor\<lparr>mKVStorePtr := (w, refRocks)\<rparr>"
      and ip = "\<lambda>_. []" and now = 100] w
  show ?thesis
    by (intro exI [of _ w]) (auto simp: visible_def isTimeOut_def)
qed

text \<open>C10: A delete of a key with a live entry in the leader's cache (of the version the request names, if
  it names one) is executed: exactly one delete with the next version is handed over, the key is gone
  from the leader's view and no other key changes, the response has the version that was deleted, and
  the value if the client asked for it.\<close>

theorem delete_correct:
  assumes "leaderInv hash lookup L (mKVStorePtr p)" and "e = del_entry req"
    and "WS_available hash lookup (WS_locks (mKVStorePtr p)) [den_key e] True"
    and "visible now (leaderView hash lookup L (mKVStorePtr p)) (den_key e) = Some (v, ver)"
    and "WS_resident hash lookup (mKVStorePtr p) (den_key e)"
    and "den_version e = kInvalidVersion \<or> den_version e = ver"
    and "newVer = mNextVersion (mVersionStorePtr p)" and "rv = (if del_returnValue req then v else [])"
  shows "\<exists>c' p'. doExecute (Delete_ops ip (leaderStack hash lookup L)) None now (newDelete req, p) =
        Some ([PersistAsync (mCurTerm p) c' newVer
                 [EvDelete \<lparr>de_key = den_key e, de_deletedValue = rv, de_deletedVersion = ver, de_version = newVer\<rparr>]], c', p') \<and>
      delr_result (mResponse c') = \<lparr>dr_code = RC_OK, dr_message = [], dr_version = ver, dr_value = rv\<rparr> \<and> mReplies c' = [] \<and>
      mVersionStorePtr p' = (mVersionStorePtr p)\<lparr>mNextVersion := newVer + 1\<rparr> \<and>
      leaderInv hash lookup L (mKVStorePtr p') \<and> WS_locks (mKVStorePtr p') = WS_locks (mKVStorePtr p) \<and>
      leaderView hash lookup L (mKVStorePtr p') = (leaderView hash lookup L (mKVStorePtr p))(den_key e := None)"
  using assms by (rule rocks_ro.ws_commands.delete_law)

theorem delete_correct_witness:
  "\<exists>w c' p' d. doExecute (Delete_ops (\<lambda>_. []) refStack) None 100 (newDelete (refDelete ''a''), refProcessor\<lparr>mKVStorePtr := (w, refRocks)\<rparr>) =
       Some ([PersistAsync 1 c' 5 [EvDelete d]], c', p') \<and> dr_value (delr_result (mResponse c')) = ''1'' \<and>
     refView (mKVStorePtr p') ''a'' = None"
proof -
  obtain w where w: "refInv (w, refRocks)" "refView (w, refRocks) ''a'' = Some (''1'', 7, INFINITE_TTL, NEVER_EXPIRE)"
      "WS_resident refHash refLookup (w, refRocks) ''a''"
      "\<forall>ks x. WS_available refHash refLookup (WS_locks (w, refRocks)) [ks] x"
    by (rule refLeader_with [of "''a''" "''1''" 7])
  let ?p = "refProcessor\<lparr>mKVStorePtr := (w, refRocks)\<rparr>" and ?e = "\<lparr>den_key = ''a'', den_version = 0\<rparr>"
  have d: "?e = del_entry (refDelete ''a'')" "den_version ?e = kInvalidVersion \<or> den_version ?e = 7"
      "''1'' = (if del_returnValue (refDelete ''a'') then ''1'' else [])"
    by (simp_all add: refDelete_def kInvalidVersion_def)
  have "visible 100 (refView (mKVStorePtr ?p)) (den_key ?e) = Some (''1'', 7)"
    using w(2) by (simp add: visible_def isTimeOut_def)
  from delete_correct [OF _ d(1) _ this _ d(2) refl d(3), of "\<lambda>_. []"] w show ?thesis
    by (intro exI [of _ w]) auto
qed

section \<open>Transactions\<close>

text \<open>A transaction that writes two keys, and one that asks for a version first.\<close>

definition refTrans :: "Precondition list \<Rightarrow> TransRequest" where
  "refTrans conds = \<lparr>tr_header = refHeader, tr_preconds = conds,
     tr_entries = map RWWrite [refEntry ''a'' ''1'', refEntry ''b'' ''2''], tr_isMetaReturned = False, tr_allowStale = False\<rparr>"

lemma refWS_available_ab: "WS_available refHash refLookup (WS_locks (refWS, refRocks)) (std_set [''a'', ''b'']) True"
  by (auto simp: WS_available_def ws2Keys_def std_set_def refLookup_def WS_locks_def refWS_def
      Concur_available_def segmentLocks_def newConcur_def lockable_def)

text \<open>C4: A transaction of writes (with their times to live given) whose conditions on versions and on the
  existence of keys all hold is atomic: when its locks are free, all its writes are handed over in one
  bundle under one fresh version and in their order, the leader's cache shows exactly these writes on
  top of the view before (up to entries that had timed out), every entry of the response has that
  version, and all locks are given back.\<close>

theorem trans_atomic:
  assumes "leaderInv hash lookup L (mKVStorePtr p)"
    and "\<forall>cond \<in> set (tr_preconds req). judgeable now (leaderView hash lookup L (mKVStorePtr p)) cond \<and>
           condHolds now (leaderView hash lookup L (mKVStorePtr p)) cond"
    and "tr_entries req = map RWWrite ws" and "ws \<noteq> []"
    and "\<forall>e \<in> set ws. \<not> (wen_enableTTL e \<and> wen_ttl e = INFINITE_TTL)"
    and "Trans_getTargetKeys (newTrans req) = Some keys" and "WS_available hash lookup (WS_locks (mKVStorePtr p)) keys True"
    and "ver = mNextVersion (mVersionStorePtr p)"
    and "evs = map (\<lambda>e. EvWrite ((transWrite now e)\<lparr>we_version := ver\<rparr>)) ws"
  shows "\<exists>c' p' v. doExecute (Trans_ops ip (leaderStack hash lookup L)) None now (newTrans req, p) =
        Some ([PersistAsync (mCurTerm p) c' ver evs], c', p') \<and>
      trr_results (mResponse c') = map (\<lambda>_. RRWrite \<lparr>wr_code = RC_OK, wr_message = [], wr_version = ver\<rparr>) ws \<and>
      mReplies c' = [] \<and> mVersionStorePtr p' = (mVersionStorePtr p)\<lparr>mNextVersion := ver + 1\<rparr> \<and> mCurTerm p' = mCurTerm p \<and>
      leaderInv hash lookup L (mKVStorePtr p') \<and> WS_locks (mKVStorePtr p') = WS_locks (mKVStorePtr p) \<and>
      stable now (leaderView hash lookup L (mKVStorePtr p)) v \<and> leaderView hash lookup L (mKVStorePtr p') = events_view evs v"
  using assms by (rule rocks_ro.ws_commands.trans_writes_law)

lemma refView_empty: "refView (refWS, refRocks) k = None"
  by (simp add: routedView_def InMem_view_def emptyInMemory_def Rocks_committed_def viewOf_def refRocks_def split: option.split)

lemma refTrans_writes:
  "\<forall>cond \<in> set (tr_preconds (refTrans [ExistCond ''a'' False])). judgeable 100 (refView (mKVStorePtr refProcessor)) cond \<and>
     condHolds 100 (refView (mKVStorePtr refProcessor)) cond"
  "\<forall>cond \<in> set (tr_preconds (refTrans [])). judgeable 100 (refView (mKVStorePtr refProcessor)) cond \<and>
     condHolds 100 (refView (mKVStorePtr refProcessor)) cond"
  "tr_entries (refTrans conds) = map RWWrite [refEntry ''a'' ''1'', refEntry ''b'' ''2'']"
  "\<forall>e \<in> set [refEntry ''a'' ''1'', refEntry ''b'' ''2'']. \<not> (wen_enableTTL e \<and> wen_ttl e = INFINITE_TTL)"
  by (simp_all add: refTrans_def refEntry_def judgeable_def expired_def visible_def refView_empty)

lemma refTrans_keys:
  "Trans_getTargetKeys (newTrans (refTrans [])) = Some (std_set [''a'', ''b''])"
  "Trans_getTargetKeys (newTrans (refTrans [ExistCond ''a'' False])) = Some (std_set [''a'', ''b''])"
  "Trans_getTargetKeys (newTrans (refTrans [VersionCond ''a'' 3 CMP_EQUAL])) = Some (std_set [''a'', ''b''])"
  by (simp_all add: Trans_getTargetKeys_def newTrans_def refTrans_def refEntry_def std_set_def)

lemma refProcessor_available: "WS_available refHash refLookup (WS_locks (mKVStorePtr refProcessor)) (std_set [''a'', ''b'']) True"
  using refWS_available_ab by simp

lemma refTrans_runs:
  obtains ctx p' where "doExecute (Trans_ops (\<lambda>_. []) refStack) None 100 (newTrans (refTrans []), refProcessor) =
    Some ([PersistAsync 1 ctx 5 (map (\<lambda>e. EvWrite ((transWrite 100 e)\<lparr>we_version := 5\<rparr>)) [refEntry ''a'' ''1'', refEntry ''b'' ''2''])], ctx, p')"
  using rocks_ro.ws_commands.trans_writes_law [where ip = "\<lambda>_. []" and now = 100 and L = refLib and p = refProcessor,
      OF _ refTrans_writes(2,3) _ refTrans_writes(4) refTrans_keys(1) refProcessor_available refl refl] refStack_inv that by auto

theorem trans_atomic_witness:
  "\<exists>c' p' evs. doExecute (Trans_ops (\<lambda>_. []) refStack) None 100 (newTrans (refTrans [ExistCond ''a'' False]), refProcessor) =
       Some ([PersistAsync 1 c' 5 evs], c', p') \<and> length evs = 2 \<and>
     refView (mKVStorePtr p') ''a'' = Some (''1'', 5, 0, 0) \<and> refView (mKVStorePtr p') ''b'' = Some (''2'', 5, 0, 0)"
  using trans_atomic [where ip = "\<lambda>_. []" and now = 100 and L = refLib and p = refProcessor,
      OF _ refTrans_writes(1,3) _ refTrans_writes(4) refTrans_keys(2) refProcessor_available refl refl] refStack_inv
  by (auto simp: refEntry_def transWrite_def newWriteEvent_def write_view_def INFINITE_TTL_def NEVER_EXPIRE_def Let_def)

text \<open>C5: A transaction with conditions on versions and on the existence of keys of which one does not hold is
  answered at once with the code for an unmatched precondition and no results: nothing is handed over
  for replication, no version is allocated, no live entry changes and all locks are given back.\<close>

theorem trans_precondition_protects:
  assumes "leaderInv hash lookup L (mKVStorePtr p)" and "Trans_getTargetKeys (newTrans req) = Some keys"
    and "WS_available hash lookup (WS_locks (mKVStorePtr p)) keys True"
    and "\<forall>cond \<in> set (tr_preconds req). judgeable now (leaderView hash lookup L (mKVStorePtr p)) cond"
    and "\<not> Trans_isFollowerReadCmd (newTrans req)"
    and "\<exists>cond \<in> set (tr_preconds req). \<not> condHolds now (leaderView hash lookup L (mKVStorePtr p)) cond"
  shows "\<exists>c' r s'. doExecute (Trans_ops ip (leaderStack hash lookup L)) None now (newTrans req, p) =
        Some ([], c', p\<lparr>mKVStorePtr := s'\<rparr>) \<and>
      mReplies c' = [r] \<and> h_code (trr_header r) = RC_PRECOND_NOT_MATCHED \<and> trr_results r = [] \<and>
      leaderInv hash lookup L s' \<and> WS_locks s' = WS_locks (mKVStorePtr p) \<and>
      stable now (leaderView hash lookup L (mKVStorePtr p)) (leaderView hash lookup L s')"
  using assms by (rule rocks_ro.ws_commands.trans_precond_law)

theorem trans_precondition_protects_witness:
  "\<exists>c' r s'. doExecute (Trans_ops (\<lambda>_. []) refStack) None 100 (newTrans (refTrans [VersionCond ''a'' 3 CMP_EQUAL]), refProcessor) =
       Some ([], c', refProcessor\<lparr>mKVStorePtr := s'\<rparr>) \<and> mReplies c' = [r] \<and> h_code (trr_header r) = RC_PRECOND_NOT_MATCHED"
proof -
  let ?req = "refTrans [VersionCond ''a'' 3 CMP_EQUAL]"
  have "\<forall>cond \<in> set (tr_preconds ?req). judgeable 100 (refView (mKVStorePtr refProcessor)) cond"
      "\<not> Trans_isFollowerReadCmd (newTrans ?req)"
      "\<exists>cond \<in> set (tr_preconds ?req). \<not> condHolds 100 (refView (mKVStorePtr refProcessor)) cond"
    by (simp_all add: refTrans_def judgeable_def expired_def visible_def refView_empty newTrans_def Trans_isFollowerReadCmd_def)
  from trans_precondition_protects [where L = refLib and hash = refHash and lookup = refLookup and p = refProcessor
        and now = 100 and ip = "\<lambda>_. []", OF _ refTrans_keys(3) refProcessor_available this] refStack_inv show ?thesis
    by auto
qed

text \<open>C16: Whatever a transaction does (it fails in a condition, in an entry, is refused by the callback
  before execution, or runs through), when the processor is done with it the invariant of the
  leader's stack holds and every lock is as it was before. The callback is one that reads the store
  only.\<close>

theorem trans_gives_locks_back:
  assumes "doExecute (Trans_ops ip (leaderStack hash lookup L)) pre now (c, p) = Some (calls, c', p')"
    and "leaderInv hash lookup L (mKVStorePtr p)"
    and "pre_keeps (leaderInv hash lookup L) (leaderView hash lookup L) (WS_resident hash lookup) WS_locks pre"
  shows "leaderInv hash lookup L (mKVStorePtr p') \<and> WS_locks (mKVStorePtr p') = WS_locks (mKVStorePtr p)"
  using assms by (rule leader_trans.doExecute_locks)

theorem trans_gives_locks_back_witness:
  "\<exists>calls c' p'. doExecute (Trans_ops (\<lambda>_. []) refStack) None 100 (newTrans (refTrans []), refProcessor) = Some (calls, c', p') \<and>
     WS_locks (mKVStorePtr p') = WS_locks (refWS, refRocks)"
proof -
  obtain calls c' p' where
    d: "doExecute (Trans_ops (\<lambda>_. []) refStack) None 100 (newTrans (refTrans []), refProcessor) = Some (calls, c', p')"
    by (rule refTrans_runs)
  have "pre_keeps refInv refView (WS_resident refHash refLookup) WS_locks None"
    by (simp add: pre_keeps_def)
  from trans_gives_locks_back [OF d _ this] d refStack_inv show ?thesis
    by auto
qed



end
