(* ===== verification/Reply_Loop.thy ===== *)
theory Reply_Loop
  imports Command_Processor
begin

text \<open>
  \<^verbatim>\<open>kv-engine/raft/ReplyLoop\<close>: a client is answered once what it wrote or read is committed.
  A write waits for its log entry, a read for its version.

  The raft library is not part of the program: the record \<open>Raft\<close> has what it answers to the
  calls of one pass of a loop, and a loop takes the list of the answers of its passes; the empty list
  is a loop that still waits. The two reads of the current term that a pass repeats until they agree
  are the one field \<open>rf_currentTerm\<close>. Log indexes and terms are natural numbers. Metrics are left
  out.
\<close>

section \<open>The raft library\<close>

record LogEntry =
  le_term :: nat
  le_index :: nat
  le_noop :: bool
  le_secKeyVersion :: nat
  le_payload :: string

record 'm Raft =
  rf_currentTerm :: nat
  rf_isLeader :: bool
  rf_commitIndex :: nat
  rf_lastLogIndex :: nat
  rf_getEntry :: "nat \<Rightarrow> LogEntry option"
  rf_getEntries :: "nat \<Rightarrow> nat \<Rightarrow> nat \<times> LogEntry list"
  rf_leaderHint :: "64 word option"
  rf_clusterMembers :: 'm

section \<open>The loop\<close>

record 'c Task =
  mIndex :: nat
  mTerm :: nat
  mVersion :: VersionType
  followerReadTask :: bool
  mContext :: "'c option"
  mTaskCode :: ResponseCode
  mMessage :: string

text \<open>The queues of the two execution services, and the version store the loop shares with the
  processor.\<close>

record 'c ReplyLoop =
  mWriteReplyExecutionService :: "'c Task list"
  mReadReplyExecutionService :: "'c Task list"
  mVersionStore :: VersionStore

definition newTask :: "nat \<Rightarrow> nat \<Rightarrow> VersionType \<Rightarrow> 'c option \<Rightarrow> bool \<Rightarrow> 'c Task" where
  "newTask index term ver ctx isFollowerReadTask =
     \<lparr>mIndex = index, mTerm = term, mVersion = ver, followerReadTask = isFollowerReadTask, mContext = ctx,
      mTaskCode = RC_OK, mMessage = ''Success''\<rparr>"

definition pushTask :: "nat \<Rightarrow> nat \<Rightarrow> VersionType \<Rightarrow> 'c option \<Rightarrow> bool \<Rightarrow> 'c ReplyLoop \<Rightarrow> 'c ReplyLoop" where
  "pushTask index term ver ctx isFollowerReadTask l =
     (let task = newTask index term ver ctx isFollowerReadTask
      in if mIndex task \<noteq> 0
         then l\<lparr>mWriteReplyExecutionService := mWriteReplyExecutionService l @ [task]\<rparr>
         else l\<lparr>mReadReplyExecutionService := mReadReplyExecutionService l @ [task]\<rparr>)"

text \<open>Each pass sees whether the loop still runs and what the raft library answers.\<close>

fun waitTillCommittedOrQuit :: "nat \<Rightarrow> nat \<Rightarrow> (bool \<times> 'm Raft) list \<Rightarrow> bool option" where
  "waitTillCommittedOrQuit index term [] = None"
| "waitTillCommittedOrQuit index term ((running, rf) # passes) =
     (if \<not> running then Some False
      else do {
        assert (term \<le> rf_currentTerm rf);
        if rf_lastLogIndex rf < index \<and> term < rf_currentTerm rf then Some False
        else if rf_commitIndex rf < index then waitTillCommittedOrQuit index term passes
        else do {
          entry \<leftarrow> rf_getEntry rf index;
          Some (le_term entry = term)
        }
      })"

text \<open>The second half of \<^verbatim>\<open>replyTask\<close>: answering, and raising the largest version.\<close>

definition replyTask_answer ::
  "('c, 's) Command \<Rightarrow> 64 word option \<Rightarrow> 'c Task \<Rightarrow> 'c ReplyLoop \<Rightarrow> ('c option \<times> 'c ReplyLoop) option" where
  "replyTask_answer C leaderHint task l = do {
     ctx \<leftarrow> (case mContext task of
         None \<Rightarrow> Some None
       | Some c \<Rightarrow> map_option Some (ctx_fillResponseAndReply C (mTaskCode task) (mMessage task) leaderHint c));
     Some (ctx, l\<lparr>mVersionStore := updateCurMaxVersion (mVersion task) (mVersionStore l)\<rparr>)
   }"

definition replyTask ::
  "('c, 's) Command \<Rightarrow> (bool \<times> 'm Raft) list \<Rightarrow> 64 word option \<Rightarrow> 'c Task \<Rightarrow> 'c ReplyLoop \<Rightarrow>
   ('c option \<times> 'c ReplyLoop) option" where
  "replyTask C passes leaderHint task l =
     (if mIndex task \<noteq> 0 then do {
        isCommitted \<leftarrow> waitTillCommittedOrQuit (mIndex task) (mTerm task) passes;
        replyTask_answer C leaderHint
          (if isCommitted then task else task\<lparr>mTaskCode := RC_NOT_LEADER, mMessage := ''NotLeaderAnyMore''\<rparr>) l
      }
      else if \<not> followerReadTask task \<and> getCurMaxVersion (mVersionStore l) < mVersion task then
        Some (None, pushTask (mIndex task) (mTerm task) (mVersion task) (mContext task) False l)
      else replyTask_answer C leaderHint task l)"

section \<open>Answers and commits\<close>

text \<open>A pass that shows the entry committed or lost ends the wait.\<close>

definition decisive :: "nat \<Rightarrow> nat \<Rightarrow> bool \<times> 'm Raft \<Rightarrow> bool" where
  "decisive index term pass = (case pass of (running, rf) \<Rightarrow>
     \<not> running \<or> rf_lastLogIndex rf < index \<and> term < rf_currentTerm rf \<or>
     index \<le> rf_commitIndex rf \<and> rf_getEntry rf index \<noteq> None)"

lemma waitTillCommittedOrQuit_committed:
  assumes "waitTillCommittedOrQuit index term passes = Some True"
  shows "\<exists>rf entry. (True, rf) \<in> set passes \<and> index \<le> rf_commitIndex rf \<and> rf_getEntry rf index = Some entry \<and> le_term entry = term"
  using assms
proof (induction index "term" passes rule: waitTillCommittedOrQuit.induct)
  case (2 index "term" running rf passes)
  then show ?case
    by (fastforce simp: bind_eq_Some_conv split: if_splits)
qed simp

lemma waitTillCommittedOrQuit_returns:
  assumes "\<forall>p \<in> set passes. term \<le> rf_currentTerm (snd p)"
    and "\<forall>p \<in> set passes. index \<le> rf_commitIndex (snd p) \<longrightarrow> rf_getEntry (snd p) index \<noteq> None"
    and "\<exists>p \<in> set passes. decisive index term p"
  shows "\<exists>b. waitTillCommittedOrQuit index term passes = Some b"
  using assms
proof (induction passes)
  case (Cons p passes)
  obtain running rf where p: "p = (running, rf)"
    by (cases p)
  have t: "term \<le> rf_currentTerm rf" "index \<le> rf_commitIndex rf \<Longrightarrow> \<exists>e. rf_getEntry rf index = Some e"
    using Cons.prems(1,2) by (auto simp: p)
  show ?case
  proof (cases "decisive index term p")
    case True
    then show ?thesis
      using t by (auto simp: p decisive_def)
  next
    case False
    then have "\<exists>b. waitTillCommittedOrQuit index term passes = Some b"
      using Cons by auto
    then show ?thesis
      using t by (auto simp: p)
  qed
qed simp

end
