(* ===== verification/Raft_Event_Store.thy ===== *)
theory Raft_Event_Store
  imports Reply_Loop
begin

text \<open>
  \<^verbatim>\<open>kv-engine/raft/RaftEventStore\<close>: between the processor and the raft log. Events of commands
  are queued, turned into log entries with consecutive indexes and sent in batches; committed entries
  are read back as bundles, in order, for the apply loop; and a new leader waits until everything
  before its term is loaded.

  The serialisation of a bundle and the encryption of a payload belong to libraries: they are the
  fields of the record \<open>Codec\<close>. During one call the raft library is looked at once, so that the
  recursion of \<^verbatim>\<open>loadNextBundle\<close> sees one commit index.
\<close>

section \<open>Codec\<close>

record Codec =
  cd_isEnabled :: bool
  cd_latestSecKeyVersion :: nat
  cd_kInvalidSecKeyVersion :: nat
  cd_kOldestSecKeyVersion :: nat
  cd_encrypt :: "string \<Rightarrow> nat \<Rightarrow> string"
  cd_decrypt :: "string \<Rightarrow> nat \<Rightarrow> string option"
  cd_SerBundle :: "ProtoEvent list \<Rightarrow> string"
  cd_ParseBundle :: "string \<Rightarrow> ProtoEvent list option"
  cd_ByteSize :: "LogEntry \<Rightarrow> nat"

type_synonym BundleWithIndex = "ProtoEvent list \<times> nat"

text \<open>The store. A persist task is its events, version, term and context.\<close>

record 'c RaftEventStore =
  mLogStoreTerm :: nat
  mLogStoreIsLeader :: bool
  mNextDetectLeadershipTimeInNano :: "64 word"
  mCachedBundles :: "BundleWithIndex list"
  mAppliedIndex :: nat
  mLoadedIndex :: nat
  mPersistQueue :: "(Event list \<times> VersionType \<times> nat \<times> 'c) list"
  mTaskCount :: nat
  mBatchReqs :: "LogEntry list"
  mLastSentTimeInNano :: "64 word"
  mLastSentLogIndex :: nat
  mSpinTimes :: nat

definition kDetectLeadershipTimeoutInNano :: "64 word" where
  "kDetectLeadershipTimeoutInNano = 1000000"

definition kMaxDelayInMs :: nat where
  "kMaxDelayInMs = 5"

definition kMaxBatchSize :: nat where
  "kMaxBatchSize = 100"

definition kMaxPayLoadSizeInBytes :: nat where
  "kMaxPayLoadSizeInBytes = 5000000"

definition kSpinLimit :: nat where
  "kSpinLimit = 50"

definition newRaftEventStore :: "'c RaftEventStore" where
  "newRaftEventStore = \<lparr>mLogStoreTerm = 0, mLogStoreIsLeader = False, mNextDetectLeadershipTimeInNano = 0,
     mCachedBundles = [], mAppliedIndex = 0, mLoadedIndex = 0, mPersistQueue = [], mTaskCount = 0, mBatchReqs = [],
     mLastSentTimeInNano = 0, mLastSentLogIndex = 0, mSpinTimes = 0\<rparr>"

section \<open>Loading\<close>

definition decryptPayload :: "Codec \<Rightarrow> LogEntry \<Rightarrow> string option" where
  "decryptPayload cd entry =
     (if cd_isEnabled cd then
        (if le_secKeyVersion entry = cd_kInvalidSecKeyVersion cd
         then cd_decrypt cd (le_payload entry) (cd_kOldestSecKeyVersion cd)
         else cd_decrypt cd (le_payload entry) (le_secKeyVersion entry))
      else Some (le_payload entry))"

primrec decryptEntries :: "Codec \<Rightarrow> LogEntry list \<Rightarrow> BundleWithIndex list option" where
  "decryptEntries cd [] = Some []"
| "decryptEntries cd (entry # entries) =
     (if le_noop entry then decryptEntries cd entries
      else do {
        payload \<leftarrow> decryptPayload cd entry;
        bundle \<leftarrow> cd_ParseBundle cd payload;
        bundles \<leftarrow> decryptEntries cd entries;
        Some ((bundle, le_index entry) # bundles)
      })"

definition loadBundles :: "Codec \<Rightarrow> 'm Raft \<Rightarrow> nat \<Rightarrow> nat \<Rightarrow> (nat \<times> BundleWithIndex list) option" where
  "loadBundles cd rf startIndex sz = (case rf_getEntries rf startIndex sz of (sz', entries) \<Rightarrow>
     do { bundles \<leftarrow> decryptEntries cd entries; Some (sz', bundles) })"

function loadNextBundle ::
  "Codec \<Rightarrow> 'm Raft \<Rightarrow> 'c RaftEventStore \<Rightarrow> (BundleWithIndex option \<times> 'c RaftEventStore) option" where
  "loadNextBundle cd rf s = (case mCachedBundles s of
      b # bs \<Rightarrow> Some (Some b, s\<lparr>mCachedBundles := bs, mAppliedIndex := max (mAppliedIndex s) (snd b)\<rparr>)
    | [] \<Rightarrow>
        (let s1 = s\<lparr>mSpinTimes := mSpinTimes s + 1\<rparr>
         in if rf_commitIndex rf \<le> mLoadedIndex s then
              Some (None, if kSpinLimit \<le> mSpinTimes s1 then s1\<lparr>mSpinTimes := 0\<rparr> else s1)
            else (case loadBundles cd rf (mLoadedIndex s + 1) (rf_commitIndex rf - mLoadedIndex s) of
                None \<Rightarrow> None
              | Some (sz, bundles) \<Rightarrow>
                  if sz = 0 then Some (None, s1\<lparr>mSpinTimes := 0\<rparr>)
                  else loadNextBundle cd rf
                    (s1\<lparr>mSpinTimes := 0, mLoadedIndex := mLoadedIndex s + sz, mCachedBundles := bundles\<rparr>))))"
  by pat_completeness auto
termination
  by (relation "measure (\<lambda>(cd, rf, s). rf_commitIndex rf - mLoadedIndex s)") auto

declare loadNextBundle.simps [simp del]

definition resetLoadedLogIndex :: "nat \<Rightarrow> 'c RaftEventStore \<Rightarrow> 'c RaftEventStore option" where
  "resetLoadedLogIndex logIndex s = do {
     assert (mAppliedIndex s = 0 \<and> mLoadedIndex s = 0);
     Some (s\<lparr>mAppliedIndex := logIndex, mLoadedIndex := logIndex\<rparr>)
   }"

section \<open>Leadership\<close>

text \<open>The scan of the entries after the applied one: all of them no-ops and the last of the expected
  term.\<close>

primrec scanNoops :: "'m Raft \<Rightarrow> nat \<Rightarrow> nat list \<Rightarrow> bool option" where
  "scanNoops rf expectedTerm [] = Some False"
| "scanNoops rf expectedTerm (index # indexes) = do {
     entry \<leftarrow> rf_getEntry rf index;
     if \<not> le_noop entry then Some False
     else if index = rf_lastLogIndex rf \<and> le_term entry = expectedTerm then Some True
     else scanNoops rf expectedTerm indexes
   }"

text \<open>Each pass sees the raft library and the two indexes, which the apply loop moves.\<close>

fun waitTillLeaderIsReadyOrStepDown ::
  "Codec \<Rightarrow> nat \<Rightarrow> ('m Raft \<times> nat \<times> nat) list \<Rightarrow> (Status \<times> nat \<times> ProtoEvent list option \<times> 'm) option" where
  "waitTillLeaderIsReadyOrStepDown cd expectedTerm [] = None"
| "waitTillLeaderIsReadyOrStepDown cd expectedTerm ((rf, loadedIndex, appliedIndex) # passes) =
     (if rf_currentTerm rf \<noteq> expectedTerm then Some (Status_notLeader [], 0, None, rf_clusterMembers rf)
      else if loadedIndex \<noteq> rf_commitIndex rf \<or> rf_commitIndex rf \<noteq> rf_lastLogIndex rf then
        waitTillLeaderIsReadyOrStepDown cd expectedTerm passes
      else do {
        ready \<leftarrow> scanNoops rf expectedTerm [appliedIndex + 1..<rf_lastLogIndex rf + 1];
        if \<not> ready then waitTillLeaderIsReadyOrStepDown cd expectedTerm passes
        else if 0 < appliedIndex then do {
          (sz, bundles) \<leftarrow> loadBundles cd rf appliedIndex 1;
          assert (length bundles = 1);
          Some (Status_ok, rf_lastLogIndex rf, Some (fst (last bundles)), rf_clusterMembers rf)
        }
        else Some (Status_ok, rf_lastLogIndex rf, None, rf_clusterMembers rf)
      })"

definition updateLogIndexWhenNewLeader :: "nat \<Rightarrow> 'c RaftEventStore \<Rightarrow> 'c RaftEventStore" where
  "updateLogIndexWhenNewLeader lastLogIndex s = s\<lparr>mLastSentLogIndex := lastLogIndex\<rparr>"

definition getRoleAndTerm :: "'c RaftEventStore \<Rightarrow> bool \<times> nat" where
  "getRoleAndTerm s = (mLogStoreIsLeader s, mLogStoreTerm s)"

definition refreshRoleAndTerm :: "'m Raft \<Rightarrow> 'c RaftEventStore \<Rightarrow> 'c RaftEventStore" where
  "refreshRoleAndTerm rf s =
     (if rf_currentTerm rf = mLogStoreTerm s \<and> rf_isLeader rf = mLogStoreIsLeader s then s
      else s\<lparr>mLogStoreTerm := rf_currentTerm rf, mLogStoreIsLeader := rf_isLeader rf\<rparr>)"

section \<open>Persisting\<close>

definition replyAsync ::
  "nat \<Rightarrow> nat \<Rightarrow> VersionType \<Rightarrow> 'c \<Rightarrow> bool \<Rightarrow> 'c ReplyLoop \<Rightarrow> 'c ReplyLoop" where
  "replyAsync expectedIndex expectedTerm ver ctx isFollowerReadReply l =
     (if \<not> isFollowerReadReply then pushTask expectedIndex expectedTerm ver (Some ctx) False l
      else pushTask expectedIndex expectedTerm ver (Some ctx) True l)"

definition persistAsync ::
  "nat \<Rightarrow> 'c \<Rightarrow> VersionType \<Rightarrow> Event list \<Rightarrow> 'c RaftEventStore \<Rightarrow> 'c RaftEventStore option" where
  "persistAsync expectedTerm ctx ver events s = do {
     assert (events \<noteq> []);
     Some (s\<lparr>mTaskCount := mTaskCount s + 1, mPersistQueue := mPersistQueue s @ [(events, ver, expectedTerm, ctx)]\<rparr>)
   }"

text \<open>The log entry of a persist task.\<close>

definition makeEntry :: "Codec \<Rightarrow> nat \<Rightarrow> nat \<Rightarrow> Event list \<Rightarrow> LogEntry option" where
  "makeEntry cd nextLogIndex expectedTerm events = do {
     bundle \<leftarrow> toBundle events;
     let keyVersion = cd_latestSecKeyVersion cd;
     let entry = \<lparr>le_term = expectedTerm, le_index = nextLogIndex, le_noop = False, le_secKeyVersion = keyVersion,
       le_payload = cd_encrypt cd (cd_SerBundle cd bundle) keyVersion\<rparr>;
     assert (cd_ByteSize cd entry \<le> kMaxPayLoadSizeInBytes);
     Some entry
   }"

text \<open>\<open>observed\<close> is the last sent index at the time of the exchange: it is not the one read at the
  start when a new leader has set it in between.\<close>

definition dequeue ::
  "Codec \<Rightarrow> nat \<Rightarrow> 'c RaftEventStore \<times> 'c ReplyLoop \<Rightarrow> ('c RaftEventStore \<times> 'c ReplyLoop) option" where
  "dequeue cd observed = (\<lambda>(s, l). case mPersistQueue s of
      [] \<Rightarrow> None
    | (events, ver, expectedTerm, ctx) # queue \<Rightarrow> do {
        let previousLogIndex = mLastSentLogIndex s;
        let nextLogIndex = previousLogIndex + 1;
        entry \<leftarrow> makeEntry cd nextLogIndex expectedTerm events;
        Some (s\<lparr>mPersistQueue := queue, mBatchReqs := mBatchReqs s @ [entry],
                mLastSentLogIndex := (if observed = previousLogIndex then nextLogIndex else observed)\<rparr>,
              replyAsync nextLogIndex expectedTerm ver ctx False l)
      })"

text \<open>The batch that is handed to the raft library, if any.\<close>

definition maySendBatch :: "64 word \<Rightarrow> 'c RaftEventStore \<Rightarrow> LogEntry list option \<times> 'c RaftEventStore" where
  "maySendBatch nowInNano s =
     (if mBatchReqs s = [] then (None, s)
      else if length (mBatchReqs s) < kMaxBatchSize \<and>
              unat (nowInNano - mLastSentTimeInNano s) < kMaxDelayInMs * 1000000 then (None, s)
      else (Some (mBatchReqs s), s\<lparr>mBatchReqs := [], mLastSentTimeInNano := nowInNano\<rparr>))"

text \<open>Taking \<open>n\<close> tasks off the queue while no new leader comes in between.\<close>

primrec drain :: "Codec \<Rightarrow> nat \<Rightarrow> 'c RaftEventStore \<times> 'c ReplyLoop \<Rightarrow> ('c RaftEventStore \<times> 'c ReplyLoop) option" where
  "drain cd 0 sl = Some sl"
| "drain cd (Suc n) sl = do {
     (s, l) \<leftarrow> dequeue cd (mLastSentLogIndex (fst sl)) sl;
     drain cd n (s\<lparr>mTaskCount := mTaskCount s - 1\<rparr>, l)
   }"

text \<open>One turn of the persist loop: \<open>n\<close> is how many tasks the double-buffered queue shows.\<close>

definition persistLoop ::
  "Codec \<Rightarrow> 'm Raft \<Rightarrow> 64 word \<Rightarrow> nat \<Rightarrow> 'c RaftEventStore \<times> 'c ReplyLoop \<Rightarrow>
   (LogEntry list option \<times> 'c RaftEventStore \<times> 'c ReplyLoop) option" where
  "persistLoop cd rf curTime n = (\<lambda>(s, l). do {
     let s1 = (if mNextDetectLeadershipTimeInNano s = 0 \<or> mNextDetectLeadershipTimeInNano s < curTime
               then (refreshRoleAndTerm rf s)\<lparr>mNextDetectLeadershipTimeInNano := curTime + kDetectLeadershipTimeoutInNano\<rparr>
               else s);
     (s2, l2) \<leftarrow> drain cd n (s1, l);
     let (batch, s3) = maySendBatch curTime s2;
     Some (batch, s3, l2)
   })"

text \<open>What the processor's calls do.\<close>

fun raftCall :: "'c RaftCall \<Rightarrow> 'c RaftEventStore \<times> 'c ReplyLoop \<Rightarrow> ('c RaftEventStore \<times> 'c ReplyLoop) option" where
  "raftCall (ReplyAsync index term ver ctx isFollower) (s, l) = Some (s, replyAsync index term ver ctx isFollower l)"
| "raftCall (PersistAsync term ctx ver events) (s, l) = do { s' \<leftarrow> persistAsync term ctx ver events s; Some (s', l) }"
| "raftCall (UpdateLogIndexWhenNewLeader index) (s, l) = Some (updateLogIndexWhenNewLeader index s, l)"

end
