(* ===== verification/Raft_Log.thy ===== *)
theory Raft_Log
  imports Raft_Event_Store
begin

text \<open>
  What the event store guarantees of the way from the persist queue through the raft log to the apply
  loop, under what the raft library, protobuf and the encryption promise.
\<close>

section \<open>What the libraries promise\<close>

text \<open>The library hands out the committed part of one log: \<open>log ! i\<close> has the index \<open>i + 1\<close>. It may
  return fewer entries than it is asked for.\<close>

definition raft_log_spec :: "LogEntry list \<Rightarrow> 'm Raft \<Rightarrow> bool" where
  "raft_log_spec log rf =
     (rf_commitIndex rf \<le> length log \<and> (\<forall>i < length log. le_index (log ! i) = Suc i) \<and>
      (\<forall>i < rf_commitIndex rf. rf_getEntry rf (Suc i) = Some (log ! i)) \<and>
      (\<forall>start sz. 0 < start \<longrightarrow> start - 1 + sz \<le> rf_commitIndex rf \<longrightarrow>
         (\<exists>n \<le> sz. rf_getEntries rf start sz = (n, take n (drop (start - 1) log)))))"

definition codec_spec :: "Codec \<Rightarrow> bool" where
  "codec_spec cd =
     ((\<forall>b. cd_ParseBundle cd (cd_SerBundle cd b) = Some b) \<and>
      (if cd_isEnabled cd
       then cd_latestSecKeyVersion cd \<noteq> cd_kInvalidSecKeyVersion cd \<and>
            (\<forall>p v. v \<noteq> cd_kInvalidSecKeyVersion cd \<longrightarrow> cd_decrypt cd (cd_encrypt cd p v) v = Some p)
       else \<forall>p v. cd_encrypt cd p v = p))"

section \<open>Loading in order\<close>

lemma decryptEntries_append:
  "decryptEntries cd (xs @ ys) = do { a \<leftarrow> decryptEntries cd xs; b \<leftarrow> decryptEntries cd ys; Some (a @ b) }"
proof (induction xs)
  case (Cons x xs)
  then show ?case
    by (cases "decryptEntries cd ys"; cases "decryptEntries cd xs"; cases "decryptPayload cd x")
      (auto split: bind_splits)
qed simp

lemma decryptEntries_split:
  assumes "decryptEntries cd (xs @ ys) = Some bs"
  shows "\<exists>a b. decryptEntries cd xs = Some a \<and> decryptEntries cd ys = Some b \<and> bs = a @ b"
  using assms by (auto simp: decryptEntries_append bind_eq_Some_conv)

text \<open>The part of the log after the first \<open>start\<close> entries and up to the loaded index has been handed
  out or is cached, in order and without gaps.\<close>

definition loaderOK :: "Codec \<Rightarrow> LogEntry list \<Rightarrow> nat \<Rightarrow> BundleWithIndex list \<Rightarrow> 'c RaftEventStore \<Rightarrow> bool" where
  "loaderOK cd log start delivered s =
     (start \<le> mLoadedIndex s \<and> mLoadedIndex s \<le> length log \<and>
      decryptEntries cd (take (mLoadedIndex s - start) (drop start log)) = Some (delivered @ mCachedBundles s))"

lemma loaderOK_extend: "loaderOK cd log start delivered s \<Longrightarrow> loaderOK cd (log @ rest) start delivered s"
  by (auto simp: loaderOK_def)

lemma take_drop_extend:
  assumes "start \<le> m"
  shows "take (m + n - start) (drop start xs) = take (m - start) (drop start xs) @ take n (drop m xs)"
proof -
  have "m + n - start = (m - start) + n"
    using assms by simp
  then show ?thesis
    using assms by (simp only: take_add) (simp add: add.commute)
qed

lemma loadBundles_step:
  assumes ok: "loaderOK cd log start delivered s" and rf: "raft_log_spec log rf" and dec: "decryptEntries cd log \<noteq> None"
    and cached: "mCachedBundles s = []" and lt: "mLoadedIndex s < rf_commitIndex rf"
  shows "\<exists>sz bundles. loadBundles cd rf (mLoadedIndex s + 1) (rf_commitIndex rf - mLoadedIndex s) = Some (sz, bundles) \<and>
           loaderOK cd log start delivered (s\<lparr>mSpinTimes := 0, mLoadedIndex := mLoadedIndex s + sz, mCachedBundles := bundles\<rparr>)"
proof -
  let ?m = "mLoadedIndex s"
  from lt have "?m + (rf_commitIndex rf - ?m) \<le> rf_commitIndex rf"
    by simp
  with rf have "\<exists>n \<le> rf_commitIndex rf - ?m. rf_getEntries rf (?m + 1) (rf_commitIndex rf - ?m) = (n, take n (drop ?m log))"
    unfolding raft_log_spec_def by (metis Suc_eq_plus1 diff_Suc_1 zero_less_Suc)
  then obtain n where n: "n \<le> rf_commitIndex rf - ?m"
      "rf_getEntries rf (?m + 1) (rf_commitIndex rf - ?m) = (n, take n (drop ?m log))"
    by blast
  have "log = take ?m log @ take n (drop ?m log) @ drop n (drop ?m log)"
    by (simp only: append_take_drop_id)
  with dec have "decryptEntries cd (take n (drop ?m log)) \<noteq> None"
    using decryptEntries_split by (metis option.exhaust option.distinct(1))
  then obtain bs where bs: "decryptEntries cd (take n (drop ?m log)) = Some bs"
    by blast
  have "loaderOK cd log start delivered (s\<lparr>mSpinTimes := 0, mLoadedIndex := ?m + n, mCachedBundles := bs\<rparr>)"
    using ok cached bs n(1) rf lt
    by (auto simp: loaderOK_def take_drop_extend decryptEntries_append raft_log_spec_def)
  then show ?thesis
    using n(2) bs by (auto simp: loadBundles_def)
qed

definition handedOut :: "BundleWithIndex option \<Rightarrow> BundleWithIndex list" where
  "handedOut r = (case r of None \<Rightarrow> [] | Some b \<Rightarrow> [b])"

lemma loadNextBundle_step:
  assumes "loaderOK cd log start delivered s" and "raft_log_spec log rf" and "decryptEntries cd log \<noteq> None"
  shows "\<exists>r s'. loadNextBundle cd rf s = Some (r, s') \<and> loaderOK cd log start (delivered @ handedOut r) s'"
  using assms
proof (induction cd rf s rule: loadNextBundle.induct)
  case (1 cd rf s)
  show ?case
  proof (cases "mCachedBundles s")
    case (Cons b bs)
    then show ?thesis
      using 1(2) by (subst loadNextBundle.simps) (auto simp: loaderOK_def handedOut_def)
  next
    case Nil
    show ?thesis
    proof (cases "rf_commitIndex rf \<le> mLoadedIndex s")
      case True
      then show ?thesis
        using 1(2) Nil by (subst loadNextBundle.simps) (auto simp: loaderOK_def handedOut_def Let_def)
    next
      case False
      then have "mLoadedIndex s < rf_commitIndex rf"
        by simp
      from loadBundles_step [OF 1(2,3,4) Nil this] obtain sz bundles where
        l: "loadBundles cd rf (mLoadedIndex s + 1) (rf_commitIndex rf - mLoadedIndex s) = Some (sz, bundles)"
          "loaderOK cd log start delivered (s\<lparr>mSpinTimes := 0, mLoadedIndex := mLoadedIndex s + sz, mCachedBundles := bundles\<rparr>)"
        by blast
      have same: "s\<lparr>mSpinTimes := mSpinTimes s + 1, mSpinTimes := 0, mLoadedIndex := mLoadedIndex s + sz, mCachedBundles := bundles\<rparr> =
          s\<lparr>mSpinTimes := 0, mLoadedIndex := mLoadedIndex s + sz, mCachedBundles := bundles\<rparr>"
        by simp
      show ?thesis
      proof (cases "sz = 0")
        case True
        then show ?thesis
          using 1(2) Nil False l(1)
          by (subst loadNextBundle.simps) (auto simp: loaderOK_def handedOut_def Let_def)
      next
        case nz: False
        have "\<exists>r s'. loadNextBundle cd rf (s\<lparr>mSpinTimes := mSpinTimes s + 1, mSpinTimes := 0,
              mLoadedIndex := mLoadedIndex s + sz, mCachedBundles := bundles\<rparr>) = Some (r, s') \<and>
            loaderOK cd log start (delivered @ handedOut r) s'"
          by (rule "1.IH" [OF Nil refl False l(1) refl nz]) (use l(2) 1(3,4) in \<open>simp_all only: same not_False_eq_True\<close>)
        then show ?thesis
          using Nil False l(1) nz by (subst loadNextBundle.simps) (simp add: Let_def)
      qed
    qed
  qed
qed

text \<open>A run of the loader, one call after the other.\<close>

primrec loadRun :: "Codec \<Rightarrow> 'm Raft list \<Rightarrow> 'c RaftEventStore \<Rightarrow> (BundleWithIndex list \<times> 'c RaftEventStore) option" where
  "loadRun cd [] s = Some ([], s)"
| "loadRun cd (rf # rfs) s = do {
     (r, s1) \<leftarrow> loadNextBundle cd rf s;
     (bs, s2) \<leftarrow> loadRun cd rfs s1;
     Some (handedOut r @ bs, s2)
   }"

lemma loadRun_ok:
  assumes "loaderOK cd log start delivered s" and "\<forall>rf \<in> set rfs. raft_log_spec log rf" and "decryptEntries cd log \<noteq> None"
  shows "\<exists>bs s'. loadRun cd rfs s = Some (bs, s') \<and> loaderOK cd log start (delivered @ bs) s'"
  using assms
proof (induction rfs arbitrary: delivered s)
  case (Cons rf rfs)
  then have rf: "raft_log_spec log rf"
    by simp
  from loadNextBundle_step [OF Cons.prems(1) rf Cons.prems(3)] obtain r s1 where
    s1: "loadNextBundle cd rf s = Some (r, s1)" "loaderOK cd log start (delivered @ handedOut r) s1"
    by blast
  from Cons.IH [OF s1(2)] Cons.prems(2,3) s1(1) show ?case
    by auto
qed simp

section \<open>From the queue to the log\<close>

lemma makeEntry_roundtrip:
  assumes "codec_spec cd" and "makeEntry cd index term events = Some entry" and "\<forall>e \<in> set events. getType e \<noteq> READ"
  shows "\<exists>b. decryptEntries cd [entry] = Some [(b, index)] \<and> fromBundle b = Some (map replicated events) \<and> le_term entry = term"
proof -
  obtain b where b: "toBundle events = Some b" "fromBundle b = Some (map replicated events)"
    using bundle_roundtrip [OF assms(3)] by blast
  then show ?thesis
    using assms(1,2) by (auto simp: makeEntry_def decryptPayload_def codec_spec_def bind_eq_Some_conv Let_def split: if_splits)
qed

text \<open>The entries, and the tasks that wait for them, that a queue gives rise to.\<close>

primrec entriesOf :: "Codec \<Rightarrow> nat \<Rightarrow> (Event list \<times> VersionType \<times> nat \<times> 'c) list \<Rightarrow> LogEntry list option" where
  "entriesOf cd lastIndex [] = Some []"
| "entriesOf cd lastIndex (q # qs) = (case q of (events, ver, term, ctx) \<Rightarrow> do {
     e \<leftarrow> makeEntry cd (lastIndex + 1) term events;
     es \<leftarrow> entriesOf cd (lastIndex + 1) qs;
     Some (e # es)
   })"

primrec tasksOf :: "nat \<Rightarrow> (Event list \<times> VersionType \<times> nat \<times> 'c) list \<Rightarrow> 'c Task list" where
  "tasksOf lastIndex [] = []"
| "tasksOf lastIndex (q # qs) = (case q of (events, ver, term, ctx) \<Rightarrow>
     newTask (lastIndex + 1) term ver (Some ctx) False # tasksOf (lastIndex + 1) qs)"

lemma drain_all:
  assumes "entriesOf cd (mLastSentLogIndex s) (mPersistQueue s) = Some es"
  shows "\<exists>s' l'. drain cd (length (mPersistQueue s)) (s, l) = Some (s', l') \<and> mPersistQueue s' = [] \<and>
      mBatchReqs s' = mBatchReqs s @ es \<and> mLastSentLogIndex s' = mLastSentLogIndex s + length (mPersistQueue s) \<and>
      mWriteReplyExecutionService l' = mWriteReplyExecutionService l @ tasksOf (mLastSentLogIndex s) (mPersistQueue s)"
  using assms
proof (induction "mPersistQueue s" arbitrary: s l es)
  case Nil
  then show ?case
    by (auto simp: Nil(1) [symmetric])
next
  case (Cons q qs)
  obtain events ver "term" ctx where q: "q = (events, ver, term, ctx)"
    by (cases q)
  let ?n = "mLastSentLogIndex s + 1"
  from Cons.prems obtain e es' where
    e: "makeEntry cd ?n term events = Some e" "entriesOf cd ?n qs = Some es'" "es = e # es'"
    by (auto simp: Cons.hyps(2) [symmetric] q bind_eq_Some_conv)
  define s1 where "s1 = s\<lparr>mPersistQueue := qs, mBatchReqs := mBatchReqs s @ [e], mLastSentLogIndex := ?n, mTaskCount := mTaskCount s - 1\<rparr>"
  define l1 where "l1 = replyAsync ?n term ver ctx False l"
  have d: "drain cd (length (mPersistQueue s)) (s, l) = drain cd (length qs) (s1, l1)"
    using e(1) by (simp add: Cons.hyps(2) [symmetric] q dequeue_def s1_def l1_def Let_def)
  have "qs = mPersistQueue s1" "entriesOf cd (mLastSentLogIndex s1) (mPersistQueue s1) = Some es'"
    using e(2) by (simp_all add: s1_def)
  from Cons.hyps(1) [OF this, of l1] show ?case
    by (auto simp: d) (auto simp: s1_def l1_def e(3) Cons.hyps(2) [symmetric] q replyAsync_def pushTask_def newTask_def)
qed

lemma entriesOf_index:
  "entriesOf cd n qs = Some es \<Longrightarrow> map le_index es = [n + 1..<n + 1 + length qs] \<and> map le_term es = map (\<lambda>(_, _, t, _). t) qs"
proof (induction qs arbitrary: n es)
  case (Cons q qs)
  obtain events ver "term" ctx where q: "q = (events, ver, term, ctx)"
    by (cases q)
  from Cons.prems obtain e es' where
    e: "makeEntry cd (n + 1) term events = Some e" "entriesOf cd (n + 1) qs = Some es'" "es = e # es'"
    by (auto simp: q bind_eq_Some_conv)
  have "le_index e = n + 1" "le_term e = term"
    using e(1) by (auto simp: makeEntry_def bind_eq_Some_conv Let_def)
  then show ?case
    using Cons.IH [OF e(2)] by (simp add: e(3) q upt_conv_Cons del: upt_Suc)
qed simp

end
