(* ===== verification/Event_Apply_Loop.thy ===== *)
theory Event_Apply_Loop
  imports Raft_Log RocksDB_Store
begin

text \<open>
  \<^verbatim>\<open>kv-engine/execution/EventApplyLoop\<close>: applies the committed bundles to the replica's store
  and saves, together with the data, the index up to which they are applied (the milestone). After a
  restart it continues from the milestone. One turn of the outer loop is \<open>run_pass\<close>: \<open>rf\<close> is what
  the raft library answers and \<open>tsInNano\<close> the clock. The local variables of \<^verbatim>\<open>run\<close> are
  fields of the state.
\<close>

definition kApplyBatchSize :: nat where
  "kApplyBatchSize = 100"

definition kSaveMilestoneTimeoutInNano :: nat where
  "kSaveMilestoneTimeoutInNano = 50 * 1000 * 1000"

record ('c, 's) EventApplyLoop =
  mShouldRecover :: bool
  mLastMilestone :: nat
  mLastSaveMilestoneTimeInNano :: "64 word"
  mLastMilestoneKeyVersion :: VersionType
  mKVStore_al :: 's
  mRaftEventStore :: "'c RaftEventStore"
  appliedIndex :: nat
  appliedBundle :: "ProtoEvent list option"

text \<open>The loop as it is made when the process starts, over the store it finds.\<close>

definition newEventApplyLoop :: "'s \<Rightarrow> ('c, 's) EventApplyLoop" where
  "newEventApplyLoop s = \<lparr>mShouldRecover = True, mLastMilestone = 0, mLastSaveMilestoneTimeInNano = 0,
     mLastMilestoneKeyVersion = 0, mKVStore_al = s, mRaftEventStore = newRaftEventStore, appliedIndex = 0,
     appliedBundle = None\<rparr>"

definition recoverSelf :: "'s KVStore \<Rightarrow> ('c, 's) EventApplyLoop \<Rightarrow> ('c, 's) EventApplyLoop option" where
  "recoverSelf K a = do {
     clear \<leftarrow> kv_isClearState K (mKVStore_al a);
     assert clear;
     (st, milestone, s) \<leftarrow> kv_loadMilestone K 0 (mKVStore_al a);
     if isOK st then do {
       r \<leftarrow> resetLoadedLogIndex (unat milestone) (mRaftEventStore a);
       Some (a\<lparr>mKVStore_al := s, mRaftEventStore := r, mLastMilestone := unat milestone, mShouldRecover := False\<rparr>)
     }
     else do {
       assert (isNotFound st);
       r \<leftarrow> resetLoadedLogIndex 0 (mRaftEventStore a);
       Some (a\<lparr>mKVStore_al := s, mRaftEventStore := r, mShouldRecover := False\<rparr>)
     }
   }"

text \<open>Saving the milestone when enough bundles or enough time went by; the first component tells
  whether the turn goes on.\<close>

definition saveMilestone ::
  "'s KVStore \<Rightarrow> 64 word \<Rightarrow> ('c, 's) EventApplyLoop \<Rightarrow> (bool \<times> ('c, 's) EventApplyLoop) option" where
  "saveMilestone K tsInNano a =
     (if mLastMilestone a < appliedIndex a \<and>
         (kApplyBatchSize \<le> appliedIndex a - mLastMilestone a \<or>
          kSaveMilestoneTimeoutInNano < unat (tsInNano - mLastSaveMilestoneTimeInNano a)) then do {
        (st, s) \<leftarrow> kv_commit K (of_nat (appliedIndex a)) (mKVStore_al a);
        if \<not> isOK st then Some (False, a\<lparr>mKVStore_al := s\<rparr>)
        else do {
          bundle \<leftarrow> appliedBundle a;
          ver \<leftarrow> getVersionFromBundle bundle;
          Some (True, a\<lparr>mKVStore_al := s, mLastMilestone := appliedIndex a, mLastSaveMilestoneTimeInNano := tsInNano,
                        mLastMilestoneKeyVersion := ver\<rparr>)
        }
      }
      else Some (True, a))"

text \<open>The inner loop: all events of the bundle again and again until none fails.\<close>

partial_function (option) applyBundle :: "'s KVStore \<Rightarrow> Event list \<Rightarrow> 's \<Rightarrow> 's option" where
  "applyBundle K events s = do {
     (st, s') \<leftarrow> apply_events K events s;
     if isOK st then Some s' else applyBundle K events s'
   }"

definition run_pass ::
  "'s KVStore \<Rightarrow> Codec \<Rightarrow> 'm Raft \<Rightarrow> 64 word \<Rightarrow> ('c, 's) EventApplyLoop \<Rightarrow> ('c, 's) EventApplyLoop option" where
  "run_pass K cd rf tsInNano a = do {
     a1 \<leftarrow> (if mShouldRecover a then do { a' \<leftarrow> recoverSelf K a; Some (a'\<lparr>appliedIndex := mLastMilestone a'\<rparr>) } else Some a);
     (go, a2) \<leftarrow> saveMilestone K tsInNano a1;
     if \<not> go then Some a2
     else do {
       (next, r) \<leftarrow> loadNextBundle cd rf (mRaftEventStore a2);
       let a3 = a2\<lparr>mRaftEventStore := r\<rparr>;
       case next of
         None \<Rightarrow> Some a3
       | Some (bundle, index) \<Rightarrow> do {
           events \<leftarrow> fromBundle bundle;
           s \<leftarrow> applyBundle K events (mKVStore_al a3);
           Some (a3\<lparr>mKVStore_al := s, appliedIndex := index, appliedBundle := Some bundle\<rparr>)
         }
     }
   }"

section \<open>A store with milestones\<close>

text \<open>
  What the loop needs of its store: besides being a sink, a commit makes everything applied so far
  durable together with a milestone, and a restart of the process brings back what is durable and
  nothing else.
\<close>

locale kv_durable = kv_sink K inv view storable "\<lambda>_ _. True"
  for K :: "'s KVStore" and inv view storable +
  fixes durable :: "'s \<Rightarrow> View"
    and milestone :: "'s \<Rightarrow> MilestoneType option"
    and restart :: "'s \<Rightarrow> 's"
  assumes commit_law: "inv s \<Longrightarrow> \<exists>s'. kv_commit K ms s = Some (Status_ok, s') \<and> inv s' \<and> durable s' = view s \<and>
      view s' = view s \<and> milestone s' = Some ms"
    and loadMilestone_some: "\<lbrakk>inv s; milestone s = Some ms\<rbrakk> \<Longrightarrow> kv_loadMilestone K m0 s = Some (Status_ok, ms, s)"
    and loadMilestone_none: "\<lbrakk>inv s; milestone s = None\<rbrakk> \<Longrightarrow> \<exists>st. kv_loadMilestone K m0 s = Some (st, m0, s) \<and> isNotFound st"
    and apply_durable: "\<lbrakk>inv s; apply_event K e s = Some (st, s')\<rbrakk> \<Longrightarrow> durable s' = durable s \<and> milestone s' = milestone s"
    and restart_law: "inv s \<Longrightarrow> inv (restart s) \<and> view (restart s) = durable s \<and> durable (restart s) = durable s \<and>
      milestone (restart s) = milestone s \<and> kv_isClearState K (restart s) = Some True"

context kv_durable
begin

lemma apply_events_durable:
  assumes "inv s" and "\<forall>e \<in> set es. event_storable storable e"
  shows "\<exists>s'. apply_events K es s = Some (Status_ok, s') \<and> inv s' \<and> view s' = events_view es (view s) \<and>
           durable s' = durable s \<and> milestone s' = milestone s"
  using assms
proof (induction es arbitrary: s)
  case (Cons e es)
  have "delete_resident (\<lambda>_. True) e"
    by (cases e) auto
  with apply_event_law [of s e] Cons.prems obtain s1 where
    s1: "apply_event K e s = Some (Status_ok, s1)" "inv s1" "view s1 = event_view e (view s)"
    by auto
  with apply_durable [OF Cons.prems(1) s1(1)] Cons.IH [of s1] Cons.prems show ?case
    by simp
qed simp

text \<open>The inner loop ends after one attempt.\<close>

lemma applyBundle_law:
  assumes "inv s" and "\<forall>e \<in> set es. event_storable storable e"
  shows "\<exists>s'. applyBundle K es s = Some s' \<and> inv s' \<and> view s' = events_view es (view s) \<and>
           durable s' = durable s \<and> milestone s' = milestone s"
  using apply_events_durable [OF assms] by (subst applyBundle.simps) (auto simp: isOK_def Status_ok_def)

end

section \<open>RocksDB as a store with milestones\<close>

definition Rocks_milestone :: "'db Lib \<Rightarrow> 'db RocksDBKVStore \<Rightarrow> MilestoneType option" where
  "Rocks_milestone L r = (case lib_Get L (mRocksDB r) 0 kPersistedMilestone of GetOk raw \<Rightarrow> stoull raw | _ \<Rightarrow> None)"

text \<open>Besides the invariant of the store: the milestone it holds can be read.\<close>

definition Rocks_dinv :: "'db Lib \<Rightarrow> 'db RocksDBKVStore \<Rightarrow> bool" where
  "Rocks_dinv L r = (Rocks_inv L r \<and>
     (case lib_Get L (mRocksDB r) 0 kPersistedMilestone of GetOk raw \<Rightarrow> stoull raw \<noteq> None | _ \<Rightarrow> True))"

text \<open>A crash loses what is in memory: the write batch.\<close>

definition Rocks_restart :: "'db RocksDBKVStore \<Rightarrow> 'db RocksDBKVStore" where
  "Rocks_restart r = r\<lparr>mWriteBatch := [], mRObserved := []\<rparr>"

definition sameDB :: "'db RocksDBKVStore \<Rightarrow> 'db RocksDBKVStore \<Rightarrow> bool" where
  "sameDB r r' = (mRocksDB r' = mRocksDB r \<and> mColumnFamilyNames r' = mColumnFamilyNames r \<and>
     mDefaultWSLookupFunc r' = mDefaultWSLookupFunc r)"

lemma sameDB_refl: "sameDB r r"
  by (simp add: sameDB_def)

lemma Rocks_ops_sameDB:
  "Rocks_writeKV L w k v ver ut um r = Some (st, r') \<Longrightarrow> sameDB r r'"
  "Rocks_writeTTLKV L w k v ver t dl ut um r = Some (st, r') \<Longrightarrow> sameDB r r'"
  "Rocks_deleteKV L w k rv dv r = Some (st, r') \<Longrightarrow> sameDB r r'"
  by (auto simp: Rocks_writeKV_def Rocks_writeTTLKV_def Rocks_deleteKV_def batchAdd_def sameDB_def Rocks_observe_def bind_eq_Some_conv)

lemma sameDB_findCFHandle: "sameDB r r' \<Longrightarrow> findCFHandle k None r' = findCFHandle k None r"
  by (simp add: sameDB_def findCFHandle_def)

lemma sameDB_durable:
  assumes "sameDB r r'"
  shows "Rocks_committed L r' = Rocks_committed L r" and "Rocks_milestone L r' = Rocks_milestone L r"
    and "Rocks_inv L r' \<Longrightarrow> Rocks_dinv L r \<Longrightarrow> Rocks_dinv L r'"
  using sameDB_findCFHandle [OF assms] assms
  by (simp_all add: Rocks_committed_def viewOf_def Rocks_milestone_def Rocks_dinv_def sameDB_def)

lemma Rocks_ops_dinv:
  "\<lbrakk>Rocks_writeKV L w k v ver ut um r = Some (st, r'); Rocks_inv L r'; Rocks_dinv L r\<rbrakk> \<Longrightarrow> Rocks_dinv L r'"
  "\<lbrakk>Rocks_writeTTLKV L w k v ver t dl ut um r = Some (st, r'); Rocks_inv L r'; Rocks_dinv L r\<rbrakk> \<Longrightarrow> Rocks_dinv L r'"
  "\<lbrakk>Rocks_deleteKV L w k rv dv r = Some (st, r'); Rocks_inv L r'; Rocks_dinv L r\<rbrakk> \<Longrightarrow> Rocks_dinv L r'"
  by (auto dest!: Rocks_ops_sameDB intro: sameDB_durable(3))

lemma Rocks_apply_sameDB: "apply_event (RocksDB_ops L) e r = Some (st, r') \<Longrightarrow> sameDB r r'"
  by (cases e) (auto dest: Rocks_ops_sameDB simp: WriteEvent_apply_def sameDB_refl bind_eq_Some_conv split: if_splits option.splits)

lemma Rocks_loadMilestone_eq:
  assumes "Rocks_dinv L r"
  shows "Rocks_milestone L r = Some ms \<Longrightarrow> Rocks_loadMilestone L m0 r = Some (Status_ok, ms, r)"
    and "Rocks_milestone L r = None \<Longrightarrow> \<exists>st. Rocks_loadMilestone L m0 r = Some (st, m0, r) \<and> isNotFound st"
  using assms
  by (auto simp: Rocks_loadMilestone_def Rocks_milestone_def Rocks_dinv_def Rocks_inv_def rocksdb_spec_def findCFHandle_def
      Status_notFound_def isNotFound_def split: GetResult.splits)

lemma Rocks_milestone_read:
  assumes "Rocks_inv L r" and "Rocks_loadMilestone L 0 r = Some (Status_ok, ms, r)"
  shows "Rocks_dinv L r" and "Rocks_milestone L r = Some ms"
  using assms
  by (auto simp: Rocks_loadMilestone_def Rocks_milestone_def Rocks_dinv_def findCFHandle_def bind_eq_Some_conv
      Status_notFound_def Status_error_def Status_ok_def split: GetResult.splits)

lemma Rocks_restart_law:
  assumes "Rocks_dinv L r"
  shows "Rocks_dinv L (Rocks_restart r)" and "Rocks_pending L (Rocks_restart r) = Rocks_committed L r"
proof -
  have p: "pendingMap L (Rocks_restart r) = dbMap L (mRocksDB r)"
    by (simp add: pendingMap_def Rocks_restart_def)
  have same: "sameDB r (Rocks_restart r)"
    by (simp add: sameDB_def Rocks_restart_def)
  then have db: "mRocksDB (Rocks_restart r) = mRocksDB r"
    by (simp add: sameDB_def)
  have "Rocks_inv L (Rocks_restart r)"
    using assms by (simp add: Rocks_dinv_def Rocks_inv_def decodable_def p db sameDB_findCFHandle [OF same])
  with assms same show "Rocks_dinv L (Rocks_restart r)"
    by (blast intro: sameDB_durable(3))
  show "Rocks_pending L (Rocks_restart r) = Rocks_committed L r"
    by (simp add: Rocks_pending_def Rocks_committed_def viewOf_def p sameDB_findCFHandle [OF same])
qed

lemma Rocks_durable_sink: "kv_sink (RocksDB_ops L) (Rocks_dinv L) (Rocks_pending L) (Rocks_storable L) (\<lambda>_ _. True)"
proof (unfold_locales, goal_cases)
  case (1 s k ver ut um v)
  then have "Rocks_inv L s"
    by (simp add: Rocks_dinv_def)
  with 1 Rocks_writeKV_effect [of L s k ver ut um v] show ?case
    by (auto simp: fun_eq_iff dest: Rocks_ops_dinv)
next
  case (2 s k ver t dl ut um v)
  then have "Rocks_inv L s"
    by (simp add: Rocks_dinv_def)
  with 2 Rocks_writeTTLKV_effect [of L s k ver t dl ut um v] show ?case
    by (auto simp: fun_eq_iff dest: Rocks_ops_dinv)
next
  case (3 s k recVer ver)
  then have "Rocks_inv L s"
    by (simp add: Rocks_dinv_def)
  with 3 Rocks_deleteKV_effect [of L s k recVer ver] show ?case
    by (auto dest: Rocks_ops_dinv)
qed

interpretation rocks_durable: kv_durable "RocksDB_ops L" "Rocks_dinv L" "Rocks_pending L" "Rocks_storable L"
  "Rocks_committed L" "Rocks_milestone L" Rocks_restart
  for L
proof (intro kv_durable.intro Rocks_durable_sink, unfold_locales, goal_cases)
  case (1 s ms)
  then have "Rocks_inv L s"
    by (simp add: Rocks_dinv_def)
  from Rocks_commit_effect [OF this, of ms 0] show ?case
    by (auto dest: Rocks_milestone_read)
next
  case (2 s ms m0)
  then show ?case
    by (simp add: Rocks_loadMilestone_eq)
next
  case (3 s m0)
  then show ?case
    by (simp add: Rocks_loadMilestone_eq)
next
  case (4 s e st s')
  then show ?case
    by (blast dest: Rocks_apply_sameDB sameDB_durable)
next
  case (5 s)
  have "sameDB s (Rocks_restart s)" "mWriteBatch (Rocks_restart s) = []"
    by (simp_all add: sameDB_def Rocks_restart_def)
  with 5 show ?case
    by (simp add: Rocks_restart_law sameDB_durable)
qed

end
