(* ===== verification/Crash_Recovery.thy ===== *)
theory Crash_Recovery
  imports Event_Apply_Loop
begin

text \<open>
  The state of a replica is a function of the log: whatever the interleaving of turns of the apply
  loop and of crashes of the process, what the store shows is the effect of a prefix of the committed
  log, and what survives a crash is the effect of the prefix up to the milestone that survives with
  it.
\<close>

section \<open>The effect of a log\<close>

definition bundleEvents :: "ProtoEvent list \<Rightarrow> Event list" where
  "bundleEvents b = (case fromBundle b of None \<Rightarrow> [] | Some es \<Rightarrow> es)"

definition logEvents :: "Codec \<Rightarrow> LogEntry list \<Rightarrow> nat \<Rightarrow> Event list" where
  "logEvents cd log n = (case decryptEntries cd (take n log) of
      None \<Rightarrow> []
    | Some bs \<Rightarrow> concat (map (bundleEvents \<circ> fst) bs))"

definition logView :: "Codec \<Rightarrow> LogEntry list \<Rightarrow> nat \<Rightarrow> View" where
  "logView cd log n = events_view (logEvents cd log n) Map.empty"

definition bundle_ok ::
  "(KeyType \<Rightarrow> VersionType \<Rightarrow> TTLType \<Rightarrow> TimeType \<Rightarrow> TimeType \<Rightarrow> UserDefinedMeta \<Rightarrow> bool) \<Rightarrow> ProtoEvent list \<Rightarrow> bool" where
  "bundle_ok storable b = (\<exists>es. fromBundle b = Some es \<and> (\<forall>e \<in> set es. event_storable storable e) \<and> getVersionFromBundle b \<noteq> None)"

text \<open>A log whose payloads can be read, as the event store writes them.\<close>

definition log_ok ::
  "(KeyType \<Rightarrow> VersionType \<Rightarrow> TTLType \<Rightarrow> TimeType \<Rightarrow> TimeType \<Rightarrow> UserDefinedMeta \<Rightarrow> bool) \<Rightarrow> Codec \<Rightarrow> LogEntry list \<Rightarrow> bool" where
  "log_ok storable cd log =
     ((\<exists>bs. decryptEntries cd log = Some bs \<and> (\<forall>b \<in> set bs. bundle_ok storable (fst b))) \<and>
      (\<forall>i < length log. le_index (log ! i) = Suc i) \<and> length log < 2 ^ 64)"

lemma logView_0 [simp]: "logView cd log 0 = Map.empty"
  by (simp add: logView_def logEvents_def)

lemma logView_step:
  assumes "decryptEntries cd log \<noteq> None" and "a \<le> idx"
    and "decryptEntries cd (take (idx - a) (drop a log)) = Some bs"
  shows "logView cd log idx = events_view (concat (map (bundleEvents \<circ> fst) bs)) (logView cd log a)"
proof -
  have "log = take a log @ drop a log"
    by simp
  with assms(1) obtain as where as: "decryptEntries cd (take a log) = Some as"
    using decryptEntries_split by (metis option.exhaust)
  have "take idx log = take a log @ take (idx - a) (drop a log)"
    using assms(2) by (metis le_add_diff_inverse take_add)
  then have "decryptEntries cd (take idx log) = Some (as @ bs)"
    using as assms(3) by (simp add: decryptEntries_append)
  with as show ?thesis
    by (simp add: logView_def logEvents_def events_view_append)
qed

text \<open>The first bundle of a part of the log belongs to the first entry that is not a no-op.\<close>

lemma decryptEntries_head:
  assumes "\<forall>i < length log. le_index (log ! i) = Suc i" and "a + n \<le> length log"
    and "decryptEntries cd (take n (drop a log)) = Some ((b, idx) # rest)"
  shows "a < idx \<and> idx \<le> a + n \<and> decryptEntries cd (take (idx - a) (drop a log)) = Some [(b, idx)] \<and>
         decryptEntries cd (take (a + n - idx) (drop idx log)) = Some rest"
  using assms(2,3)
proof (induction n arbitrary: a)
  case (Suc n)
  then have a: "a < length log" "Suc a + n \<le> length log"
    by simp_all
  have split: "take (Suc j) (drop a log) = log ! a # take j (drop (Suc a) log)" for j
    using a(1) by (simp add: Cons_nth_drop_Suc [symmetric])
  show ?case
  proof (cases "le_noop (log ! a)")
    case True
    then have "decryptEntries cd (take n (drop (Suc a) log)) = Some ((b, idx) # rest)"
      using Suc.prems(2) by (simp only: split decryptEntries.simps if_True)
    from Suc.IH [OF a(2) this] have ih: "Suc a < idx" "idx \<le> Suc a + n"
        "decryptEntries cd (take (idx - Suc a) (drop (Suc a) log)) = Some [(b, idx)]"
        "decryptEntries cd (take (Suc a + n - idx) (drop idx log)) = Some rest"
      by auto
    have "idx - a = Suc (idx - Suc a)"
      using ih(1) by simp
    then have "decryptEntries cd (take (idx - a) (drop a log)) = Some [(b, idx)]"
      using ih(3) True by (simp only: split decryptEntries.simps if_True)
    with ih show ?thesis
      by simp
  next
    case False
    then have "idx = Suc a \<and> decryptEntries cd (take n (drop (Suc a) log)) = Some rest \<and>
        (\<exists>p. decryptPayload cd (log ! a) = Some p \<and> cd_ParseBundle cd p = Some b)"
      using Suc.prems(2) a(1) assms(1) unfolding split by (auto simp: bind_eq_Some_conv)
    with False a(1) assms(1) show ?thesis
      using split [of 0] by auto
  qed
qed simp

lemma decryptEntries_part:
  assumes "decryptEntries cd log = Some bs" and "decryptEntries cd (take n (drop a log)) = Some cs"
  shows "set cs \<subseteq> set bs"
proof -
  have "decryptEntries cd (take a log @ take n (drop a log) @ drop n (drop a log)) = Some bs"
    using assms(1) by (simp only: append_take_drop_id)
  then show ?thesis
    using assms(2) by (auto dest!: decryptEntries_split)
qed

section \<open>The invariant of the loop\<close>

definition savedIndex :: "('s \<Rightarrow> MilestoneType option) \<Rightarrow> 's \<Rightarrow> nat" where
  "savedIndex milestone s = (case milestone s of None \<Rightarrow> 0 | Some ms \<Rightarrow> unat ms)"

definition applyInv ::
  "'s KVStore \<Rightarrow> ('s \<Rightarrow> bool) \<Rightarrow> ('s \<Rightarrow> View) \<Rightarrow> ('s \<Rightarrow> View) \<Rightarrow> ('s \<Rightarrow> MilestoneType option) \<Rightarrow> Codec \<Rightarrow> LogEntry list \<Rightarrow>
   ('c, 's) EventApplyLoop \<Rightarrow> bool" where
  "applyInv K sinv view durable milestone cd log a =
     (let s = mKVStore_al a; m = savedIndex milestone s
      in sinv s \<and> m \<le> length log \<and> durable s = logView cd log m \<and>
         (if mShouldRecover a then
            kv_isClearState K s = Some True \<and> view s = durable s \<and> mRaftEventStore a = newRaftEventStore \<and> mLastMilestone a = 0
          else
            mLastMilestone a = m \<and> m \<le> appliedIndex a \<and> view s = logView cd log (appliedIndex a) \<and>
            loaderOK cd log (appliedIndex a) [] (mRaftEventStore a) \<and>
            (m < appliedIndex a \<longrightarrow> (\<exists>b. appliedBundle a = Some b \<and> getVersionFromBundle b \<noteq> None))))"

lemma loaderOK_reset:
  assumes "m \<le> length log"
  shows "\<exists>r :: 'c RaftEventStore. resetLoadedLogIndex m newRaftEventStore = Some r \<and> loaderOK cd log m [] r"
  using assms by (simp add: resetLoadedLogIndex_def newRaftEventStore_def loaderOK_def)

context kv_durable
begin

lemma recoverSelf_law:
  assumes "applyInv K inv view durable milestone cd log a" and "mShouldRecover a"
  shows "\<exists>a'. recoverSelf K a = Some a' \<and>
    applyInv K inv view durable milestone cd log (a'\<lparr>appliedIndex := mLastMilestone a'\<rparr>) \<and> \<not> mShouldRecover a' \<and>
    mKVStore_al a' = mKVStore_al a"
proof -
  let ?s = "mKVStore_al a" and ?m = "savedIndex milestone (mKVStore_al a)"
  have i: "inv ?s" "?m \<le> length log" "durable ?s = logView cd log ?m" "kv_isClearState K ?s = Some True"
      "view ?s = durable ?s" "mRaftEventStore a = newRaftEventStore" "mLastMilestone a = 0"
    using assms by (simp_all add: applyInv_def Let_def)
  have "\<exists>r. resetLoadedLogIndex ?m (mRaftEventStore a) = Some r \<and> loaderOK cd log ?m [] r"
    unfolding i(6) by (rule loaderOK_reset [OF i(2)])
  then obtain r where r: "resetLoadedLogIndex ?m (mRaftEventStore a) = Some r" "loaderOK cd log ?m [] r"
    by blast
  show ?thesis
  proof (cases "milestone ?s")
    case None
    from loadMilestone_none [OF i(1) None, of 0] obtain st where "kv_loadMilestone K 0 ?s = Some (st, 0, ?s)" "isNotFound st"
      by blast
    with i r None show ?thesis
      by (auto simp: recoverSelf_def applyInv_def savedIndex_def isOK_def isNotFound_def Let_def)
  next
    case (Some ms)
    with i r loadMilestone_some [OF i(1) Some, of 0] show ?thesis
      by (auto simp: recoverSelf_def applyInv_def savedIndex_def isOK_def Status_ok_def Let_def)
  qed
qed

lemma saveMilestone_law:
  assumes inv: "applyInv K inv view durable milestone cd log a" and "\<not> mShouldRecover a" and len: "length log < 2 ^ 64"
  shows "\<exists>a'. saveMilestone K ts a = Some (True, a') \<and> applyInv K inv view durable milestone cd log a' \<and> \<not> mShouldRecover a' \<and>
    appliedIndex a' = appliedIndex a \<and> mRaftEventStore a' = mRaftEventStore a \<and> view (mKVStore_al a') = view (mKVStore_al a)"
proof (cases "mLastMilestone a < appliedIndex a \<and> (kApplyBatchSize \<le> appliedIndex a - mLastMilestone a \<or>
    kSaveMilestoneTimeoutInNano < unat (ts - mLastSaveMilestoneTimeInNano a))")
  case True
  let ?s = "mKVStore_al a"
  have i: "inv ?s" "mLastMilestone a = savedIndex milestone ?s" "view ?s = logView cd log (appliedIndex a)"
      "loaderOK cd log (appliedIndex a) [] (mRaftEventStore a)"
    using inv assms(2) by (simp_all add: applyInv_def Let_def)
  obtain b ver where b: "appliedBundle a = Some b" "getVersionFromBundle b = Some ver"
    using inv assms(2) True by (auto simp: applyInv_def Let_def)
  have n: "appliedIndex a \<le> length log"
    using i(4) by (simp add: loaderOK_def)
  then have u: "unat (of_nat (appliedIndex a) :: 64 word) = appliedIndex a"
    using len by (simp add: unat_of_nat take_bit_eq_mod)
  from commit_law [OF i(1), of "of_nat (appliedIndex a)"] obtain s' where
    s': "kv_commit K (of_nat (appliedIndex a)) ?s = Some (Status_ok, s')" "inv s'" "durable s' = view ?s" "view s' = view ?s"
      "milestone s' = Some (of_nat (appliedIndex a))"
    by blast
  with True b i n u assms(2) show ?thesis
    by (auto simp: saveMilestone_def applyInv_def savedIndex_def isOK_def Status_ok_def Let_def)
next
  case False
  with assms show ?thesis
    by (auto simp: saveMilestone_def)
qed

text \<open>Handing out the next bundle and applying it.\<close>

lemma run_load_law:
  assumes inv: "applyInv K inv view durable milestone cd log a" and "\<not> mShouldRecover a"
    and log: "log_ok storable cd log" and rf: "raft_log_spec log rf"
  shows "\<exists>r rs. loadNextBundle cd rf (mRaftEventStore a) = Some (r, rs) \<and>
    (case r of None \<Rightarrow> applyInv K inv view durable milestone cd log (a\<lparr>mRaftEventStore := rs\<rparr>)
     | Some (bundle, index) \<Rightarrow> \<exists>events s. fromBundle bundle = Some events \<and> applyBundle K events (mKVStore_al a) = Some s \<and>
         appliedIndex a < index \<and> decryptEntries cd (take (index - appliedIndex a) (drop (appliedIndex a) log)) = Some [(bundle, index)] \<and>
         applyInv K inv view durable milestone cd log
           (a\<lparr>mRaftEventStore := rs, mKVStore_al := s, appliedIndex := index, appliedBundle := Some bundle\<rparr>))"
proof -
  let ?s = "mKVStore_al a" and ?n = "appliedIndex a"
  have i: "inv ?s" "mLastMilestone a = savedIndex milestone ?s" "savedIndex milestone ?s \<le> ?n"
      "savedIndex milestone ?s \<le> length log" "durable ?s = logView cd log (savedIndex milestone ?s)"
      "view ?s = logView cd log ?n" "loaderOK cd log ?n [] (mRaftEventStore a)"
    using inv assms(2) by (simp_all add: applyInv_def Let_def)
  from log obtain bs where bs: "decryptEntries cd log = Some bs" "\<forall>b \<in> set bs. bundle_ok storable (fst b)"
      "\<forall>i < length log. le_index (log ! i) = Suc i"
    by (auto simp: log_ok_def)
  from loadNextBundle_step [OF i(7) rf] bs(1) obtain r rs where
    r: "loadNextBundle cd rf (mRaftEventStore a) = Some (r, rs)" "loaderOK cd log ?n (handedOut r) rs"
    by auto
  show ?thesis
  proof (cases r)
    case None
    then show ?thesis
      using r inv assms(2) by (simp add: applyInv_def handedOut_def Let_def)
  next
    case (Some p)
    obtain b idx where p: "p = (b, idx)"
      by (cases p)
    have ld: "?n \<le> mLoadedIndex rs" "mLoadedIndex rs \<le> length log"
        "decryptEntries cd (take (mLoadedIndex rs - ?n) (drop ?n log)) = Some ((b, idx) # mCachedBundles rs)"
      using r(2) by (simp_all add: loaderOK_def handedOut_def Some p)
    have "?n + (mLoadedIndex rs - ?n) \<le> length log"
      using ld by simp
    from decryptEntries_head [OF bs(3) this ld(3)] ld(1)
    have h: "?n < idx" "idx \<le> mLoadedIndex rs" "decryptEntries cd (take (idx - ?n) (drop ?n log)) = Some [(b, idx)]"
        "decryptEntries cd (take (mLoadedIndex rs - idx) (drop idx log)) = Some (mCachedBundles rs)"
      by simp_all
    have "(b, idx) \<in> set bs"
      using decryptEntries_part [OF bs(1) h(3)] by simp
    then obtain es where es: "fromBundle b = Some es" "\<forall>e \<in> set es. event_storable storable e" "getVersionFromBundle b \<noteq> None"
      using bs(2) by (auto simp: bundle_ok_def)
    from applyBundle_law [OF i(1) es(2)] obtain s' where
      s': "applyBundle K es ?s = Some s'" "inv s'" "view s' = events_view es (view ?s)" "durable s' = durable ?s" "milestone s' = milestone ?s"
      by blast
    have "logView cd log idx = events_view es (logView cd log ?n)"
      using logView_step [OF _ _ h(3)] bs(1) h(1) es(1) by (simp add: bundleEvents_def)
    moreover have "loaderOK cd log idx [] rs"
      using h ld(2) by (simp add: loaderOK_def)
    ultimately have "applyInv K inv view durable milestone cd log
        (a\<lparr>mRaftEventStore := rs, mKVStore_al := s', appliedIndex := idx, appliedBundle := Some b\<rparr>)"
      using i s' es(3) h(1) assms(2) by (simp add: applyInv_def savedIndex_def Let_def)
    with r(1) es(1) s'(1) h(1,3) show ?thesis
      by (simp add: Some p)
  qed
qed

end

definition startIndex :: "('s \<Rightarrow> MilestoneType option) \<Rightarrow> ('c, 's) EventApplyLoop \<Rightarrow> nat" where
  "startIndex milestone a = (if mShouldRecover a then savedIndex milestone (mKVStore_al a) else appliedIndex a)"

text \<open>What a turn did: nothing was there to be handed out, or one bundle was applied.\<close>

definition advanced :: "Codec \<Rightarrow> 'm Raft \<Rightarrow> LogEntry list \<Rightarrow> nat \<Rightarrow> ('c, 's) EventApplyLoop \<Rightarrow> bool" where
  "advanced cd rf log n a =
     (n = appliedIndex a \<and> (\<exists>r :: 'c RaftEventStore. loadNextBundle cd rf r = Some (None, mRaftEventStore a)) \<or>
      n < appliedIndex a \<and> (\<exists>b. decryptEntries cd (take (appliedIndex a - n) (drop n log)) = Some [b]))"

context kv_durable
begin

lemma run_start_law:
  assumes "applyInv K inv view durable milestone cd log a"
  shows "\<exists>a1. (if mShouldRecover a then do { a' \<leftarrow> recoverSelf K a; Some (a'\<lparr>appliedIndex := mLastMilestone a'\<rparr>) } else Some a) = Some a1 \<and>
      applyInv K inv view durable milestone cd log a1 \<and> \<not> mShouldRecover a1 \<and> appliedIndex a1 = startIndex milestone a"
proof (cases "mShouldRecover a")
  case True
  from recoverSelf_law [OF assms True] obtain a' where
    a': "recoverSelf K a = Some a'" "applyInv K inv view durable milestone cd log (a'\<lparr>appliedIndex := mLastMilestone a'\<rparr>)"
      "\<not> mShouldRecover a'" "mKVStore_al a' = mKVStore_al a"
    by blast
  then have "mLastMilestone a' = savedIndex milestone (mKVStore_al a)"
    by (simp add: applyInv_def Let_def)
  with a' True show ?thesis
    by (simp add: startIndex_def)
qed (use assms in \<open>simp add: startIndex_def\<close>)

lemma run_pass_law:
  assumes inv: "applyInv K inv view durable milestone cd log a"
    and log: "log_ok storable cd log" and rf: "raft_log_spec log rf"
  shows "\<exists>a'. run_pass K cd rf ts a = Some a' \<and> applyInv K inv view durable milestone cd log a' \<and> \<not> mShouldRecover a' \<and>
           advanced cd rf log (startIndex milestone a) a'"
proof -
  from run_start_law [OF inv] obtain a1 where
    a1: "(if mShouldRecover a then do { a' \<leftarrow> recoverSelf K a; Some (a'\<lparr>appliedIndex := mLastMilestone a'\<rparr>) } else Some a) = Some a1"
      "applyInv K inv view durable milestone cd log a1" "\<not> mShouldRecover a1" "appliedIndex a1 = startIndex milestone a"
    by blast
  have "length log < 2 ^ 64"
    using log by (simp add: log_ok_def)
  from saveMilestone_law [OF a1(2,3) this, of ts] obtain a2 where
    a2: "saveMilestone K ts a1 = Some (True, a2)" "applyInv K inv view durable milestone cd log a2" "\<not> mShouldRecover a2"
      "appliedIndex a2 = startIndex milestone a"
    using a1(4) by auto
  from run_load_law [OF a2(2,3) log rf] obtain r rs where
    r: "loadNextBundle cd rf (mRaftEventStore a2) = Some (r, rs)"
      "case r of None \<Rightarrow> applyInv K inv view durable milestone cd log (a2\<lparr>mRaftEventStore := rs\<rparr>)
       | Some (bundle, index) \<Rightarrow> \<exists>events s. fromBundle bundle = Some events \<and> applyBundle K events (mKVStore_al a2) = Some s \<and>
           appliedIndex a2 < index \<and> decryptEntries cd (take (index - appliedIndex a2) (drop (appliedIndex a2) log)) = Some [(bundle, index)] \<and>
           applyInv K inv view durable milestone cd log
             (a2\<lparr>mRaftEventStore := rs, mKVStore_al := s, appliedIndex := index, appliedBundle := Some bundle\<rparr>)"
    by blast
  show ?thesis
  proof (cases r)
    case None
    then have "advanced cd rf log (startIndex milestone a) (a2\<lparr>mRaftEventStore := rs\<rparr>)"
      using r(1) a2(4) by (auto simp: advanced_def)
    with None show ?thesis
      using a1(1) a2 r by (simp add: run_pass_def)
  next
    case (Some p)
    obtain b idx where p: "p = (b, idx)"
      by (cases p)
    with Some r(2) obtain es s where "fromBundle b = Some es" "applyBundle K es (mKVStore_al a2) = Some s"
        "appliedIndex a2 < idx" "decryptEntries cd (take (idx - appliedIndex a2) (drop (appliedIndex a2) log)) = Some [(b, idx)]"
        "applyInv K inv view durable milestone cd log
           (a2\<lparr>mRaftEventStore := rs, mKVStore_al := s, appliedIndex := idx, appliedBundle := Some b\<rparr>)"
      by auto
    then show ?thesis
      using a1(1) a2 r(1) by (simp add: run_pass_def Some p advanced_def)
  qed
qed

lemma crash_law:
  assumes "applyInv K inv view durable milestone cd log a"
  shows "applyInv K inv view durable milestone cd log (newEventApplyLoop (restart (mKVStore_al a)))"
  using assms restart_law [of "mKVStore_al a"] by (auto simp: applyInv_def newEventApplyLoop_def savedIndex_def Let_def)

end

end
