(* ===== verification/Replica_Steps.thy ===== *)
theory Replica_Steps
  imports Crash_Recovery
begin

text \<open>
  A replica as a transition system: its RocksDB store, its apply loop and the raft log, under crashes
  at any point; and how many turns it needs to catch up.
\<close>

section \<open>Replicas with crashes\<close>

text \<open>A step of a replica: a turn of the apply loop with some commit index, or a crash and a new start
  of the process on what the database holds.\<close>

inductive replica_step ::
  "'db Lib \<Rightarrow> Codec \<Rightarrow> LogEntry list \<Rightarrow> ('c, 'db RocksDBKVStore) EventApplyLoop \<Rightarrow> ('c, 'db RocksDBKVStore) EventApplyLoop \<Rightarrow> bool"
  for L cd log where
  turn: "raft_log_spec log (rf :: unit Raft) \<Longrightarrow> run_pass (RocksDB_ops L) cd rf ts a = Some a' \<Longrightarrow> replica_step L cd log a a'"
| crash: "replica_step L cd log a (newEventApplyLoop (Rocks_restart (mKVStore_al a)))"

abbreviation replica_steps where
  "replica_steps L cd log \<equiv> (replica_step L cd log)\<^sup>*\<^sup>*"

abbreviation replicaInv where
  "replicaInv L \<equiv> applyInv (RocksDB_ops L) (Rocks_dinv L) (Rocks_pending L) (Rocks_committed L) (Rocks_milestone L)"

text \<open>A replica that has never applied anything.\<close>

definition freshReplica :: "'db Lib \<Rightarrow> 'db RocksDBKVStore \<Rightarrow> bool" where
  "freshReplica L r = (Rocks_dinv L r \<and> Rocks_committed L r = Map.empty \<and> Rocks_milestone L r = None \<and> mWriteBatch r = [])"

lemma freshReplica_inv: "freshReplica L r \<Longrightarrow> replicaInv L cd log (newEventApplyLoop r)"
  by (simp add: freshReplica_def applyInv_def newEventApplyLoop_def savedIndex_def Rocks_pending_def Rocks_committed_def pendingMap_def)

lemma replica_step_inv:
  assumes "replica_step L cd log a a'" and "replicaInv L cd log a" and "log_ok (Rocks_storable L) cd log"
  shows "replicaInv L cd log a'"
  using assms
proof (cases rule: replica_step.cases)
  case (turn rf ts)
  then show ?thesis
    using rocks_durable.run_pass_law [OF assms(2,3) turn(1), of ts] by auto
next
  case crash
  then show ?thesis
    using rocks_durable.crash_law [OF assms(2)] by simp
qed

lemma replica_steps_inv:
  assumes "replica_steps L cd log a a'" and "replicaInv L cd log a" and "log_ok (Rocks_storable L) cd log"
  shows "replicaInv L cd log a'"
  using assms by (induction rule: rtranclp_induct) (auto intro: replica_step_inv)

lemma loaderOK_bound: "loaderOK cd log n d s \<Longrightarrow> n \<le> length log"
  by (simp add: loaderOK_def)

section \<open>Catching up\<close>

text \<open>A raft library that has the whole log committed and hands out entries when it is asked.\<close>

definition allCommitted :: "LogEntry list \<Rightarrow> 'm Raft \<Rightarrow> bool" where
  "allCommitted log rf = (raft_log_spec log rf \<and> rf_commitIndex rf = length log \<and>
     (\<forall>start sz. 0 < sz \<longrightarrow> 0 < fst (rf_getEntries rf start sz)))"

lemma loadNextBundle_None:
  assumes "loadNextBundle cd rf s = Some (None, s')" and "\<forall>start sz. 0 < sz \<longrightarrow> 0 < fst (rf_getEntries rf start sz)"
  shows "rf_commitIndex rf \<le> mLoadedIndex s' \<and> mCachedBundles s' = []"
  using assms
proof (induction cd rf s rule: loadNextBundle.induct)
  case (1 cd rf s)
  show ?case
  proof (cases "mCachedBundles s")
    case Nil
    show ?thesis
    proof (cases "rf_commitIndex rf \<le> mLoadedIndex s")
      case True
      then show ?thesis
        using 1(2) Nil by (subst (asm) loadNextBundle.simps) (auto simp: Let_def)
    next
      case False
      then have "0 < fst (rf_getEntries rf (mLoadedIndex s + 1) (rf_commitIndex rf - mLoadedIndex s))"
        using 1(3) by simp
      with 1(2) Nil False obtain sz bundles where
        l: "loadBundles cd rf (mLoadedIndex s + 1) (rf_commitIndex rf - mLoadedIndex s) = Some (sz, bundles)" "sz \<noteq> 0"
          "loadNextBundle cd rf (s\<lparr>mSpinTimes := mSpinTimes s + 1, mSpinTimes := 0, mLoadedIndex := mLoadedIndex s + sz,
             mCachedBundles := bundles\<rparr>) = Some (None, s')"
        by (subst (asm) loadNextBundle.simps)
          (auto simp: Let_def loadBundles_def bind_eq_Some_conv split: option.splits prod.splits if_splits)
      show ?thesis
        by (rule "1.IH" [OF Nil refl False l(1) refl l(2,3) 1(3)])
    qed
  next
    case (Cons b bs)
    then show ?thesis
      using 1(2) by (subst (asm) loadNextBundle.simps) simp
  qed
qed

text \<open>How many bundles of the log are after an index.\<close>

definition bundlesAfter :: "Codec \<Rightarrow> LogEntry list \<Rightarrow> nat \<Rightarrow> nat" where
  "bundlesAfter cd log n = (case decryptEntries cd (drop n log) of None \<Rightarrow> 0 | Some bs \<Rightarrow> length bs)"

lemma decryptEntries_parts:
  assumes "decryptEntries cd log \<noteq> None"
  shows "\<exists>bs. decryptEntries cd (drop n log) = Some bs"
proof -
  obtain all where "decryptEntries cd (take n log @ drop n log) = Some all"
    using assms by auto
  then show ?thesis
    using decryptEntries_split by blast
qed

lemma bundlesAfter_step:
  assumes "decryptEntries cd log \<noteq> None" and "n < m" and "decryptEntries cd (take (m - n) (drop n log)) = Some [b]"
  shows "bundlesAfter cd log n = Suc (bundlesAfter cd log m)"
proof -
  have "drop m log = drop (m - n) (drop n log)"
    using assms(2) by simp
  then have "drop n log = take (m - n) (drop n log) @ drop m log"
    by (simp only: append_take_drop_id)
  then have "decryptEntries cd (drop n log) = decryptEntries cd (take (m - n) (drop n log) @ drop m log)"
    by (rule arg_cong)
  also have "\<dots> = do { bs \<leftarrow> decryptEntries cd (drop m log); Some (b # bs) }"
    by (simp add: decryptEntries_append assms(3))
  finally have "decryptEntries cd (drop n log) = do { bs \<leftarrow> decryptEntries cd (drop m log); Some (b # bs) }" .
  with decryptEntries_parts [OF assms(1), of m] show ?thesis
    by (auto simp: bundlesAfter_def)
qed

lemma advanced_bundles:
  assumes "advanced cd rf log n a" and "loaderOK cd log (appliedIndex a) [] (mRaftEventStore a)"
    and "allCommitted log rf" and "decryptEntries cd log \<noteq> None"
  shows "bundlesAfter cd log (appliedIndex a) = bundlesAfter cd log n - 1"
proof (cases "n = appliedIndex a")
  case True
  then obtain r where "loadNextBundle cd rf r = Some (None, mRaftEventStore a)"
    using assms(1) by (auto simp: advanced_def)
  from loadNextBundle_None [OF this] assms(3) have
    "length log \<le> mLoadedIndex (mRaftEventStore a)" "mCachedBundles (mRaftEventStore a) = []"
    by (auto simp: allCommitted_def)
  with assms(2) have "decryptEntries cd (drop n log) = Some []"
    by (simp add: loaderOK_def True)
  then show ?thesis
    by (simp add: bundlesAfter_def True)
next
  case False
  then show ?thesis
    using assms(1) bundlesAfter_step [OF assms(4)] by (auto simp: advanced_def)
qed

primrec turns ::
  "'s KVStore \<Rightarrow> Codec \<Rightarrow> ('m Raft \<times> 64 word) list \<Rightarrow> ('c, 's) EventApplyLoop \<Rightarrow> ('c, 's) EventApplyLoop option" where
  "turns K cd [] a = Some a"
| "turns K cd (p # ps) a = do { a' \<leftarrow> run_pass K cd (fst p) (snd p) a; turns K cd ps a' }"

lemma logView_complete:
  assumes "decryptEntries cd log \<noteq> None" and "bundlesAfter cd log n = 0" and "n \<le> length log"
  shows "logView cd log (length log) = logView cd log n"
proof -
  obtain bs where bs: "decryptEntries cd (drop n log) = Some bs"
    using decryptEntries_parts [OF assms(1)] by blast
  then have "decryptEntries cd (take (length log - n) (drop n log)) = Some []"
    using assms(2) by (simp add: bundlesAfter_def)
  from logView_step [OF assms(1,3) this] show ?thesis
    by simp
qed

lemma turns_catch_up:
  assumes "replicaInv L cd log a" and "log_ok (Rocks_storable L) cd log" and "\<forall>p \<in> set ps. allCommitted log (fst p)"
    and "bundlesAfter cd log (startIndex (Rocks_milestone L) a) \<le> length ps" and "ps \<noteq> []"
  shows "\<exists>a'. turns (RocksDB_ops L) cd ps a = Some a' \<and> Rocks_pending L (mKVStore_al a') = logView cd log (length log)"
  using assms
proof (induction ps arbitrary: a)
  case (Cons p ps)
  have dec: "decryptEntries cd log \<noteq> None"
    using Cons.prems(2) by (auto simp: log_ok_def)
  have rf: "allCommitted log (fst p)" "raft_log_spec log (fst p)"
    using Cons.prems(3) by (auto simp: allCommitted_def)
  from rocks_durable.run_pass_law [OF Cons.prems(1,2) rf(2), of "snd p"] obtain a' where
    a': "run_pass (RocksDB_ops L) cd (fst p) (snd p) a = Some a'" "replicaInv L cd log a'" "\<not> mShouldRecover a'"
      "advanced cd (fst p) log (startIndex (Rocks_milestone L) a) a'"
    by blast
  have ld: "loaderOK cd log (appliedIndex a') [] (mRaftEventStore a')"
      "Rocks_pending L (mKVStore_al a') = logView cd log (appliedIndex a')"
    using a'(2,3) by (simp_all add: applyInv_def Let_def)
  have b: "bundlesAfter cd log (startIndex (Rocks_milestone L) a') \<le> length ps"
    using advanced_bundles [OF a'(4) ld(1) rf(1) dec] Cons.prems(4) a'(3) by (simp add: startIndex_def)
  show ?case
  proof (cases "ps = []")
    case True
    then have "bundlesAfter cd log (appliedIndex a') = 0"
      using b a'(3) by (simp add: startIndex_def)
    with logView_complete [OF dec _ loaderOK_bound [OF ld(1)]] ld(2) True a'(1) show ?thesis
      by simp
  next
    case False
    from Cons.IH [OF a'(2) Cons.prems(2) _ b False] Cons.prems(3) a'(1) show ?thesis
      by simp
  qed
qed simp

end
