(* ===== verification/Reference_Codec.thy ===== *)
theory Reference_Codec
  imports Reference_Lib Raft_Log
begin

text \<open>
  A concrete instance of the codec of \<^verbatim>\<open>Raft_Event_Store\<close> without encryption, and a raft
  library that has one log committed: what the development asks of them can be had, and the witnesses
  run on them.
\<close>

definition pack :: "string list \<Rightarrow> string" where
  "pack ss = enc_nats (concat (map str_nats ss))"

definition unpack :: "string \<Rightarrow> string list" where
  "unpack s = dec_strs (dec_nats s)"

lemma unpack_pack [simp]: "unpack (pack ss) = ss"
  by (simp add: unpack_def pack_def)

fun refSerEvent :: "ProtoEvent \<Rightarrow> string" where
  "refSerEvent (PWrite p) = pack (''W'' # pw_key p # pw_value p #
     enc_nats [unat (pw_version p), of_bool (pw_enableTTL p), unat (pw_ttl p), unat (pw_deadline p), unat (pw_updateTime p),
       of_bool (pw_isNoOp p)] #
     (case pw_udfMeta p of None \<Rightarrow> [] | Some u \<Rightarrow> enc_nats (map unat (uintfield u)) # strfield u))"
| "refSerEvent (PDelete p) = pack [''D'', pd_key p, pd_deletedValue p, enc_nats [unat (pd_deletedVersion p), unat (pd_version p)]]"
| "refSerEvent PAppend = pack [''A'']"
| "refSerEvent PUnset = pack []"

definition refParseWrite :: "KeyType \<Rightarrow> ValueType \<Rightarrow> nat list \<Rightarrow> string list \<Rightarrow> ProtoEvent" where
  "refParseWrite k v ns rest = (case ns of
      [a, b, c, d, e, f] \<Rightarrow> PWrite \<lparr>pw_key = k, pw_value = v, pw_version = of_nat a, pw_enableTTL = (b = 1), pw_ttl = of_nat c,
        pw_deadline = of_nat d, pw_updateTime = of_nat e, pw_isNoOp = (f = 1),
        pw_udfMeta = (case rest of [] \<Rightarrow> None
          | us # ss \<Rightarrow> Some \<lparr>uintfield = map of_nat (dec_nats us), strfield = ss\<rparr>)\<rparr>
    | _ \<Rightarrow> PUnset)"

definition refParseEvent :: "string \<Rightarrow> ProtoEvent" where
  "refParseEvent s = (case unpack s of
      [] \<Rightarrow> PUnset
    | t # rest \<Rightarrow>
        if t = ''A'' then PAppend
        else (case rest of
            k # v # ns # rest' \<Rightarrow>
              if t = ''W'' then refParseWrite k v (dec_nats ns) rest'
              else (case dec_nats ns of
                  [a, b] \<Rightarrow> PDelete \<lparr>pd_key = k, pd_deletedValue = v, pd_deletedVersion = of_nat a, pd_version = of_nat b\<rparr>
                | _ \<Rightarrow> PUnset)
          | _ \<Rightarrow> PUnset))"

lemma refParse_SerEvent [simp]: "refParseEvent (refSerEvent p) = p"
proof (cases p)
  case (PWrite w)
  then show ?thesis
    by (cases w; cases "pw_udfMeta w") (auto simp: refParseEvent_def refParseWrite_def comp_def of_bool_def)
qed (auto simp: refParseEvent_def)

definition refCodec :: Codec where
  "refCodec = \<lparr>cd_isEnabled = False, cd_latestSecKeyVersion = 0, cd_kInvalidSecKeyVersion = 0, cd_kOldestSecKeyVersion = 1,
     cd_encrypt = \<lambda>p _. p, cd_decrypt = \<lambda>p _. Some p,
     cd_SerBundle = \<lambda>b. pack (map refSerEvent b), cd_ParseBundle = \<lambda>s. Some (map refParseEvent (unpack s)),
     cd_ByteSize = \<lambda>_. 100\<rparr>"

lemma refCodec_spec: "codec_spec refCodec"
  by (simp add: codec_spec_def refCodec_def comp_def)

text \<open>A raft library with the whole log committed.\<close>

definition refRaft :: "nat \<Rightarrow> LogEntry list \<Rightarrow> unit Raft" where
  "refRaft term log = \<lparr>rf_currentTerm = term, rf_isLeader = True, rf_commitIndex = length log, rf_lastLogIndex = length log,
     rf_getEntry = \<lambda>i. (if 0 < i \<and> i \<le> length log then Some (log ! (i - 1)) else None),
     rf_getEntries = \<lambda>start sz. (sz, take sz (drop (start - 1) log)), rf_leaderHint = Some 0, rf_clusterMembers = ()\<rparr>"

lemma refRaft_spec: "\<forall>i < length log. le_index (log ! i) = Suc i \<Longrightarrow> raft_log_spec log (refRaft t log)"
  by (auto simp: raft_log_spec_def refRaft_def)

text \<open>A log of a no-op and one write after it.\<close>

definition refWrite :: WriteEvent where
  "refWrite = \<lparr>we_key = ''a'', we_value = ''1'', we_version = 5, we_enableTTL = False, we_ttl = 0, we_deadline = 0,
     we_updateTime = 100, we_udfMeta = DEFAULT_UDFMETA, we_isNoOp = False\<rparr>"

definition refPayload :: string where
  "refPayload = pack [refSerEvent (WriteEvent_toProto refWrite)]"

definition refLog :: "LogEntry list" where
  "refLog = [\<lparr>le_term = 1, le_index = 1, le_noop = True, le_secKeyVersion = 0, le_payload = []\<rparr>,
     \<lparr>le_term = 1, le_index = 2, le_noop = False, le_secKeyVersion = 0, le_payload = refPayload\<rparr>]"

lemma refLog_index: "\<forall>i < length refLog. le_index (refLog ! i) = Suc i"
  by (auto simp: refLog_def less_Suc_eq)

lemma refLog_decrypt: "decryptEntries refCodec refLog = Some [([WriteEvent_toProto refWrite], 2)]"
  by (simp add: refLog_def refPayload_def decryptPayload_def refCodec_def)

end
