(* ===== verification/Replica_Properties.thy ===== *)
theory Replica_Properties
  imports Replica_Steps Reference_Codec Command_Properties
begin

text \<open>
  What can be relied on of a replica, of the way a command takes to it, and of the answer the client
  gets.
\<close>

section \<open>A replica for the witnesses\<close>

lemma refRocks_fresh: "freshReplica refLib refRocks"
proof -
  have "Rocks_committed refLib refRocks = Map.empty"
    by (simp add: Rocks_committed_def viewOf_def refRocks_def fun_eq_iff split: option.split)
  moreover have "lib_Get refLib (mRocksDB refRocks) 0 kPersistedMilestone = GetNotFound ''NotFound: ''" "mWriteBatch refRocks = []"
    by (simp_all add: refLib_def refRocks_def)
  ultimately show ?thesis
    by (simp add: freshReplica_def Rocks_dinv_def Rocks_milestone_def refRocks_inv)
qed

lemma refWrite_storable: "event_storable (Rocks_storable refLib) (EvWrite refWrite)"
  by (simp add: refWrite_def Rocks_storable_def refLib_def refSerMeta_def plainMeta_def ttlMeta_def addUdfMeta_def defaultMeta_def
      DEFAULT_UDFMETA_def enc_nats_def INFINITE_TTL_def NEVER_EXPIRE_def write_storable_def to_string.simps)

lemma refLog_bundle: "bundle_ok (Rocks_storable refLib) [WriteEvent_toProto refWrite]"
  using refWrite_storable
  by (auto simp: bundle_ok_def getVersionFromBundle_def WriteEvent_toProto_def WriteEvent_fromProto_def refWrite_def DEFAULT_UDFMETA_def)

lemma refLog_ok: "log_ok (Rocks_storable refLib) refCodec refLog"
  using refLog_decrypt refLog_index refLog_bundle by (simp add: log_ok_def) (simp add: refLog_def)

lemma refLog_view: "logView refCodec refLog 2 = [''a'' \<mapsto> (''1'', 5, 0, 0)]"
proof -
  have "take 2 refLog = refLog"
    by (simp add: refLog_def)
  moreover have "bundleEvents [WriteEvent_toProto refWrite] = [EvWrite refWrite]"
    by (simp add: bundleEvents_def WriteEvent_toProto_def WriteEvent_fromProto_def refWrite_def DEFAULT_UDFMETA_def)
  ultimately show ?thesis
    by (simp add: logView_def logEvents_def refLog_decrypt write_view_def refWrite_def INFINITE_TTL_def NEVER_EXPIRE_def)
qed

lemma refLog_committed: "allCommitted refLog (refRaft t refLog)"
  using refRaft_spec [OF refLog_index] by (simp add: allCommitted_def refRaft_def)

section \<open>Replicas follow the log\<close>

text \<open>C1: Whatever the interleaving of turns of the apply loop and crashes of the process, a replica that
  started empty shows the effect of a prefix of the committed log, and its database holds the effect of
  the prefix up to the milestone it holds: a crash loses the part after the milestone and nothing else,
  and no entry is applied twice or left out.\<close>

theorem replica_state_is_log_prefix:
  assumes "freshReplica L r" and "log_ok (Rocks_storable L) cd log" and "replica_steps L cd log (newEventApplyLoop r) a"
    and "m = savedIndex (Rocks_milestone L) (mKVStore_al a)" and "n = startIndex (Rocks_milestone L) a"
  shows "m \<le> n \<and> n \<le> length log \<and> Rocks_pending L (mKVStore_al a) = logView cd log n \<and>
    Rocks_committed L (mKVStore_al a) = logView cd log m"
proof -
  have "replicaInv L cd log a"
    using replica_steps_inv [OF assms(3) freshReplica_inv [OF assms(1)] assms(2)] .
  then show ?thesis
    using loaderOK_bound [of cd log "appliedIndex a" "[]" "mRaftEventStore a"] assms(4,5)
    by (auto simp: applyInv_def startIndex_def Let_def split: if_splits)
qed

text \<open>C20: No turn of the apply loop of a replica, however it came to its state, aborts or fails to return:
  the log is readable, the store takes every event, and the loop that retries a bundle ends.\<close>

theorem replica_turn_returns:
  assumes "freshReplica L r" and "log_ok (Rocks_storable L) cd log" and "replica_steps L cd log (newEventApplyLoop r) a"
    and "raft_log_spec log rf"
  shows "\<exists>a'. run_pass (RocksDB_ops L) cd rf ts a = Some a' \<and> startIndex (Rocks_milestone L) a \<le> appliedIndex a'"
proof -
  have "replicaInv L cd log a"
    using replica_steps_inv [OF assms(3) freshReplica_inv [OF assms(1)] assms(2)] .
  from rocks_durable.run_pass_law [OF this assms(2,4), of ts] show ?thesis
    by (auto simp: advanced_def)
qed

text \<open>C6: A replica catches up: from any reachable state, once the whole log is committed and the library
  hands entries out, as many turns without a crash as the log has bundles left make it show the effect
  of the whole log.\<close>

theorem replica_catches_up:
  assumes "freshReplica L r" and "log_ok (Rocks_storable L) cd log" and "replica_steps L cd log (newEventApplyLoop r) a"
    and "\<forall>p \<in> set ps. allCommitted log (fst p)"
    and "bundlesAfter cd log (startIndex (Rocks_milestone L) a) \<le> length ps" and "ps \<noteq> []"
  shows "\<exists>a'. turns (RocksDB_ops L) cd ps a = Some a' \<and> Rocks_pending L (mKVStore_al a') = logView cd log (length log)"
  using turns_catch_up [OF replica_steps_inv [OF assms(3) freshReplica_inv [OF assms(1)] assms(2)] assms(2,4,5,6)] .

text \<open>C7: Two replicas that have applied the same part of the log show the same, whatever databases they
  run on and however often either of them crashed on the way.\<close>

theorem replicas_agree:
  assumes "freshReplica L r" and "log_ok (Rocks_storable L) cd log" and "replica_steps L cd log (newEventApplyLoop r) a"
    and "freshReplica L' r'" and "log_ok (Rocks_storable L') cd log" and "replica_steps L' cd log (newEventApplyLoop r') a'"
    and "startIndex (Rocks_milestone L) a = startIndex (Rocks_milestone L') a'"
  shows "Rocks_pending L (mKVStore_al a) = Rocks_pending L' (mKVStore_al a')"
proof -
  have "replicaInv L cd log a" "replicaInv L' cd log a'"
    using replica_steps_inv [OF assms(3) freshReplica_inv [OF assms(1)] assms(2)]
      replica_steps_inv [OF assms(6) freshReplica_inv [OF assms(4)] assms(5)] .
  then show ?thesis
    using assms(7) by (auto simp: applyInv_def startIndex_def Let_def split: if_splits)
qed

text \<open>The witnesses run one replica on the log and crash it afterwards.\<close>

lemma refReplica_turn:
  obtains a where "replica_step refLib refCodec refLog (newEventApplyLoop refRocks) a" "replicaInv refLib refCodec refLog a"
    "\<not> mShouldRecover a" "run_pass (RocksDB_ops refLib) refCodec (refRaft 2 refLog) 0 (newEventApplyLoop refRocks) = Some a"
proof -
  have "raft_log_spec refLog (refRaft 2 refLog)"
    using refRaft_spec [OF refLog_index] .
  with rocks_durable.run_pass_law [OF freshReplica_inv [OF refRocks_fresh] refLog_ok this, of 0] that show thesis
    by (auto intro: replica_step.turn)
qed

lemma refStart: "startIndex (Rocks_milestone refLib) (newEventApplyLoop refRocks) = 0"
  using refRocks_fresh by (simp add: startIndex_def savedIndex_def newEventApplyLoop_def freshReplica_def)

lemma refBundlesAfter: "bundlesAfter refCodec refLog 0 = 1"
  by (simp add: bundlesAfter_def refLog_decrypt)

theorem replica_state_is_log_prefix_witness:
  "\<exists>a :: (unit, RawMap RocksDBKVStore) EventApplyLoop. replica_steps refLib refCodec refLog (newEventApplyLoop refRocks) a \<and>
     mShouldRecover a \<and> Rocks_pending refLib (mKVStore_al a) = Rocks_committed refLib (mKVStore_al a)"
proof -
  obtain a :: "(unit, RawMap RocksDBKVStore) EventApplyLoop" where
    a: "replica_step refLib refCodec refLog (newEventApplyLoop refRocks) a"
    by (rule refReplica_turn)
  let ?a = "newEventApplyLoop (Rocks_restart (mKVStore_al a)) :: (unit, RawMap RocksDBKVStore) EventApplyLoop"
  have s: "replica_steps refLib refCodec refLog (newEventApplyLoop refRocks) ?a"
    using a by (meson converse_rtranclp_into_rtranclp replica_step.crash r_into_rtranclp)
  from replica_state_is_log_prefix [OF refRocks_fresh refLog_ok s refl refl] s show ?thesis
    by (intro exI [of _ ?a]) (simp add: startIndex_def newEventApplyLoop_def)
qed

theorem replica_turn_returns_witness:
  "\<exists>a' :: (unit, RawMap RocksDBKVStore) EventApplyLoop.
     run_pass (RocksDB_ops refLib) refCodec (refRaft 2 refLog) 0 (newEventApplyLoop refRocks) = Some a'"
  using replica_turn_returns [OF refRocks_fresh refLog_ok rtranclp.rtrancl_refl refRaft_spec [OF refLog_index]] by blast

theorem replica_catches_up_witness:
  "\<exists>a' :: (unit, RawMap RocksDBKVStore) EventApplyLoop.
     turns (RocksDB_ops refLib) refCodec [(refRaft 2 refLog, 0)] (newEventApplyLoop refRocks) = Some a' \<and>
     Rocks_pending refLib (mKVStore_al a') = [''a'' \<mapsto> (''1'', 5, 0, 0)]"
proof -
  have "length refLog = 2"
    by (simp add: refLog_def)
  then show ?thesis
    using replica_catches_up [OF refRocks_fresh refLog_ok rtranclp.rtrancl_refl, of "[(refRaft 2 refLog, 0)]"]
    by (simp add: refLog_committed refStart refBundlesAfter refLog_view)
qed

text \<open>A second replica, with one more column family.\<close>

definition refRocks2 :: "RawMap RocksDBKVStore" where
  "refRocks2 = refRocks\<lparr>mColumnFamilyNames := [''cf'', ''other'']\<rparr>"

lemma refRocks2_fresh: "freshReplica refLib refRocks2"
proof -
  have cf: "findCFHandle k None refRocks2 = findCFHandle k None refRocks" for k
    by (simp add: findCFHandle_def refRocks2_def refRocks_def)
  have same: "mRocksDB refRocks2 = mRocksDB refRocks" "mWriteBatch refRocks2 = mWriteBatch refRocks"
    by (simp_all add: refRocks2_def)
  show ?thesis
    using refRocks_fresh
    by (simp add: freshReplica_def Rocks_dinv_def Rocks_inv_def Rocks_milestone_def Rocks_committed_def viewOf_def decodable_def
        pendingMap_def cf same)
qed

lemma refReplica_applied:
  assumes "freshReplica refLib r"
  obtains a :: "(unit, RawMap RocksDBKVStore) EventApplyLoop" where
    "replica_steps refLib refCodec refLog (newEventApplyLoop r) a" "startIndex (Rocks_milestone refLib) a = 2"
proof -
  have rf: "raft_log_spec refLog (refRaft 1 refLog)"
    using refRaft_spec [OF refLog_index] .
  have start: "startIndex (Rocks_milestone refLib) (newEventApplyLoop r) = 0"
    using assms by (simp add: startIndex_def savedIndex_def newEventApplyLoop_def freshReplica_def)
  from rocks_durable.run_pass_law [OF freshReplica_inv [OF assms] refLog_ok rf, of 0] obtain a :: "(unit, RawMap RocksDBKVStore) EventApplyLoop" where
    a: "run_pass (RocksDB_ops refLib) refCodec (refRaft 1 refLog) 0 (newEventApplyLoop r) = Some a" "\<not> mShouldRecover a"
      "replicaInv refLib refCodec refLog a" "advanced refCodec (refRaft 1 refLog) refLog 0 a"
    unfolding start by blast
  have ld: "loaderOK refCodec refLog (appliedIndex a) [] (mRaftEventStore a)"
    using a(2,3) by (simp add: applyInv_def Let_def)
  have "bundlesAfter refCodec refLog (appliedIndex a) = 0"
    using advanced_bundles [OF a(4) ld refLog_committed] by (simp add: refLog_decrypt refBundlesAfter)
  moreover have "bundlesAfter refCodec refLog 1 = 1"
    by (simp add: bundlesAfter_def) (simp add: refLog_def refPayload_def decryptPayload_def refCodec_def)
  moreover have "appliedIndex a \<le> 2"
    using loaderOK_bound [OF ld] by (simp add: refLog_def)
  ultimately have "appliedIndex a = 2"
    using refBundlesAfter by (metis One_nat_def le_SucE le_zero_eq numeral_2_eq_2 zero_neq_one)
  with that [of a] replica_step.turn [OF rf a(1)] a(2) show thesis
    by (simp add: startIndex_def r_into_rtranclp)
qed

theorem replicas_agree_witness:
  "\<exists>(a :: (unit, RawMap RocksDBKVStore) EventApplyLoop) (a' :: (unit, RawMap RocksDBKVStore) EventApplyLoop).
     replica_steps refLib refCodec refLog (newEventApplyLoop refRocks) a \<and>
     replica_steps refLib refCodec refLog (newEventApplyLoop refRocks2) a' \<and>
     startIndex (Rocks_milestone refLib) a = 2 \<and> Rocks_pending refLib (mKVStore_al a) = Rocks_pending refLib (mKVStore_al a')"
proof -
  obtain a :: "(unit, RawMap RocksDBKVStore) EventApplyLoop" where
    a: "replica_steps refLib refCodec refLog (newEventApplyLoop refRocks) a" "startIndex (Rocks_milestone refLib) a = 2"
    by (rule refReplica_applied [OF refRocks_fresh])
  obtain a' :: "(unit, RawMap RocksDBKVStore) EventApplyLoop" where
    a': "replica_steps refLib refCodec refLog (newEventApplyLoop refRocks2) a'" "startIndex (Rocks_milestone refLib) a' = 2"
    by (rule refReplica_applied [OF refRocks2_fresh])
  show ?thesis
    using replicas_agree [OF refRocks_fresh refLog_ok a(1) refRocks2_fresh refLog_ok a'(1)] a a' by auto
qed

section \<open>From the queue to the replicas\<close>

text \<open>C18: The apply loop gets the bundles of the committed log in the order of the log, each once and without
  gaps, from the index it was reset to, whatever commit indexes it sees on the way and however many
  entries the library hands out at a time.\<close>

theorem loader_in_order:
  assumes "resetLoadedLogIndex m newRaftEventStore = Some s" and "m \<le> length log" and "decryptEntries cd log \<noteq> None"
    and "\<forall>rf \<in> set rfs. raft_log_spec log rf"
  shows "\<exists>bs s' rest. loadRun cd rfs s = Some (bs, s') \<and> decryptEntries cd (drop m log) = Some (bs @ rest)"
proof -
  have "loaderOK cd log m [] s"
    using assms(1,2) by (auto simp: resetLoadedLogIndex_def newRaftEventStore_def loaderOK_def)
  from loadRun_ok [OF this assms(4,3)] obtain bs s' where
    bs: "loadRun cd rfs s = Some (bs, s')" "decryptEntries cd (take (mLoadedIndex s' - m) (drop m log)) = Some (bs @ mCachedBundles s')"
    by (auto simp: loaderOK_def)
  obtain all where all: "decryptEntries cd (drop m log) = Some all"
    using decryptEntries_parts [OF assms(3)] by blast
  then have "decryptEntries cd (take (mLoadedIndex s' - m) (drop m log) @ drop (mLoadedIndex s' - m) (drop m log)) = Some all"
    by (simp only: append_take_drop_id)
  from decryptEntries_split [OF this] bs all show ?thesis
    by auto
qed

theorem loader_in_order_witness:
  "\<exists>bs s s' rest. resetLoadedLogIndex 1 (newRaftEventStore :: unit RaftEventStore) = Some s \<and>
     loadRun refCodec [refRaft 1 refLog] s = Some (bs, s') \<and> decryptEntries refCodec (drop 1 refLog) = Some (bs @ rest)"
proof -
  obtain s :: "unit RaftEventStore" where s: "resetLoadedLogIndex 1 newRaftEventStore = Some s"
    by (simp add: resetLoadedLogIndex_def newRaftEventStore_def)
  have "1 \<le> length refLog" "decryptEntries refCodec refLog \<noteq> None" "\<forall>rf \<in> set [refRaft 1 refLog]. raft_log_spec refLog rf"
    using refRaft_spec [OF refLog_index] by (simp_all add: refLog_decrypt) (simp add: refLog_def)
  from loader_in_order [OF s this] s show ?thesis
    by blast
qed

text \<open>C19: The persist loop takes every queued task off the queue in order. The entries it adds to the batch
  have consecutive indexes from the last one sent, and the terms of their tasks; for each of them, in
  the same order, a reply task with that index, term and version waits for the commit.\<close>

theorem persist_queue_in_order:
  assumes "entriesOf cd (mLastSentLogIndex s) (mPersistQueue s) = Some es"
  shows "\<exists>s' l'. drain cd (length (mPersistQueue s)) (s, l) = Some (s', l') \<and> mPersistQueue s' = [] \<and>
      mBatchReqs s' = mBatchReqs s @ es \<and> map le_index es = [mLastSentLogIndex s + 1..<mLastSentLogIndex s' + 1] \<and>
      map le_term es = map (\<lambda>(_, _, t, _). t) (mPersistQueue s) \<and>
      mWriteReplyExecutionService l' = mWriteReplyExecutionService l @
        map2 (\<lambda>e (_, ver, t, ctx). newTask (le_index e) t ver (Some ctx) False) es (mPersistQueue s)"
proof -
  have "tasksOf n qs = map2 (\<lambda>e (_, ver, t, ctx). newTask (le_index e) t ver (Some ctx) False) es qs"
    if "entriesOf cd n qs = Some es" for n es and qs :: "(Event list \<times> 64 word \<times> nat \<times> 'b) list"
    using that
  proof (induction qs arbitrary: n es)
    case (Cons q qs)
    then show ?case
      by (cases q) (auto simp: bind_eq_Some_conv makeEntry_def Let_def)
  qed simp
  from this [OF assms] drain_all [OF assms, of l] entriesOf_index [OF assms] show ?thesis
    by (auto simp del: upt_Suc simp: algebra_simps)
qed

theorem persist_queue_in_order_witness:
  "\<exists>s' l' es. drain refCodec 1 (newRaftEventStore\<lparr>mLastSentLogIndex := 1, mPersistQueue := [([EvWrite refWrite], 5, 1, ())]\<rparr>,
       \<lparr>mWriteReplyExecutionService = [], mReadReplyExecutionService = [], mVersionStore = initVersionStore\<rparr>) = Some (s', l') \<and>
     mBatchReqs s' = es \<and> map le_index es = [2] \<and> map mIndex (mWriteReplyExecutionService l') = [2]"
proof -
  let ?s = "newRaftEventStore\<lparr>mLastSentLogIndex := 1, mPersistQueue := [([EvWrite refWrite], 5, 1, ())]\<rparr>"
  have "\<exists>e. entriesOf refCodec (mLastSentLogIndex ?s) (mPersistQueue ?s) = Some [e] \<and> le_index e = 2"
    by (simp add: makeEntry_def refCodec_def kMaxPayLoadSizeInBytes_def Let_def)
  then obtain e where "entriesOf refCodec (mLastSentLogIndex ?s) (mPersistQueue ?s) = Some [e]" "le_index e = 2"
    by blast
  from persist_queue_in_order [OF this(1), of "\<lparr>mWriteReplyExecutionService = [], mReadReplyExecutionService = [], mVersionStore = initVersionStore\<rparr>"] this(2)
  show ?thesis
    by (auto simp: newRaftEventStore_def newTask_def)
qed

end
