(* ===== verification/Path_Properties.thy ===== *)
theory Path_Properties
  imports Replica_Properties
begin

text \<open>
  The way of a command from the leader's processor through the log to the replicas, and of the answer
  back to the client.
\<close>

section \<open>The same effect everywhere\<close>

lemma toBundle_nonread: "toBundle es = Some b \<Longrightarrow> \<forall>e \<in> set es. getType e \<noteq> READ"
proof (induction es arbitrary: b)
  case (Cons e es)
  then show ?case
    by (cases e) (auto simp: bind_eq_Some_conv)
qed simp

text \<open>Handing events over puts one entry into the batch; wherever the log has that entry, it has the
  effect of the events.\<close>

lemma persisted_entry:
  assumes "codec_spec cd" and "mPersistQueue rs = []"
    and "raftCall (PersistAsync term ctx ver evs) (rs, l) = Some (rs1, l1)" and "drain cd 1 (rs1, l1) = Some (rs2, l2)"
  shows "\<exists>entry b. mBatchReqs rs2 = mBatchReqs rs @ [entry] \<and>
      mWriteReplyExecutionService l2 = mWriteReplyExecutionService l @ [newTask (mLastSentLogIndex rs + 1) term ver (Some ctx) False] \<and>
      decryptEntries cd [entry] = Some [(b, mLastSentLogIndex rs + 1)] \<and> fromBundle b = Some (map replicated evs) \<and> le_term entry = term"
proof -
  obtain entry where e: "makeEntry cd (mLastSentLogIndex rs + 1) term evs = Some entry" "mBatchReqs rs2 = mBatchReqs rs @ [entry]"
      "mWriteReplyExecutionService l2 = mWriteReplyExecutionService l @ [newTask (mLastSentLogIndex rs + 1) term ver (Some ctx) False]"
    using assms(2-4) by (auto simp: persistAsync_def dequeue_def bind_eq_Some_conv replyAsync_def pushTask_def newTask_def Let_def)
  then have "\<forall>e \<in> set evs. getType e \<noteq> READ"
    by (auto simp: makeEntry_def bind_eq_Some_conv dest!: toBundle_nonread)
  from makeEntry_roundtrip [OF assms(1) e(1) this] e show ?thesis
    by auto
qed

lemma logView_entry:
  assumes "decryptEntries cd log \<noteq> None" and "i < length log" and "decryptEntries cd [log ! i] = Some [(b, idx)]"
    and "fromBundle b = Some (map replicated evs)"
  shows "logView cd log (Suc i) = events_view evs (logView cd log i)"
proof -
  have "take (Suc i - i) (drop i log) = [log ! i]"
    using assms(2) by (simp add: Cons_nth_drop_Suc [symmetric])
  then show ?thesis
    using logView_step [OF assms(1), of i "Suc i"] assms(3,4) by (simp add: bundleEvents_def)
qed


section \<open>Answers\<close>

lemma replyTask_waited:
  assumes "mIndex task \<noteq> 0" and "waitTillCommittedOrQuit (mIndex task) (mTerm task) passes = Some b"
  shows "replyTask C passes leaderHint task l = replyTask_answer C leaderHint
           (if b then task else task\<lparr>mTaskCode := RC_NOT_LEADER, mMessage := ''NotLeaderAnyMore''\<rparr>) l"
  using assms by (simp add: replyTask_def)

text \<open>C3: A client is told that its write succeeded only after the raft library has shown the entry of the
  write committed under the term in which it was written; in every other case it is told that the
  server is no leader any more.\<close>

theorem write_answer_is_committed:
  assumes "replyTask C passes leaderHint task l = Some (reply, l')" and "mIndex task \<noteq> 0" and "mContext task = Some c"
  shows "\<exists>c'. reply = Some c' \<and>
    ((\<exists>rf entry. (True, rf) \<in> set passes \<and> mIndex task \<le> rf_commitIndex rf \<and> rf_getEntry rf (mIndex task) = Some entry \<and>
        le_term entry = mTerm task) \<and> ctx_fillResponseAndReply C (mTaskCode task) (mMessage task) leaderHint c = Some c' \<or>
     ctx_fillResponseAndReply C RC_NOT_LEADER ''NotLeaderAnyMore'' leaderHint c = Some c')"
proof -
  obtain b where b: "waitTillCommittedOrQuit (mIndex task) (mTerm task) passes = Some b"
      "replyTask_answer C leaderHint (if b then task else task\<lparr>mTaskCode := RC_NOT_LEADER, mMessage := ''NotLeaderAnyMore''\<rparr>) l =
         Some (reply, l')"
    using assms(1,2) by (auto simp: replyTask_def bind_eq_Some_conv)
  show ?thesis
  proof (cases b)
    case True
    then show ?thesis
      using b(2) assms(3) waitTillCommittedOrQuit_committed [of "mIndex task" "mTerm task" passes] b(1)
      by (auto simp: replyTask_answer_def bind_eq_Some_conv)
  next
    case False
    then show ?thesis
      using b(2) assms(3) by (auto simp: replyTask_answer_def bind_eq_Some_conv)
  qed
qed

text \<open>C21: Every write is answered: once the raft library shows its entry committed or lost, or the loop is
  stopped, the wait ends and the client gets an answer.\<close>

theorem write_is_answered:
  assumes "mIndex task \<noteq> 0" and "mContext task = Some c"
    and "\<forall>p \<in> set passes. mTerm task \<le> rf_currentTerm (snd p)"
    and "\<forall>p \<in> set passes. mIndex task \<le> rf_commitIndex (snd p) \<longrightarrow> rf_getEntry (snd p) (mIndex task) \<noteq> None"
    and "\<exists>p \<in> set passes. decisive (mIndex task) (mTerm task) p"
    and "ctx_fillResponseAndReply C (mTaskCode task) (mMessage task) leaderHint c \<noteq> None"
    and "ctx_fillResponseAndReply C RC_NOT_LEADER ''NotLeaderAnyMore'' leaderHint c \<noteq> None"
  shows "\<exists>c' l'. replyTask C passes leaderHint task l = Some (Some c', l')"
proof -
  obtain b where b: "waitTillCommittedOrQuit (mIndex task) (mTerm task) passes = Some b"
    using waitTillCommittedOrQuit_returns [OF assms(3-5)] by blast
  obtain c1 c2 where "ctx_fillResponseAndReply C (mTaskCode task) (mMessage task) leaderHint c = Some c1"
      "ctx_fillResponseAndReply C RC_NOT_LEADER ''NotLeaderAnyMore'' leaderHint c = Some c2"
    using assms(6,7) by blast
  with b assms(1,2) show ?thesis
    by (cases b) (simp_all add: replyTask_def replyTask_answer_def)
qed

text \<open>C35: The loop raises the largest committed version also for a write that was not committed: a read that
  saw that write and waits for its version is answered as successful afterwards.\<close>

theorem lost_write_releases_read:
  assumes "waitTillCommittedOrQuit (mIndex w) (mTerm w) passes = Some False" and "mIndex w \<noteq> 0"
    and "replyTask C passes leaderHint w l = Some (reply, l')" and "rd = newTask 0 term (mVersion w) (Some c) False"
    and "ctx_fillResponseAndReply C RC_OK ''Success'' leaderHint c = Some c'"
  shows "\<exists>l''. replyTask C passes' leaderHint rd l' = Some (Some c', l'')"
proof -
  have "mVersion w \<le> getCurMaxVersion (mVersionStore l')"
    using assms(1-3) by (auto simp: replyTask_def replyTask_answer_def bind_eq_Some_conv updateCurMaxVersion_def getCurMaxVersion_def)
  then show ?thesis
    using assms(4,5) by (auto simp: replyTask_def replyTask_answer_def newTask_def)
qed

section \<open>Witnesses\<close>

text \<open>The transaction of the leader that was used above, on its way through an event store that has sent
  one entry, the no-op of its term.\<close>

definition refEventStore :: "'c RaftEventStore" where
  "refEventStore = newRaftEventStore\<lparr>mLastSentLogIndex := 1\<rparr>"

definition refReplyLoop :: "'c ReplyLoop" where
  "refReplyLoop = \<lparr>mWriteReplyExecutionService = [], mReadReplyExecutionService = [], mVersionStore = recoverMaxVersion 4 initVersionStore\<rparr>"

lemma refPersist:
  assumes "evs \<noteq> []" and "\<forall>e \<in> set evs. getType e \<noteq> READ"
  shows "\<exists>rs1 l1 rs2 l2. raftCall (PersistAsync term ctx ver evs) (refEventStore, refReplyLoop) = Some (rs1, l1) \<and>
    drain refCodec 1 (rs1, l1) = Some (rs2, l2)"
  using assms bundle_roundtrip [OF assms(2)]
  by (auto simp: refEventStore_def newRaftEventStore_def persistAsync_def dequeue_def makeEntry_def refCodec_def
      kMaxPayLoadSizeInBytes_def Let_def)


text \<open>A put that waits for the second entry of the log, written in term 1, and the answers to it when the
  entry is committed and when another term has taken its place.\<close>

definition refTask :: "PutContext Task" where
  "refTask = newTask 2 1 5 (Some (newPut (refPut ''a'' ''1''))) False"

lemma refTask_sel: "mIndex refTask = 2" "mTerm refTask = 1" "mVersion refTask = 5" "mContext refTask = Some (newPut (refPut ''a'' ''1''))"
  by (simp_all add: refTask_def newTask_def)

lemma refRaft_passes:
  "\<forall>p \<in> set [(True, refRaft 1 refLog)]. mTerm refTask \<le> rf_currentTerm (snd p)"
  "\<forall>p \<in> set [(True, refRaft 1 refLog)]. mIndex refTask \<le> rf_commitIndex (snd p) \<longrightarrow> rf_getEntry (snd p) (mIndex refTask) \<noteq> None"
  "\<exists>p \<in> set [(True, refRaft 1 refLog)]. decisive (mIndex refTask) (mTerm refTask) p"
  by (simp_all add: refTask_sel refRaft_def refLog_def decisive_def)

lemma refPut_fill:
  "\<exists>r. ctx_fillResponseAndReply (Put_ops (\<lambda>_. []) refStack) RC_OK msg h (newPut q) = Some r \<and> h_code (putr_header (hd (mReplies r))) = RC_OK"
  "\<exists>r. ctx_fillResponseAndReply (Put_ops (\<lambda>_. []) refStack) RC_NOT_LEADER msg h (newPut q) = Some r \<and>
     h_code (putr_header (hd (mReplies r))) = RC_NOT_LEADER"
  by (simp_all add: Put_ops_def Put_fillResponseAndReply_def fillHeader_def newPut_def callback_def Let_def)

lemma refTask_message: "mTaskCode refTask = RC_OK" "mMessage refTask = ''Success''"
  by (simp_all add: refTask_def newTask_def)

lemma refPut_total:
  "ctx_fillResponseAndReply (Put_ops (\<lambda>_. []) refStack) (mTaskCode refTask) (mMessage refTask) h (newPut q) \<noteq> None"
  "ctx_fillResponseAndReply (Put_ops (\<lambda>_. []) refStack) RC_NOT_LEADER ''NotLeaderAnyMore'' h (newPut q) \<noteq> None"
  using refPut_fill(1) [of "''Success''" h q] refPut_fill(2) [of "''NotLeaderAnyMore''" h q] by (auto simp: refTask_message)

theorem write_is_answered_witness:
  "\<exists>c' l'. replyTask (Put_ops (\<lambda>_. []) refStack) [(True, refRaft 1 refLog)] None refTask refReplyLoop = Some (Some c', l')"
  by (rule write_is_answered [OF _ refTask_sel(4) refRaft_passes refPut_total]) (simp add: refTask_sel(1))

theorem write_answer_is_committed_witness:
  "\<exists>c' l'. replyTask (Put_ops (\<lambda>_. []) refStack) [(True, refRaft 1 refLog)] None refTask refReplyLoop = Some (Some c', l') \<and>
     h_code (putr_header (hd (mReplies c'))) \<in> {RC_OK, RC_NOT_LEADER}"
proof -
  let ?P = "Put_ops (\<lambda>_. []) refStack"
  obtain c1 where c1: "ctx_fillResponseAndReply ?P RC_OK ''Success'' None (newPut (refPut ''a'' ''1'')) = Some c1"
      "h_code (putr_header (hd (mReplies c1))) = RC_OK"
    using refPut_fill(1) by blast
  obtain c2 where c2: "ctx_fillResponseAndReply ?P RC_NOT_LEADER ''NotLeaderAnyMore'' None (newPut (refPut ''a'' ''1'')) = Some c2"
      "h_code (putr_header (hd (mReplies c2))) = RC_NOT_LEADER"
    using refPut_fill(2) by blast
  have i: "mIndex refTask \<noteq> 0"
    by (simp add: refTask_sel)
  moreover have "waitTillCommittedOrQuit (mIndex refTask) (mTerm refTask) [(True, refRaft 1 refLog)] = Some True"
    by (simp add: refTask_sel refRaft_def refLog_def)
  ultimately obtain reply l' where r: "replyTask ?P [(True, refRaft 1 refLog)] None refTask refReplyLoop = Some (reply, l')"
    using c1(1) by (simp add: replyTask_waited replyTask_answer_def refTask_sel(4) refTask_message)
  obtain c' where "reply = Some c'" "c' = c1 \<or> c' = c2"
    using write_answer_is_committed [OF r i refTask_sel(4)] c1(1) c2(1) by (auto simp: refTask_message)
  with r c1(2) c2(2) show ?thesis
    by auto
qed

theorem lost_write_releases_read_witness:
  "\<exists>c1 l' c' l''. replyTask (Put_ops (\<lambda>_. []) refStack) [(True, refRaft 2 [])] None refTask refReplyLoop = Some (Some c1, l') \<and>
     h_code (putr_header (hd (mReplies c1))) = RC_NOT_LEADER \<and>
     replyTask (Put_ops (\<lambda>_. []) refStack) [] None (newTask 0 1 5 (Some (newPut (refPut ''a'' ''1''))) False) l' = Some (Some c', l'') \<and>
     h_code (putr_header (hd (mReplies c'))) = RC_OK"
proof -
  let ?P = "Put_ops (\<lambda>_. []) refStack" and ?passes = "[(True, refRaft 2 [])]"
  have w: "waitTillCommittedOrQuit (mIndex refTask) (mTerm refTask) ?passes = Some False" "mIndex refTask \<noteq> 0"
    by (simp_all add: refTask_sel refRaft_def)
  obtain c1 where c1: "ctx_fillResponseAndReply ?P RC_NOT_LEADER ''NotLeaderAnyMore'' None (newPut (refPut ''a'' ''1'')) = Some c1"
      "h_code (putr_header (hd (mReplies c1))) = RC_NOT_LEADER"
    using refPut_fill(2) by blast
  then obtain l' where l': "replyTask ?P ?passes None refTask refReplyLoop = Some (Some c1, l')"
    by (simp add: replyTask_waited [OF w(2,1)] replyTask_answer_def refTask_sel(4))
  obtain c' where c': "ctx_fillResponseAndReply ?P RC_OK ''Success'' None (newPut (refPut ''a'' ''1'')) = Some c'"
      "h_code (putr_header (hd (mReplies c'))) = RC_OK"
    using refPut_fill(1) by blast
  have "newTask 0 1 5 (Some (newPut (refPut ''a'' ''1''))) False = newTask 0 1 (mVersion refTask) (Some (newPut (refPut ''a'' ''1''))) False"
    by (simp add: refTask_sel)
  from lost_write_releases_read [OF w l' this c'(1), of "[]"] l' c1(2) c'(2) show ?thesis
    by blast
qed

end
