(* ===== verification/Edge_Properties.thy ===== *)
theory Edge_Properties
  imports Command_Properties
begin

text \<open>
  The boundaries of the components: the stored form of a value and the lengths it can have, what a
  compaction may drop, the 32-bit clock, versions that a client asks for, an import, and the cache
  of a replica that becomes the leader.
\<close>

section \<open>Stored values\<close>

text \<open>C32: What the store writes for a key it can read again, with the value, the version, the time to live
  and the deadline, as long as the encoded meta data is shorter than 128 bytes.\<close>

theorem raw_value_roundtrip:
  assumes "protobuf_spec L" and "Rocks_storable L k ver t dl ut um"
  shows "decodeEntry L (toRawValue L v ver SINGLE ut um) = Some (v, ver, INFINITE_TTL, NEVER_EXPIRE) \<and>
    decodeEntry L (toRawValueTTL L v ver t dl SINGLE ut um) = Some (v, ver, t, dl) \<and>
    parseMeta L (toRawValue L v ver SINGLE ut um) defaultMeta = (Status_ok, plainMeta ver ut um SINGLE) \<and>
    parseMeta L (toRawValueTTL L v ver t dl SINGLE ut um) defaultMeta = (Status_ok, ttlMeta ver t dl ut um SINGLE)"
  using assms fromRawValue_encodeRaw(2) [OF assms(1)]
  by (simp add: Rocks_storable_def decode_toRawValue decode_toRawValueTTL)
    (simp add: toRawValue_def toRawValueTTL_def)

lemma refMeta_storable: "Rocks_storable refLib ''a'' 5 60 160 100 DEFAULT_UDFMETA"
  by code_simp

theorem raw_value_roundtrip_witness:
  "decodeEntry refLib (toRawValueTTL refLib ''v'' 5 60 160 SINGLE 100 DEFAULT_UDFMETA) = Some (''v'', 5, 60, 160)"
  using raw_value_roundtrip [OF refLib_protobuf refMeta_storable] by blast

lemma metaEnd_long:
  assumes "128 \<le> length (lib_SerMeta L meta)" and "length (lib_SerMeta L meta) < 254"
  shows "metaEnd (encodeRaw L ty meta dat) = 2 ^ 32 + length (lib_SerMeta L meta) - 254"
proof -
  let ?n = "length (lib_SerMeta L meta)"
  have "(int ?n - 254) mod 2 ^ 32 = (int ?n - 254 + 2 ^ 32) mod 2 ^ 32"
    by (simp only: mod_add_self2)
  also have "\<dots> = int ?n - 254 + 2 ^ 32"
    using assms by (intro mod_pos_pos_trivial) simp_all
  finally have "nat ((int ?n - 254) mod 2 ^ 32) = 2 ^ 32 + ?n - 254"
    using assms by simp
  moreover have "int headerLen + signed_char (encodeRaw L ty meta dat ! 1) = int ?n - 254"
    unfolding encodeRaw_shape using assms by (subst signed_char_of_large) (simp_all add: headerLen_def)
  ultimately show ?thesis
    unfolding metaEnd_def by simp
qed

lemma fromRawValue_long:
  assumes "128 \<le> length (lib_SerMeta L meta)" and "length (lib_SerMeta L meta) < 254"
    and "length (lib_SerData L dat) < 2 ^ 31"
  shows "\<not> isOK (fst (fromRawValue L (encodeRaw L ty meta dat)))"
proof -
  have "length (encodeRaw L ty meta dat) \<le> metaEnd (encodeRaw L ty meta dat)"
    using assms(2,3) unfolding metaEnd_long [OF assms(1,2)] encodeRaw_shape by (simp add: headerLen_def)
  then show ?thesis
    by (simp add: fromRawValue_def)
qed

text \<open>C36: A value whose encoded meta data has between 128 and 253 bytes is written and committed like any
  other, and the first read of it ends the process: the length of the meta data is kept in a signed
  byte.\<close>

theorem long_meta_unreadable:
  assumes "rocksdb_spec L" and "findCFHandle k None r = Some cf" and "k \<noteq> kPersistedMilestone"
    and "128 \<le> length (lib_SerMeta L (plainMeta ver ut um SINGLE))"
    and "length (lib_SerMeta L (plainMeta ver ut um SINGLE)) < 254"
    and "length (lib_SerData L (SingleValue v)) < 2 ^ 31"
  shows "\<exists>r1 r2. Rocks_writeKV L None k v ver ut um r = Some (Status_ok, r1) \<and>
    Rocks_commit L m r1 = Some (Status_ok, r2) \<and> Rocks_readKV L None now k out r2 = None"
proof -
  let ?raw = "toRawValue L v ver SINGLE ut um"
  let ?r1 = "Rocks_observe (OnWriteValue k v ver) (r\<lparr>mWriteBatch := mWriteBatch r @ [BPut cf k ?raw]\<rparr>)"
  have w: "Rocks_writeKV L None k v ver ut um r = Some (Status_ok, ?r1)"
    using assms(1,2) by (simp add: Rocks_writeKV_def batchAdd_eq)
  obtain r2 where c: "Rocks_commit L m ?r1 = Some (Status_ok, r2)" "dbMap L (mRocksDB r2) (cf, k) = Some ?raw"
      "findCFHandle k None r2 = Some cf"
    proof -
    let ?b = "mWriteBatch r @ [BPut cf k ?raw, BPut 0 kPersistedMilestone (to_string (unat m))]"
    obtain db' where db': "lib_Write L (mRocksDB r) ?b = Some db'" "dbMap L db' = fold batchStep ?b (dbMap L (mRocksDB r))"
      using assms(1) unfolding rocksdb_spec_def by blast
    have "Rocks_commit L m ?r1 = Some (Status_ok, ?r1\<lparr>mRocksDB := db', mWriteBatch := []\<rparr>)"
      using assms(1) db'(1) by (simp add: Rocks_commit_def findCFHandle_def batchAdd_eq flushToRocksDB_def Rocks_observe_def)
    moreover have "dbMap L db' (cf, k) = Some ?raw"
      using db'(2) assms(3) by simp
    ultimately show thesis
      using that assms(2) by simp
  qed
  have "\<not> isOK (fst (fromRawValue L ?raw))"
    unfolding toRawValue_def using assms(4-6) by (rule fromRawValue_long)
  with c have "Rocks_readKV L None now k out r2 = None"
    by (auto simp: Rocks_readKV_def dbMap_def rawOf_def split: GetResult.splits prod.split)
  with w c show ?thesis
    by blast
qed

text \<open>User-defined meta data with one string of forty characters.\<close>

definition refLongMeta :: UserDefinedMeta where
  "refLongMeta = \<lparr>uintfield = [], strfield = [replicate 40 CHR ''x'']\<rparr>"

theorem long_meta_unreadable_witness:
  "\<exists>r1 r2. Rocks_writeKV refLib None ''a'' ''v'' 5 100 refLongMeta refRocks = Some (Status_ok, r1) \<and>
     Rocks_commit refLib 7 r1 = Some (Status_ok, r2) \<and>
     Rocks_readKV refLib None 100 ''a'' \<lparr>outValue = [], outTTL = 0, outVersion = 0\<rparr> r2 = None"
proof (rule long_meta_unreadable [OF refLib_rocksdb])
  show "findCFHandle ''a'' None refRocks = Some 1" "''a'' \<noteq> kPersistedMilestone"
    by (simp_all add: findCFHandle_def refRocks_def kCFMetaDefault_def kPersistedMilestone_def)
  have "length (lib_SerMeta refLib (plainMeta 5 100 refLongMeta SINGLE)) = 179"
    by code_simp
  then show "128 \<le> length (lib_SerMeta refLib (plainMeta 5 100 refLongMeta SINGLE))"
      "length (lib_SerMeta refLib (plainMeta 5 100 refLongMeta SINGLE)) < 254"
    by simp_all
  show "length (lib_SerData refLib (SingleValue ''v'')) < 2 ^ 31"
    by (simp add: refLib_def refSerData_def)
qed

section \<open>Compaction\<close>

lemma isTimeOut_mono: "isTimeOut now dl t \<Longrightarrow> now \<le> now' \<Longrightarrow> isTimeOut now' dl t"
  by (auto simp: isTimeOut_def)

text \<open>C33: A stored value that the compaction filter gives up is invisible at that time and at every later
  one: dropping it changes the answer of no read.\<close>

theorem compaction_transparent:
  assumes "TTLCompactionFilter_Filter L now raw = Some True" and "f (cf, k) = Some raw" and "now \<le> now'"
  shows "visible now' (viewOf L r (f((cf, k) := None))) = visible now' (viewOf L r f)"
proof -
  obtain meta where meta: "parseMeta L raw defaultMeta = (Status_ok, meta)" "isTimeOut now (meta_deadline meta) (meta_ttl meta)"
    using assms(1) by (auto simp: TTLCompactionFilter_Filter_def parseMeta_def Let_def split: if_splits option.splits)
  have "case decodeEntry L raw of None \<Rightarrow> True | Some (v, ver, t, dl) \<Rightarrow> isTimeOut now' dl t"
    using isTimeOut_mono [OF meta(2) assms(3)] meta(1)
    by (auto simp: decodeEntry_def parseMeta_def fromRawValue_def split: if_splits option.splits Data.splits)
  then have "visible now' (viewOf L r (f((cf, k) := None))) k' = visible now' (viewOf L r f) k'" for k'
    using assms(2) by (cases "findCFHandle k' None r = Some cf \<and> k' = k")
      (auto simp: visible_def viewOf_def split: option.splits)
  then show ?thesis ..
qed

abbreviation refRaw where
  "refRaw \<equiv> toRawValueTTL refLib ''v'' 5 60 160 SINGLE 100 DEFAULT_UDFMETA"

theorem compaction_transparent_witness:
  "TTLCompactionFilter_Filter refLib 200 refRaw = Some True \<and>
   visible 300 (viewOf refLib refRocks (Map.empty((1, ''a'') := None))) =
   visible 300 (viewOf refLib refRocks [(1, ''a'') \<mapsto> refRaw])"
proof -
  have "TTLCompactionFilter_Filter refLib 200 refRaw = Some True"
    by code_simp
  from this compaction_transparent [OF this, of "[(1, ''a'') \<mapsto> refRaw]" 1 "''a''" 300 refRocks] show ?thesis
    by simp
qed

text \<open>The compaction filter keeps every value without a time to live, and gives up a value with one
  exactly when it has timed out.\<close>

lemma compaction_exact:
  assumes "protobuf_spec L" and "Rocks_storable L k ver t dl ut um"
  shows "TTLCompactionFilter_Filter L now (toRawValue L v ver SINGLE ut um) = Some False \<and>
    TTLCompactionFilter_Filter L now (toRawValueTTL L v ver t dl SINGLE ut um) = Some (isTimeOut now dl t)"
  using assms fromRawValue_encodeRaw(2) [OF assms(1)]
  by (simp add: Rocks_storable_def TTLCompactionFilter_Filter_def toRawValue_def toRawValueTTL_def encodeRaw_shape typeByte_inj)
    (simp add: encodeRaw_def ttlMeta_def)

lemma compaction_exact_witness:
  "TTLCompactionFilter_Filter refLib 100 (toRawValue refLib ''v'' 5 SINGLE 100 DEFAULT_UDFMETA) = Some False \<and>
   TTLCompactionFilter_Filter refLib 100 refRaw = Some False"
  using compaction_exact [OF refLib_protobuf refMeta_storable] by (simp add: isTimeOut_def)

section \<open>The clock\<close>

lemma unat_add_wrap:
  fixes a b :: "32 word"
  shows "b < a + b \<longleftrightarrow> a \<noteq> 0 \<and> unat a + unat b < 2 ^ 32"
proof (cases "unat a + unat b < 2 ^ 32")
  case True
  then have "unat (a + b) = unat a + unat b"
    by (simp add: unat_word_ariths)
  with True show ?thesis
    by (auto simp: word_less_nat_alt unat_gt_0)
next
  case False
  then have "unat (a + b) = unat a + unat b - 2 ^ 32"
    using unat_less_32 [of a] unat_less_32 [of b] by (simp add: unat_word_ariths mod_if)
  with False show ?thesis
    using unat_less_32 [of a] by (simp add: word_less_nat_alt)
qed

text \<open>C34: A put with a time to live is visible to a read of the same second exactly when the deadline fits
  into 32 bits; otherwise it has wrapped around and the new value is already expired.\<close>

theorem put_deadline_wraps:
  assumes "leaderInv hash lookup L (mKVStorePtr p)" and "e = put_entry req"
    and "WS_available hash lookup (WS_locks (mKVStorePtr p)) [wen_key e] True"
    and "wen_enableTTL e" and "wen_ttl e \<noteq> INFINITE_TTL"
  shows "\<exists>calls c' p'. doExecute (Put_ops ip (leaderStack hash lookup L)) None now (newPut req, p) = Some (calls, c', p') \<and>
    visible now (leaderView hash lookup L (mKVStorePtr p')) (wen_key e) =
      (if unat (wen_ttl e) + unat now < 2 ^ 32 then Some (wen_value e, mNextVersion (mVersionStorePtr p)) else None)"
proof -
  have ttl: "storedTTL now (wen_enableTTL e) (if wen_enableTTL e then wen_ttl e else INFINITE_TTL)
      (leaderView hash lookup L (mKVStorePtr p) (wen_key e)) = (True, wen_ttl e)"
    using assms(4,5) by (simp add: storedTTL_def)
  have res: "wen_enableTTL e \<and> wen_ttl e = INFINITE_TTL \<longrightarrow> WS_resident hash lookup (mKVStorePtr p) (wen_key e)"
    using assms(5) by simp
  have "isTimeOut now (wen_ttl e + now) (wen_ttl e) \<longleftrightarrow> \<not> unat (wen_ttl e) + unat now < 2 ^ 32"
    using unat_add_wrap [of now "wen_ttl e"] assms(5) by (simp add: isTimeOut_def INFINITE_TTL_def not_less [symmetric])
  with rocks_ro.ws_commands.put_law [OF assms(1-3) res ttl refl refl, of ip] show ?thesis
    by (auto simp: visible_def)
qed

theorem put_deadline_wraps_witness:
  "\<exists>calls c' p'. doExecute (Put_ops (\<lambda>_. []) refStack) None 100
       (newPut (refPut ''a'' ''1'' \<lparr>put_entry := refEntry ''a'' ''1'' \<lparr>wen_enableTTL := True, wen_ttl := 60\<rparr>\<rparr>), refProcessor) =
       Some (calls, c', p') \<and>
     visible 100 (refView (mKVStorePtr p')) ''a'' = Some (''1'', 5)"
proof -
  let ?e = "refEntry ''a'' ''1'' \<lparr>wen_enableTTL := True, wen_ttl := 60\<rparr>"
  have e: "?e = put_entry (refPut ''a'' ''1'' \<lparr>put_entry := ?e\<rparr>)"
    by simp
  have "wen_enableTTL ?e" "wen_ttl ?e \<noteq> INFINITE_TTL"
    by (simp_all add: INFINITE_TTL_def)
  from put_deadline_wraps [OF _ e _ this, of _ _ _ refProcessor "\<lambda>_. []" 100] refStack_inv refWS_available show ?thesis
    by (simp add: refEntry_def)
qed

section \<open>Versions asked for\<close>

text \<open>A version that a client asks for and that has not been given out yet is given out again to the
  next command that asks for none.\<close>

lemma expected_version_repeats:
  assumes "expected \<noteq> kInvalidVersion" and "mNextVersion vs \<le> expected"
    and "allocateNextVersion cb expected (vs, c) = (v1, vs1, c1)"
    and "allocateNextVersion cb' kInvalidVersion (vs1, c') = (v2, vs2, c2)"
  shows "v1 = expected \<and> v2 = expected"
  using assms by (auto simp: version_store_defs Let_def split: if_splits)

lemma expected_version_repeats_witness:
  "fst (allocateNextVersion (\<lambda>_ c. c) 9 (recoverMaxVersion 4 initVersionStore, ())) = 9 \<and>
   fst (allocateNextVersion (\<lambda>_ c. c) kInvalidVersion
     (fst (snd (allocateNextVersion (\<lambda>_ c. c) 9 (recoverMaxVersion 4 initVersionStore, ()))), ())) = 9"
proof -
  let ?a = "allocateNextVersion (\<lambda>_ c. c) 9 (recoverMaxVersion 4 initVersionStore, ())"
  have "mNextVersion (recoverMaxVersion 4 initVersionStore) \<le> 9" "(9 :: VersionType) \<noteq> kInvalidVersion"
    by (simp_all add: recoverMaxVersion_def initVersionStore_def kInvalidVersion_def)
  from expected_version_repeats [OF this(2,1)] show ?thesis
    by (metis prod.collapse)
qed

lemma import_hand: "doExecute_hand (Import_ops ip K) [EvImport w ver] (c, p) = None"
  by (simp add: doExecute_hand_def nonReadEventsOf_def Import_ops_def Put_ops_def Put_initSuccessResponse_def Let_def
      split: option.split)



section \<open>A new leader\<close>

lemma getBucket_forAll:
  "distinct is \<Longrightarrow> getBucket (fold (\<lambda>i c. putBucket c i (f (getBucket c i))) is c) j =
     (if j \<in> set is then f (getBucket c j) else getBucket c j)"
  by (induction "is" arbitrary: c) auto

lemma getBucket_clear: "i < kConcurLevel \<Longrightarrow> getBucket (Concur_clear c) i = InMem_clear (getBucket c i)"
  by (simp add: Concur_clear_def Concur_forAll_def getBucket_forAll)

lemma clear_view:
  assumes "WS_inv hash lookup dinv (w, d)"
  shows "WS_inv hash lookup dinv (WS_clear w, d)" and "WS_view hash lookup dview (WS_clear w, d) = dview d"
proof -
  have ws: "mWS2Wrapper w (lookup k) \<noteq> None" for k
    using assms by (simp add: routedInv_def WS_valid_def)
  have get: "getWS (WS_clear w) (lookup k) = Concur_clear (getWS w (lookup k))" for k
    using ws [of k] by (auto simp: WS_clear_def WS_forAll_def getWS_def)
  have "getBucket (Concur_clear c) (calculateSegmentIndex hash k) = InMem_clear (getBucket c (calculateSegmentIndex hash k))" for c k
    by (rule getBucket_clear) (rule calculateSegmentIndex_bound)
  note simps = get this
  have valid: "WS_valid lookup (WS_clear w)"
    using ws by (simp add: WS_valid_def WS_clear_def WS_forAll_def)
  show "WS_inv hash lookup dinv (WS_clear w, d)"
    using assms valid by (simp add: routedInv_def simps InMem_inv_def) (simp add: InMem_clear_def)
  show "WS_view hash lookup dview (WS_clear w, d) = dview d"
    by (simp add: routedView_def simps InMem_view_def InMem_clear_def fun_eq_iff)
qed

text \<open>C24: A replica that becomes the leader starts with an empty cache: it shows what its RocksDB store has
  committed, and allocates after the last version of the log. The updates in the write batch stay
  there, and are not part of what it shows.\<close>

theorem new_leader_shows_committed:
  assumes "leaderInv hash lookup L (w, r)" and "mKVStorePtr p = (w, r)" and "recoveredVersion lastBundle = Some m"
  shows "\<exists>w'. becomeLeader (leaderStack hash lookup L) curTerm lastBundle p =
      Some (p\<lparr>mVersionStorePtr := recoverMaxVersion m (mVersionStorePtr p), mKVStorePtr := (w', r), mCurTerm := curTerm\<rparr>) \<and>
    leaderInv hash lookup L (w', r) \<and> leaderView hash lookup L (w', r) = Rocks_committed L r"
  using assms clear_view [OF assms(1)] 
  by (auto simp: becomeLeader_def ReadOnlyKVStore_def ProxyKVStore_def KVStore_base_def)

theorem new_leader_shows_committed_witness:
  "\<exists>w'. becomeLeader refStack 2 None refProcessor =
      Some (refProcessor\<lparr>mVersionStorePtr := recoverMaxVersion 0 (mVersionStorePtr refProcessor), mKVStorePtr := (w', refRocks),
        mCurTerm := 2\<rparr>) \<and> refView (w', refRocks) = Rocks_committed refLib refRocks"
  using new_leader_shows_committed [OF refStack_inv, of refProcessor None 0 2] by (auto simp: recoveredVersion_def kInvalidVersion_def)

end
