(* ===== verification/Hash_Ring.thy ===== *)
theory Hash_Ring
  imports Goblin_Prelude
begin

text \<open>
  \<^verbatim>\<open>object-manager/route/HashRing\<close>: consistent hashing. A cluster has some virtual nodes on a
  ring of 4096 shards; a shard belongs to the cluster of the closest node at or before it, around the
  ring. The ordered map of nodes is a list of pairs with increasing keys. All numbers stay below
  twice the length of the ring, so that shards are natural numbers. \<^verbatim>\<open>std::hash\<close> is a
  parameter.
\<close>

type_synonym ShardIdType = nat
type_synonym ClusterIdType = nat

definition RING_LENGTH :: nat where
  "RING_LENGTH = 4096"

definition DEFAULT_VIRTUAL_NODE_COUNT :: nat where
  "DEFAULT_VIRTUAL_NODE_COUNT = 1"

record HashRing =
  clusterRingMap :: "(ShardIdType \<times> ClusterIdType) list"
  virtualNodeCount :: nat

text \<open>The environment variable, if it is set, has been read as the number \<open>i\<close>.\<close>

definition newHashRing :: "int option \<Rightarrow> HashRing option" where
  "newHashRing env = (case env of
      None \<Rightarrow> Some \<lparr>clusterRingMap = [], virtualNodeCount = DEFAULT_VIRTUAL_NODE_COUNT\<rparr>
    | Some i \<Rightarrow> do { assert (1 \<le> i); Some \<lparr>clusterRingMap = [], virtualNodeCount = nat i\<rparr> })"

section \<open>Ordered maps\<close>

primrec map_insert :: "ShardIdType \<Rightarrow> ClusterIdType \<Rightarrow> (ShardIdType \<times> ClusterIdType) list \<Rightarrow> (ShardIdType \<times> ClusterIdType) list" where
  "map_insert k c [] = [(k, c)]"
| "map_insert k c (p # ps) = (if k < fst p then (k, c) # p # ps else if k = fst p then p # ps else p # map_insert k c ps)"

definition ring_ok :: "(ShardIdType \<times> ClusterIdType) list \<Rightarrow> bool" where
  "ring_ok ring = (sorted_wrt (<) (map fst ring) \<and> (\<forall>k \<in> fst ` set ring. k < RING_LENGTH))"

section \<open>The operations\<close>

partial_function (option) calcShardLoop :: "(ShardIdType \<times> ClusterIdType) list \<Rightarrow> ShardIdType \<Rightarrow> ShardIdType option" where
  "calcShardLoop ring shard =
     (if shard \<in> fst ` set ring then calcShardLoop ring ((shard + 1) mod RING_LENGTH) else Some shard)"

definition calcShard :: "(string \<Rightarrow> 64 word) \<Rightarrow> string \<Rightarrow> HashRing \<Rightarrow> ShardIdType option" where
  "calcShard mHashFunc key h = calcShardLoop (clusterRingMap h) (unat (mHashFunc key) mod RING_LENGTH)"

definition buildKey :: "ClusterIdType \<Rightarrow> nat \<Rightarrow> string" where
  "buildKey clusterId order = (if 0 < order then to_string clusterId @ ''#'' @ to_string order else to_string clusterId)"

definition deleteClusterId :: "ClusterIdType \<Rightarrow> HashRing \<Rightarrow> HashRing" where
  "deleteClusterId clusterId h = h\<lparr>clusterRingMap := filter (\<lambda>p. snd p \<noteq> clusterId) (clusterRingMap h)\<rparr>"

type_synonym ShardMap = "ClusterIdType \<Rightarrow> ShardIdType list option"

definition shardsOf :: "ShardMap \<Rightarrow> ClusterIdType \<Rightarrow> ShardIdType list" where
  "shardsOf m c = (case m c of None \<Rightarrow> [] | Some ss \<Rightarrow> ss)"

definition push_back :: "ClusterIdType \<Rightarrow> ShardIdType \<Rightarrow> ShardMap \<Rightarrow> ShardMap" where
  "push_back c s m = m(c \<mapsto> shardsOf m c @ [s])"

text \<open>The node before a shard and the node after it, around the ring.\<close>

definition prevNode :: "(ShardIdType \<times> ClusterIdType) list \<Rightarrow> ShardIdType \<Rightarrow> ShardIdType \<times> ClusterIdType" where
  "prevNode ring shard = (case takeWhile (\<lambda>p. fst p < shard) ring of [] \<Rightarrow> last ring | ps \<Rightarrow> last ps)"

definition nextNode :: "(ShardIdType \<times> ClusterIdType) list \<Rightarrow> ShardIdType \<Rightarrow> ShardIdType \<times> ClusterIdType" where
  "nextNode ring shard = (case dropWhile (\<lambda>p. fst p \<le> shard) ring of [] \<Rightarrow> hd ring | p # _ \<Rightarrow> p)"

text \<open>One turn of the loop of \<^verbatim>\<open>addClusterId\<close>: the node is in the ring, the shards it takes over
  go to the entry of the cluster they come from.\<close>

definition recordMoves :: "ClusterIdType \<Rightarrow> ShardIdType \<Rightarrow> (ShardIdType \<times> ClusterIdType) list \<Rightarrow> ShardMap \<Rightarrow> ShardMap" where
  "recordMoves clusterId shard ring m =
     (let it = snd (prevNode ring shard);
          m1 = (if it \<noteq> clusterId \<and> m clusterId = None then m(it \<mapsto> shardsOf m it) else m);
          end0 = fst (nextNode ring shard);
          end1 = (if end0 < shard then end0 + RING_LENGTH else end0)
      in fold (\<lambda>s. push_back it (s mod RING_LENGTH)) [shard..<end1] m1)"

primrec addLoop ::
  "(string \<Rightarrow> 64 word) \<Rightarrow> ClusterIdType \<Rightarrow> nat list \<Rightarrow> HashRing \<times> ShardMap option \<Rightarrow> (HashRing \<times> ShardMap option) option" where
  "addLoop mHashFunc clusterId [] hm = Some hm"
| "addLoop mHashFunc clusterId (i # is) hm = (case hm of (h, pMap) \<Rightarrow> do {
     shard \<leftarrow> calcShard mHashFunc (buildKey clusterId i) h;
     let ring = map_insert shard clusterId (clusterRingMap h);
     let h1 = h\<lparr>clusterRingMap := ring\<rparr>;
     addLoop mHashFunc clusterId is
       (h1, if length ring \<le> virtualNodeCount h then pMap else map_option (recordMoves clusterId shard ring) pMap)
   })"

definition addClusterId ::
  "(string \<Rightarrow> 64 word) \<Rightarrow> ClusterIdType \<Rightarrow> ShardMap option \<Rightarrow> HashRing \<Rightarrow> (HashRing \<times> ShardMap option) option" where
  "addClusterId mHashFunc clusterId pMap h = addLoop mHashFunc clusterId [0..<virtualNodeCount h] (h, pMap)"

primrec extractLoop ::
  "ShardIdType \<Rightarrow> ClusterIdType \<Rightarrow> (ShardIdType \<times> ClusterIdType) list \<Rightarrow> ShardMap \<Rightarrow> ShardIdType \<times> ClusterIdType \<times> ShardMap" where
  "extractLoop preKey preClusterId [] m = (preKey, preClusterId, m)"
| "extractLoop preKey preClusterId (p # ps) m =
     extractLoop (max preKey (fst p)) (snd p) ps (fold (push_back preClusterId) [preKey..<fst p] m)"

definition extractShardConfig :: "HashRing \<Rightarrow> ShardMap \<Rightarrow> ShardMap" where
  "extractShardConfig h resultMap = (case clusterRingMap h of
      [] \<Rightarrow> resultMap
    | (firstKey, firstCluster) # ps \<Rightarrow>
        (let (preKey, preClusterId, m) = extractLoop firstKey firstCluster ps resultMap;
             m1 = m(preClusterId \<mapsto> shardsOf m preClusterId)
         in fold (\<lambda>s. push_back preClusterId (s mod RING_LENGTH)) [preKey..<firstKey + RING_LENGTH] m1))"

definition getHashRange :: "nat \<times> nat" where
  "getHashRange = (0, RING_LENGTH)"

section \<open>Finding a free shard\<close>

text \<open>The search ends when a shard is free, at the first free one around the ring, and runs forever on a
  full ring.\<close>

lemma calcShardLoop_step:
  "shard \<in> fst ` set ring \<Longrightarrow> calcShardLoop ring shard = calcShardLoop ring ((shard + 1) mod RING_LENGTH)"
  "shard \<notin> fst ` set ring \<Longrightarrow> calcShardLoop ring shard = Some shard"
  by (simp_all add: calcShardLoop.simps)

lemma calcShardLoop_walk:
  assumes "\<forall>j < n. (shard + j) mod RING_LENGTH \<in> fst ` set ring" and "shard < RING_LENGTH"
  shows "calcShardLoop ring shard = calcShardLoop ring ((shard + n) mod RING_LENGTH)"
  using assms
proof (induction n)
  case (Suc n)
  have "((shard + n) mod RING_LENGTH + 1) mod RING_LENGTH = (shard + Suc n) mod RING_LENGTH"
    by (simp add: mod_simps)
  with Suc calcShardLoop_step(1) [of "(shard + n) mod RING_LENGTH" ring] show ?case
    by simp
qed simp

lemma calcShardLoop_free:
  assumes "shard < RING_LENGTH" and "free < RING_LENGTH" and "free \<notin> fst ` set ring"
  shows "\<exists>s. calcShardLoop ring shard = Some s \<and> s < RING_LENGTH \<and> s \<notin> fst ` set ring"
proof -
  define d where "d = (LEAST d. (shard + d) mod RING_LENGTH \<notin> fst ` set ring)"
  have "(shard + (free + RING_LENGTH - shard)) mod RING_LENGTH = free"
    using assms(1,2) by simp
  then have ex: "\<exists>d. (shard + d) mod RING_LENGTH \<notin> fst ` set ring"
    using assms(3) by metis
  have "(shard + d) mod RING_LENGTH \<notin> fst ` set ring"
    unfolding d_def using LeastI_ex [OF ex] .
  moreover have "\<forall>j < d. (shard + j) mod RING_LENGTH \<in> fst ` set ring"
    unfolding d_def using not_less_Least by blast
  ultimately show ?thesis
    using calcShardLoop_walk [OF _ assms(1), of d ring] calcShardLoop_step(2)
    by (metis RING_LENGTH_def mod_less_divisor zero_less_numeral)
qed

lemma calcShardLoop_full:
  assumes "calcShardLoop ring shard = Some s"
  shows "s \<notin> fst ` set ring"
proof (rule calcShardLoop.raw_induct [OF _ assms])
  fix loop :: "(nat \<times> nat) list \<Rightarrow> nat \<Rightarrow> nat option" and ring' shard' s'
  assume ih: "\<And>ring shard s. loop ring shard = Some s \<Longrightarrow> s \<notin> fst ` set ring"
    and "(if shard' \<in> fst ` set ring' then loop ring' ((shard' + 1) mod RING_LENGTH) else Some shard') = Some s'"
  then show "s' \<notin> fst ` set ring'"
    by (auto split: if_splits)
qed

section \<open>Who owns a shard\<close>

definition owner :: "(ShardIdType \<times> ClusterIdType) list \<Rightarrow> ShardIdType \<Rightarrow> ClusterIdType" where
  "owner ring s = snd (case takeWhile (\<lambda>p. fst p \<le> s) ring of [] \<Rightarrow> last ring | ps \<Rightarrow> last ps)"

text \<open>The pushes of \<^verbatim>\<open>extractShardConfig\<close> as one list.\<close>

primrec segs :: "ShardIdType \<Rightarrow> ClusterIdType \<Rightarrow> (ShardIdType \<times> ClusterIdType) list \<Rightarrow> nat \<Rightarrow> (ClusterIdType \<times> ShardIdType) list" where
  "segs pre c [] end1 = map (\<lambda>s. (c, s mod RING_LENGTH)) [pre..<end1]"
| "segs pre c (p # ps) end1 = map (\<lambda>s. (c, s mod RING_LENGTH)) [pre..<fst p] @ segs (fst p) (snd p) ps end1"

definition pushes :: "(ClusterIdType \<times> ShardIdType) list \<Rightarrow> ShardMap \<Rightarrow> ShardMap" where
  "pushes xs m = fold (\<lambda>(c, s). push_back c s) xs m"

lemma shardsOf_push: "shardsOf (push_back c s m) c' = shardsOf m c' @ (if c = c' then [s] else [])"
  by (simp add: push_back_def shardsOf_def)

lemma shardsOf_pushes: "shardsOf (pushes xs m) c = shardsOf m c @ map snd (filter (\<lambda>p. fst p = c) xs)"
proof (induction xs arbitrary: m)
  case (Cons x xs)
  then show ?case
    by (cases x) (auto simp: pushes_def shardsOf_push)
qed (simp add: pushes_def)

lemma shardsOf_touch: "shardsOf (m(c \<mapsto> shardsOf m c)) = shardsOf m"
  by (auto simp: shardsOf_def fun_eq_iff)

lemma fold_push_back:
  "fold (\<lambda>s. push_back c (f s)) xs m = pushes (map (\<lambda>s. (c, f s)) xs) m"
  by (simp add: pushes_def fold_map comp_def)

lemma map_mod_upt: "b \<le> RING_LENGTH \<Longrightarrow> map (\<lambda>s. (c, s mod RING_LENGTH)) [a..<b] = map (\<lambda>s. (c, s)) [a..<b]"
  by simp

lemma extractLoop_segs:
  assumes "extractLoop pre c ps m = (pre', c', m')" and "sorted_wrt (<) (pre # map fst ps)" and "\<forall>p \<in> set ps. fst p < RING_LENGTH"
  shows "shardsOf (pushes (map (\<lambda>s. (c', s mod RING_LENGTH)) [pre'..<end1]) m') = shardsOf (pushes (segs pre c ps end1) m)"
  using assms
proof (induction ps arbitrary: pre c m)
  case (Cons p ps)
  have small: "map (\<lambda>s. (c, s mod RING_LENGTH)) [pre..<fst p] = map (\<lambda>s. (c, s)) [pre..<fst p]"
    using Cons.prems(3) by (intro map_mod_upt) auto
  have "pushes (segs pre c (p # ps) end1) m = pushes (segs (fst p) (snd p) ps end1) (fold (push_back c) [pre..<fst p] m)"
    unfolding segs.simps small fold_push_back [of c "\<lambda>s. s" "[pre..<fst p]" m] by (simp add: pushes_def)
  with Cons.IH [of "fst p" "snd p" "fold (push_back c) [pre..<fst p] m"] Cons.prems show ?case
    by (simp add: max_def)
qed simp

lemma extractShardConfig_segs:
  assumes "clusterRingMap h = (k0, c0) # ps" and "ring_ok (clusterRingMap h)"
  shows "shardsOf (extractShardConfig h Map.empty) c = map snd (filter (\<lambda>p. fst p = c) (segs k0 c0 ps (k0 + RING_LENGTH)))"
proof -
  obtain pre' c' m' where e: "extractLoop k0 c0 ps Map.empty = (pre', c', m')"
    by (cases "extractLoop k0 c0 ps Map.empty")
  have "shardsOf (extractShardConfig h Map.empty) =
      shardsOf (pushes (map (\<lambda>s. (c', s mod RING_LENGTH)) [pre'..<k0 + RING_LENGTH]) m')"
    using assms(1) e by (auto simp: extractShardConfig_def fold_push_back shardsOf_pushes shardsOf_touch fun_eq_iff)
  also have "\<dots> = shardsOf (pushes (segs k0 c0 ps (k0 + RING_LENGTH)) Map.empty)"
    using assms by (intro extractLoop_segs [OF e]) (auto simp: ring_ok_def)
  finally show ?thesis
    by (simp add: shardsOf_pushes) (simp add: shardsOf_def)
qed

text \<open>Each shard of the ring is pushed once, for its owner.\<close>

lemma segs_owner:
  assumes "sorted_wrt (<) (pre # map fst ps)" and "\<forall>p \<in> set ps. fst p < end1" and "pre \<le> end1"
  shows "segs pre c ps end1 = map (\<lambda>s. (snd (last ((pre, c) # takeWhile (\<lambda>p. fst p \<le> s) ps)), s mod RING_LENGTH)) [pre..<end1]"
  using assms
proof (induction ps arbitrary: pre c)
  case (Cons p ps)
  have lt: "pre < fst p" "fst p < end1" "\<forall>q \<in> set ps. fst p < fst q"
    using Cons.prems by auto
  have split: "[pre..<end1] = [pre..<fst p] @ [fst p..<end1]"
    using lt by (metis less_imp_le upt_add_eq_append le_add_diff_inverse)
  have "segs (fst p) (snd p) ps end1 =
      map (\<lambda>s. (snd (last ((fst p, snd p) # takeWhile (\<lambda>p. fst p \<le> s) ps)), s mod RING_LENGTH)) [fst p..<end1]"
    using Cons.IH [of "fst p" "snd p"] Cons.prems lt by simp
  also have "\<dots> = map (\<lambda>s. (snd (last ((pre, c) # takeWhile (\<lambda>p. fst p \<le> s) (p # ps))), s mod RING_LENGTH)) [fst p..<end1]"
    by (intro map_cong) auto
  finally show ?case
    unfolding split by simp
qed simp

lemma takeWhile_all: "\<forall>x \<in> set xs. P x \<Longrightarrow> takeWhile P xs = xs"
  by (simp add: takeWhile_eq_all_conv)

lemma owner_segs:
  assumes "ring_ok ((k0, c0) # ps)" and "k0 \<le> s" and "s < k0 + RING_LENGTH"
  shows "snd (last ((k0, c0) # takeWhile (\<lambda>p. fst p \<le> s) ps)) = owner ((k0, c0) # ps) (s mod RING_LENGTH)"
proof (cases "s < RING_LENGTH")
  case True
  then show ?thesis
    using assms(2) by (simp add: owner_def)
next
  case False
  have "s mod RING_LENGTH = s - RING_LENGTH"
    using assms False by (auto simp: ring_ok_def le_mod_geq)
  moreover have "\<not> k0 \<le> s - RING_LENGTH"
    using assms(3) False by simp
  ultimately have "owner ((k0, c0) # ps) (s mod RING_LENGTH) = snd (last ((k0, c0) # ps))"
    by (simp only: owner_def takeWhile.simps fst_conv if_False list.case)
  moreover have tw: "takeWhile (\<lambda>p. fst p \<le> s) ps = ps"
    using assms(1) False by (intro takeWhile_all) (auto simp: ring_ok_def)
  ultimately show ?thesis
    unfolding tw by simp
qed

lemma extractShardConfig_owner:
  assumes "clusterRingMap h = (k0, c0) # ps" and "ring_ok (clusterRingMap h)"
  shows "shardsOf (extractShardConfig h Map.empty) c =
    filter (\<lambda>s. owner (clusterRingMap h) s = c) (map (\<lambda>s. s mod RING_LENGTH) [k0..<k0 + RING_LENGTH])"
proof -
  have ok: "ring_ok ((k0, c0) # ps)"
    using assms by simp
  then have "segs k0 c0 ps (k0 + RING_LENGTH) =
      map (\<lambda>s. (snd (last ((k0, c0) # takeWhile (\<lambda>p. fst p \<le> s) ps)), s mod RING_LENGTH)) [k0..<k0 + RING_LENGTH]"
    by (intro segs_owner) (auto simp: ring_ok_def)
  also have "\<dots> = map (\<lambda>s. (owner ((k0, c0) # ps) (s mod RING_LENGTH), s mod RING_LENGTH)) [k0..<k0 + RING_LENGTH]"
    using owner_segs [OF ok] by (intro map_cong) auto
  finally show ?thesis
    unfolding extractShardConfig_segs [OF assms] assms(1) by (simp add: filter_map comp_def)
qed

text \<open>Walking once around the ring meets every shard once.\<close>

lemma ring_walk:
  "distinct (map (\<lambda>s. s mod RING_LENGTH) [k..<k + RING_LENGTH])"
  "set (map (\<lambda>s. s mod RING_LENGTH) [k..<k + RING_LENGTH]) = {..<RING_LENGTH}"
proof -
  have "inj_on (\<lambda>s. s mod RING_LENGTH) {k..<k + RING_LENGTH}"
  proof (rule inj_onI)
    fix x y
    assume *: "x \<in> {k..<k + RING_LENGTH}" "y \<in> {k..<k + RING_LENGTH}" "x mod RING_LENGTH = y mod RING_LENGTH"
    then have "\<bar>int x - int y\<bar> < int RING_LENGTH" "int RING_LENGTH dvd int x - int y"
      by (auto simp: mod_eq_dvd_iff [symmetric] zmod_int [symmetric])
    then show "x = y"
      by (metis dvd_imp_le_int linorder_not_le of_nat_eq_iff right_minus_eq abs_of_nat)
  qed
  then show d: "distinct (map (\<lambda>s. s mod RING_LENGTH) [k..<k + RING_LENGTH])"
    by (simp add: distinct_map)
  have "set (map (\<lambda>s. s mod RING_LENGTH) [k..<k + RING_LENGTH]) \<subseteq> {..<RING_LENGTH}"
    by (auto simp: RING_LENGTH_def)
  moreover have "card (set (map (\<lambda>s. s mod RING_LENGTH) [k..<k + RING_LENGTH])) = card {..<RING_LENGTH}"
    using distinct_card [OF d] by simp
  ultimately show "set (map (\<lambda>s. s mod RING_LENGTH) [k..<k + RING_LENGTH]) = {..<RING_LENGTH}"
    by (intro card_subset_eq) auto
qed

section \<open>Adding a node\<close>

lemma map_insert_split:
  assumes "sorted_wrt (<) (map fst ring)" and "k \<notin> fst ` set ring"
  shows "\<exists>A B. ring = A @ B \<and> map_insert k c ring = A @ (k, c) # B \<and> (\<forall>p \<in> set A. fst p < k) \<and> (\<forall>p \<in> set B. k < fst p)"
  using assms
proof (induction ring)
  case (Cons p ps)
  show ?case
  proof (cases "k < fst p")
    case True
    with Cons.prems show ?thesis
      by (intro exI [of _ "[]"] exI [of _ "p # ps"]) auto
  next
    case False
    with Cons obtain A B where "ps = A @ B" "map_insert k c ps = A @ (k, c) # B" "\<forall>p \<in> set A. fst p < k" "\<forall>p \<in> set B. k < fst p"
      by auto
    with False Cons.prems(2) show ?thesis
      by (intro exI [of _ "p # A"] exI [of _ B]) auto
  qed
qed simp

lemma map_insert_ok:
  assumes "ring_ok ring" and "k \<notin> fst ` set ring" and "k < RING_LENGTH"
  shows "ring_ok (map_insert k c ring)" and "set (map_insert k c ring) = insert (k, c) (set ring)"
    and "length (map_insert k c ring) = Suc (length ring)"
proof -
  obtain A B where "ring = A @ B" "map_insert k c ring = A @ (k, c) # B" "\<forall>p \<in> set A. fst p < k" "\<forall>p \<in> set B. k < fst p"
    using map_insert_split assms(1,2) by (metis ring_ok_def)
  with assms show "ring_ok (map_insert k c ring)" "set (map_insert k c ring) = insert (k, c) (set ring)"
      "length (map_insert k c ring) = Suc (length ring)"
    by (auto simp: ring_ok_def sorted_wrt_append)
qed

text \<open>On an ordered ring the owner is the last node that is not after the shard.\<close>

lemma sorted_takeWhile: "sorted_wrt (<) (map fst ring) \<Longrightarrow> takeWhile (\<lambda>p. fst p \<le> s) ring = filter (\<lambda>p. fst p \<le> (s :: nat)) ring"
proof (induction ring)
  case (Cons p ps)
  have "filter (\<lambda>p. fst p \<le> s) ps = []" if "\<not> fst p \<le> s"
    using Cons.prems that by (auto simp: filter_empty_conv)
  with Cons show ?case
    by auto
qed simp

lemma owner_filter:
  assumes "ring_ok ring"
  shows "owner ring s = snd (last (if filter (\<lambda>p. fst p \<le> s) ring = [] then ring else filter (\<lambda>p. fst p \<le> s) ring))"
  using assms by (simp add: owner_def ring_ok_def sorted_takeWhile split: list.split)

text \<open>The shards a new node takes over.\<close>

definition takenOver :: "(ShardIdType \<times> ClusterIdType) list \<Rightarrow> ShardIdType \<Rightarrow> ShardIdType list" where
  "takenOver ring shard =
     (let end0 = fst (nextNode ring shard) in [shard..<if end0 < shard then end0 + RING_LENGTH else end0])"

lemma mod_image_low: "e \<le> RING_LENGTH \<Longrightarrow> s \<in> (\<lambda>s. s mod RING_LENGTH) ` {k..<e} \<longleftrightarrow> k \<le> s \<and> s < e"
  by (force simp: image_iff)

lemma mod_image_wrap:
  assumes "e \<le> k" and "k < RING_LENGTH" and "s < RING_LENGTH"
  shows "s \<in> (\<lambda>s. s mod RING_LENGTH) ` {k..<e + RING_LENGTH} \<longleftrightarrow> k \<le> s \<or> s < e"
proof
  assume "s \<in> (\<lambda>s. s mod RING_LENGTH) ` {k..<e + RING_LENGTH}"
  then obtain x where "s = x mod RING_LENGTH" "k \<le> x" "x < e + RING_LENGTH"
    by auto
  then show "k \<le> s \<or> s < e"
    using assms by (cases "x < RING_LENGTH") (auto simp: le_mod_geq)
next
  assume "k \<le> s \<or> s < e"
  then show "s \<in> (\<lambda>s. s mod RING_LENGTH) ` {k..<e + RING_LENGTH}"
  proof
    assume "k \<le> s"
    then show ?thesis
      using assms by (intro image_eqI [of _ _ s]) auto
  next
    assume "s < e"
    then show ?thesis
      using assms by (intro image_eqI [of _ _ "s + RING_LENGTH"]) auto
  qed
qed

lemma takenOver_split:
  assumes "\<forall>p \<in> set A. fst p < k" and "\<forall>p \<in> set B. k < fst p" and "\<forall>p \<in> set B. fst p < RING_LENGTH" and "A @ B \<noteq> []"
    and "k < RING_LENGTH" and "s < RING_LENGTH"
  shows "s \<in> (\<lambda>s. s mod RING_LENGTH) ` set (takenOver (A @ (k, c) # B) k) \<longleftrightarrow>
    (if B = [] then k \<le> s \<or> s < fst (hd A) else k \<le> s \<and> s < fst (hd B))"
proof -
  have d: "dropWhile (\<lambda>p. fst p \<le> k) (A @ (k, c) # B) = B"
    using assms(1,2) by (cases B) (auto simp: dropWhile_append2 less_imp_le)
  show ?thesis
  proof (cases B)
    case Nil
    then have "fst (hd A) < k"
      using assms(1,4) by simp
    with Nil d assms(4) have "set (takenOver (A @ (k, c) # B) k) = {k..<fst (hd A) + RING_LENGTH}"
      by (simp add: takenOver_def nextNode_def Let_def)
    with Nil mod_image_wrap [of "fst (hd A)" k s] \<open>fst (hd A) < k\<close> assms(5,6) show ?thesis
      by simp
  next
    case (Cons b bs)
    then have "k < fst b" "fst b \<le> RING_LENGTH"
      using assms(2,3) by (auto simp: less_imp_le)
    with Cons d have "set (takenOver (A @ (k, c) # B) k) = {k..<fst b}"
      by (simp add: takenOver_def nextNode_def Let_def)
    with Cons mod_image_low [OF \<open>fst b \<le> RING_LENGTH\<close>, of s k] show ?thesis
      by simp
  qed
qed

lemma filter_le_split:
  assumes "\<forall>p \<in> set A. fst p < k" and "\<forall>p \<in> set B. (k :: nat) < fst p"
  shows "k \<le> s \<Longrightarrow> filter (\<lambda>p. fst p \<le> s) A = A" and "s \<le> k \<Longrightarrow> filter (\<lambda>p. fst p \<le> s) B = []"
  using assms by (fastforce simp: filter_id_conv filter_empty_conv)+

lemma sorted_hd_le: "sorted_wrt (<) (map fst ring) \<Longrightarrow> filter (\<lambda>p. fst p \<le> (s :: nat)) ring = [] \<longleftrightarrow> ring = [] \<or> s < fst (hd ring)"
  by (cases ring) (auto simp: filter_empty_conv)

lemma insert_owner:
  assumes ok: "ring_ok ring" and "ring \<noteq> []" and "k \<notin> fst ` set ring" and k: "k < RING_LENGTH" and s: "s < RING_LENGTH"
  shows "owner (map_insert k c ring) s =
      (if s \<in> (\<lambda>s. s mod RING_LENGTH) ` set (takenOver (map_insert k c ring) k) then c else owner ring s)" (is ?A)
    and "s \<in> (\<lambda>s. s mod RING_LENGTH) ` set (takenOver (map_insert k c ring) k) \<Longrightarrow> owner ring s = owner ring k" (is "?P \<Longrightarrow> ?B")
proof -
  obtain A B where ab: "ring = A @ B" "map_insert k c ring = A @ (k, c) # B" "\<forall>p \<in> set A. fst p < k" "\<forall>p \<in> set B. k < fst p"
    using map_insert_split ok assms(3) by (metis ring_ok_def)
  have ok': "ring_ok (A @ (k, c) # B)"
    using map_insert_ok(1) [OF ok assms(3) k, of c] by (simp add: ab(2))
  have so: "sorted_wrt (<) (map fst A)" "sorted_wrt (<) (map fst B)"
    using ok by (auto simp: ring_ok_def ab(1) sorted_wrt_append)
  have B: "\<forall>p \<in> set B. fst p < RING_LENGTH"
    using ok by (auto simp: ring_ok_def ab(1))
  have ne: "A @ B \<noteq> []"
    using assms(2) by (simp add: ab(1))
  note own = owner_filter [OF ok', of s] owner_filter [OF ok, of s] owner_filter [OF ok, of k]
    takenOver_split [OF ab(3,4) B ne k s, of c]
  note fl = filter_le_split [OF ab(3,4), of s] filter_le_split [OF ab(3,4), of k] sorted_hd_le [OF so(1), of s] sorted_hd_le [OF so(2), of s]
  show ?A
    unfolding ab(2) using own fl ne by (cases "k \<le> s"; cases "B = []") (auto simp: ab(1) last_append)
  show "?P \<Longrightarrow> ?B"
    unfolding ab(2) using own fl ne by (cases "k \<le> s"; cases "B = []") (auto simp: ab(1) last_append split: if_splits)
qed

lemma prevNode_owner:
  assumes ok: "ring_ok ring" and "ring \<noteq> []" and "k \<notin> fst ` set ring" and k: "k < RING_LENGTH"
  shows "snd (prevNode (map_insert k c ring) k) = owner ring k"
proof -
  obtain A B where ab: "ring = A @ B" "map_insert k c ring = A @ (k, c) # B" "\<forall>p \<in> set A. fst p < k" "\<forall>p \<in> set B. k < fst p"
    using map_insert_split ok assms(3) by (metis ring_ok_def)
  have "takeWhile (\<lambda>p. fst p < k) (A @ (k, c) # B) = A"
    using ab(3) by (simp add: takeWhile_append2)
  then have "prevNode (map_insert k c ring) k = last (if A = [] then A @ (k, c) # B else A)"
    unfolding ab(2) prevNode_def by (simp split: list.split)
  also have "\<dots> = last (if A = [] then B else A)"
    using assms(2) by (simp add: ab(1))
  finally have "prevNode (map_insert k c ring) k = last (if A = [] then B else A)" .
  moreover have "filter (\<lambda>p. fst p \<le> k) ring = A"
    using filter_le_split [OF ab(3,4), of k] by (simp add: ab(1))
  ultimately show ?thesis
    unfolding owner_filter [OF ok] using assms(2) by (auto simp: ab(1))
qed

section \<open>Adding and removing a cluster\<close>

lemma ring_has_room:
  assumes "ring_ok ring" and "length ring < RING_LENGTH"
  shows "\<exists>free < RING_LENGTH. free \<notin> fst ` set ring"
proof (rule ccontr)
  assume "\<not> (\<exists>free < RING_LENGTH. free \<notin> fst ` set ring)"
  then have "{..<RING_LENGTH} \<subseteq> fst ` set ring"
    by auto
  then have "RING_LENGTH \<le> card (fst ` set ring)"
    using card_mono [of "fst ` set ring" "{..<RING_LENGTH}"] by simp
  also have "\<dots> \<le> length ring"
    by (metis card_length length_map set_map)
  finally show False
    using assms(2) by simp
qed

lemma calcShard_ok:
  assumes "ring_ok (clusterRingMap h)" and "length (clusterRingMap h) < RING_LENGTH"
  shows "\<exists>s. calcShard mHashFunc key h = Some s \<and> s < RING_LENGTH \<and> s \<notin> fst ` set (clusterRingMap h)"
proof -
  have "unat (mHashFunc key) mod RING_LENGTH < RING_LENGTH"
    by (simp add: RING_LENGTH_def)
  with calcShardLoop_free ring_has_room [OF assms] show ?thesis
    unfolding calcShard_def by blast
qed

definition ringOf :: "(HashRing \<times> ShardMap option) \<Rightarrow> (ShardIdType \<times> ClusterIdType) list" where
  "ringOf hm = clusterRingMap (fst hm)"

lemma addLoop_ring:
  assumes "ring_ok (ringOf hm)" and "length (ringOf hm) + length is \<le> RING_LENGTH"
  shows "\<exists>hm'. addLoop mHashFunc clusterId is hm = Some hm' \<and> ring_ok (ringOf hm') \<and>
    length (ringOf hm') = length (ringOf hm) + length is \<and> virtualNodeCount (fst hm') = virtualNodeCount (fst hm) \<and>
    set (ringOf hm) \<subseteq> set (ringOf hm') \<and> (\<forall>p \<in> set (ringOf hm'). p \<in> set (ringOf hm) \<or> snd p = clusterId)"
  using assms
proof (induction "is" arbitrary: hm)
  case (Cons i "is")
  obtain h pMap where hm: "hm = (h, pMap)"
    by (cases hm)
  let ?r = "clusterRingMap h"
  have ok: "ring_ok ?r" "length ?r < RING_LENGTH"
    using Cons.prems by (simp_all add: hm ringOf_def)
  obtain k where k: "calcShard mHashFunc (buildKey clusterId i) h = Some k" "k < RING_LENGTH" "k \<notin> fst ` set ?r"
    using calcShard_ok [OF ok] by blast
  let ?r1 = "map_insert k clusterId ?r"
  let ?hm1 = "(h\<lparr>clusterRingMap := ?r1\<rparr>, if length ?r1 \<le> virtualNodeCount h then pMap else map_option (recordMoves clusterId k ?r1) pMap)"
  note ins = map_insert_ok [OF ok(1) k(3,2), of clusterId]
  have "ring_ok (ringOf ?hm1)" "length (ringOf ?hm1) + length is \<le> RING_LENGTH"
    using ins Cons.prems(2) by (simp_all add: hm ringOf_def)
  from Cons.IH [OF this] obtain hm' where "addLoop mHashFunc clusterId is ?hm1 = Some hm'" "ring_ok (ringOf hm')"
      "length (ringOf hm') = length ?r1 + length is" "virtualNodeCount (fst hm') = virtualNodeCount h"
      "set ?r1 \<subseteq> set (ringOf hm')" "\<forall>p \<in> set (ringOf hm'). p \<in> set ?r1 \<or> snd p = clusterId"
    by (auto simp: ringOf_def)
  with k(1) ins show ?case
    by (fastforce simp: hm ringOf_def Let_def)
qed auto

lemma shardsOf_fold: "shardsOf (fold (\<lambda>s. push_back c' (f s)) xs m) c = shardsOf m c @ (if c' = c then map f xs else [])"
  by (induction xs arbitrary: m) (auto simp: shardsOf_push)

lemma recordMoves_shards:
  "shardsOf (recordMoves clusterId k ring m) c =
    shardsOf m c @ (if snd (prevNode ring k) = c then map (\<lambda>s. s mod RING_LENGTH) (takenOver ring k) else [])"
  by (simp add: recordMoves_def takenOver_def shardsOf_fold shardsOf_touch Let_def)

text \<open>The moves that are recorded for a cluster are the shards that go from it to the new cluster.\<close>

definition movesOk ::
  "ClusterIdType \<Rightarrow> (ShardIdType \<times> ClusterIdType) list \<Rightarrow> ShardMap \<Rightarrow> (ShardIdType \<times> ClusterIdType) list \<Rightarrow> ShardMap \<Rightarrow> bool" where
  "movesOk clusterId ring m ring' m' =
     (\<forall>s < RING_LENGTH. owner ring' s \<in> {owner ring s, clusterId} \<and>
        (\<forall>c. c \<noteq> clusterId \<longrightarrow> (s \<in> set (shardsOf m' c)) = (s \<in> set (shardsOf m c) \<or> owner ring s = c \<and> owner ring' s = clusterId)))"

lemma movesOk_trans:
  assumes "movesOk clusterId r m r1 m1" and "movesOk clusterId r1 m1 r2 m2"
  shows "movesOk clusterId r m r2 m2"
  using assms unfolding movesOk_def by (smt (verit, best) empty_iff insert_iff)

lemma recordMoves_ok:
  assumes "ring_ok ring" and "ring \<noteq> []" and "k \<notin> fst ` set ring" and "k < RING_LENGTH" and "r1 = map_insert k clusterId ring"
  shows "movesOk clusterId ring m r1 (recordMoves clusterId k r1 m)"
  unfolding movesOk_def
proof (intro allI impI conjI)
  fix s
  assume s: "s < RING_LENGTH"
  note own = insert_owner [OF assms(1-4) s, of clusterId, folded assms(5)]
  show "owner r1 s \<in> {owner ring s, clusterId}"
    using own(1) by simp
  fix c
  assume c: "c \<noteq> clusterId"
  show "(s \<in> set (shardsOf (recordMoves clusterId k r1 m) c)) = (s \<in> set (shardsOf m c) \<or> owner ring s = c \<and> owner r1 s = clusterId)"
    using own c prevNode_owner [OF assms(1-4), of clusterId, folded assms(5)] by (auto simp: recordMoves_shards)
qed

lemma addLoop_moves:
  assumes "addLoop mHashFunc clusterId is (h, Some m) = Some (h', pm)" and "ring_ok (clusterRingMap h)" and "clusterRingMap h \<noteq> []"
    and "virtualNodeCount h \<le> length (clusterRingMap h)" and "length (clusterRingMap h) + length is \<le> RING_LENGTH"
  shows "\<exists>m'. pm = Some m' \<and> movesOk clusterId (clusterRingMap h) m (clusterRingMap h') m'"
  using assms
proof (induction "is" arbitrary: h m)
  case (Cons i "is")
  let ?r = "clusterRingMap h"
  have ok: "ring_ok ?r" "length ?r < RING_LENGTH"
    using Cons.prems by simp_all
  obtain k where k: "calcShard mHashFunc (buildKey clusterId i) h = Some k" "k < RING_LENGTH" "k \<notin> fst ` set ?r"
    using calcShard_ok [OF ok] by blast
  let ?r1 = "map_insert k clusterId ?r"
  note ins = map_insert_ok [OF ok(1) k(3,2), of clusterId]
  have "addLoop mHashFunc clusterId is (h\<lparr>clusterRingMap := ?r1\<rparr>, Some (recordMoves clusterId k ?r1 m)) = Some (h', pm)"
    using Cons.prems(1,4) k(1) ins(3) by (simp add: Let_def)
  from Cons.IH [OF this] Cons.prems ins obtain m' where
    m': "pm = Some m'" "movesOk clusterId ?r1 (recordMoves clusterId k ?r1 m) (clusterRingMap h') m'"
    by fastforce
  with movesOk_trans [OF recordMoves_ok [OF ok(1) Cons.prems(3) k(3,2) refl] m'(2)] show ?case
    by blast
qed (auto simp: movesOk_def)

lemma delete_owner:
  assumes ok: "ring_ok (clusterRingMap h)" and ne: "clusterRingMap h \<noteq> []" and keep: "owner (clusterRingMap h) s \<noteq> clusterId"
  shows "owner (clusterRingMap (deleteClusterId clusterId h)) s = owner (clusterRingMap h) s"
proof -
  let ?r = "clusterRingMap h" and ?keep = "\<lambda>p. snd p \<noteq> clusterId"
  have last: "last (filter ?keep xs) = last xs" "filter ?keep xs \<noteq> []" if "xs \<noteq> []" "?keep (last xs)" for xs :: "(nat \<times> nat) list"
    using that by (induction xs rule: rev_induct) (auto simp: filter_empty_conv)
  have ok': "ring_ok (filter ?keep ?r)"
    using ok by (auto simp: ring_ok_def sorted_wrt_map sorted_wrt_filter)
  let ?f = "filter (\<lambda>p. fst p \<le> s) ?r"
  have f: "filter (\<lambda>p. fst p \<le> s) (filter ?keep ?r) = filter ?keep ?f"
    by (simp add: conj_commute)
  show ?thesis
  proof (cases "?f = []")
    case True
    then show ?thesis
      using keep last(1) [OF ne] owner_filter [OF ok] owner_filter [OF ok'] f by (simp add: deleteClusterId_def)
  next
    case False
    then show ?thesis
      using keep last [OF False] owner_filter [OF ok] owner_filter [OF ok'] f by (simp add: deleteClusterId_def)
  qed
qed

end
