(* ===== verification/Ring_Properties.thy ===== *)
theory Ring_Properties
  imports Hash_Ring
begin

text \<open>
  What the object manager relies on when it asks the hash ring which cluster serves which shard: the
  table the ring gives is a partition, and adding or removing a cluster moves no shard between two
  other clusters.
\<close>

text \<open>The table of \<^verbatim>\<open>extractShardConfig\<close>, filled from an empty map.\<close>

abbreviation shardTable :: "HashRing \<Rightarrow> ClusterIdType \<Rightarrow> ShardIdType list" where
  "shardTable h \<equiv> shardsOf (extractShardConfig h Map.empty)"

lemma shardTable_eq:
  assumes "ring_ok (clusterRingMap h)" and "clusterRingMap h \<noteq> []"
  shows "set (shardTable h c) = {s. s < RING_LENGTH \<and> owner (clusterRingMap h) s = c}" and "distinct (shardTable h c)"
proof -
  obtain k0 c0 ps where r: "clusterRingMap h = (k0, c0) # ps"
    using assms(2) by (metis list.exhaust surj_pair)
  note e = extractShardConfig_owner [OF r assms(1), of c]
  show "set (shardTable h c) = {s. s < RING_LENGTH \<and> owner (clusterRingMap h) s = c}"
    unfolding e set_filter ring_walk(2) by auto
  show "distinct (shardTable h c)"
    unfolding e using ring_walk(1) by (rule distinct_filter)
qed

text \<open>C22: The shard table of a ring with a node assigns each of the 4096 shards to exactly one cluster, and
  lists it once.\<close>

theorem ring_partition:
  assumes "ring_ok (clusterRingMap h)" and "clusterRingMap h \<noteq> []"
  shows "(\<forall>s < RING_LENGTH. \<exists>!c. s \<in> set (shardsOf (extractShardConfig h Map.empty) c)) \<and>
    (\<forall>c. distinct (shardsOf (extractShardConfig h Map.empty) c) \<and>
         set (shardsOf (extractShardConfig h Map.empty) c) \<subseteq> {..<RING_LENGTH})"
  using shardTable_eq [OF assms] by auto

definition refRing :: HashRing where
  "refRing = \<lparr>clusterRingMap = [(1000, 1), (3000, 2)], virtualNodeCount = 1\<rparr>"

lemma refRing_ok: "ring_ok (clusterRingMap refRing)" "clusterRingMap refRing \<noteq> []"
  by (simp_all add: refRing_def ring_ok_def RING_LENGTH_def)

theorem ring_partition_witness:
  "\<exists>!c. 7 \<in> set (shardsOf (extractShardConfig refRing Map.empty) c)"
  using ring_partition [OF refRing_ok] by (simp add: RING_LENGTH_def)

text \<open>C23: Adding a cluster to a ring with room for its nodes returns, and keeps the order of the nodes. The
  table it records names, for every other cluster, exactly the shards that go from it to the new
  cluster; what that cluster keeps is the rest of its shards.\<close>

theorem addCluster_moves:
  assumes "ring_ok (clusterRingMap h)" and "clusterRingMap h \<noteq> []" and "virtualNodeCount h \<le> length (clusterRingMap h)"
    and "length (clusterRingMap h) + virtualNodeCount h \<le> RING_LENGTH"
  shows "\<exists>h' m'. addClusterId mHashFunc clusterId (Some Map.empty) h = Some (h', Some m') \<and> ring_ok (clusterRingMap h') \<and>
    (\<forall>c. c \<noteq> clusterId \<longrightarrow>
       set (shardsOf m' c) \<inter> {..<RING_LENGTH} =
         set (shardsOf (extractShardConfig h Map.empty) c) \<inter> set (shardsOf (extractShardConfig h' Map.empty) clusterId) \<and>
       set (shardsOf (extractShardConfig h' Map.empty) c) =
         set (shardsOf (extractShardConfig h Map.empty) c) - set (shardsOf m' c))"
proof -
  obtain h' pm where a: "addLoop mHashFunc clusterId [0..<virtualNodeCount h] (h, Some Map.empty) = Some (h', pm)"
      "ring_ok (clusterRingMap h')" "length (clusterRingMap h) \<le> length (clusterRingMap h')"
    using addLoop_ring [of "(h, Some Map.empty)" "[0..<virtualNodeCount h]" mHashFunc clusterId] assms
    by (auto simp: ringOf_def)
  from addLoop_moves [OF a(1) assms(1-3)] assms(4) obtain m' where
    m: "pm = Some m'" "movesOk clusterId (clusterRingMap h) Map.empty (clusterRingMap h') m'"
    by auto
  have "clusterRingMap h' \<noteq> []"
    using a(3) assms(2) by auto
  note t = shardTable_eq(1) [OF assms(1,2)] shardTable_eq(1) [OF a(2) this]
  have own: "owner (clusterRingMap h') s \<in> {owner (clusterRingMap h) s, clusterId}"
      "c \<noteq> clusterId \<Longrightarrow> s \<in> set (shardsOf m' c) \<longleftrightarrow> owner (clusterRingMap h) s = c \<and> owner (clusterRingMap h') s = clusterId"
    if "s < RING_LENGTH" for s c
    using m(2) that by (simp_all add: movesOk_def) (simp add: shardsOf_def)
  show ?thesis
    unfolding addClusterId_def using a m(1) own by (fastforce simp: t)
qed

theorem addCluster_moves_witness:
  "\<exists>h' m'. addClusterId (\<lambda>_. 2000) 3 (Some Map.empty) refRing = Some (h', Some m') \<and> ring_ok (clusterRingMap h')"
  using addCluster_moves [OF refRing_ok, of "\<lambda>_. 2000" 3] by (auto simp: refRing_def RING_LENGTH_def)

lemma owner_mem: "ring_ok ring \<Longrightarrow> ring \<noteq> [] \<Longrightarrow> owner ring s \<in> snd ` set ring"
  using last_in_set [of ring] last_in_set [of "filter (\<lambda>p. fst p \<le> s) ring"] by (auto simp: owner_filter)

text \<open>Removing a cluster leaves every other cluster the shards it has.\<close>

lemma deleteCluster_keeps:
  assumes "ring_ok (clusterRingMap h)" and "clusterRingMap h \<noteq> []" and "c \<noteq> clusterId"
  shows "set (shardsOf (extractShardConfig h Map.empty) c) \<subseteq>
         set (shardsOf (extractShardConfig (deleteClusterId clusterId h) Map.empty) c)"
proof
  fix s
  assume "s \<in> set (shardTable h c)"
  then have s: "s < RING_LENGTH" "owner (clusterRingMap h) s = c"
    by (simp_all add: shardTable_eq(1) [OF assms(1,2)])
  let ?h = "deleteClusterId clusterId h"
  have "ring_ok (clusterRingMap ?h)"
    using assms(1) by (auto simp: ring_ok_def deleteClusterId_def sorted_wrt_map sorted_wrt_filter)
  moreover have "clusterRingMap ?h \<noteq> []"
    using owner_mem [OF assms(1,2), of s] s(2) assms(3) by (auto simp: deleteClusterId_def filter_empty_conv)
  moreover have "owner (clusterRingMap ?h) s = c"
    using delete_owner [OF assms(1,2), of s clusterId] s(2) assms(3) by simp
  ultimately show "s \<in> set (shardTable ?h c)"
    using s(1) by (simp add: shardTable_eq(1))
qed

lemma deleteCluster_keeps_witness:
  "set (shardsOf (extractShardConfig refRing Map.empty) 2) \<subseteq>
   set (shardsOf (extractShardConfig (deleteClusterId 1 refRing) Map.empty) 2)"
  by (rule deleteCluster_keeps [OF refRing_ok]) simp

lemma ring_card: "ring_ok ring \<Longrightarrow> card (fst ` set ring) = length ring"
  using strict_sorted_iff [of "map fst ring"] by (simp add: ring_ok_def distinct_card flip: set_map)

lemma calcShardLoop_bound:
  assumes "calcShardLoop ring shard = Some s"
  shows "shard < RING_LENGTH \<longrightarrow> s < RING_LENGTH"
proof (rule calcShardLoop.raw_induct [OF _ assms])
  fix loop :: "(nat \<times> nat) list \<Rightarrow> nat \<Rightarrow> nat option" and ring' shard' s'
  assume ih: "\<And>ring shard s. loop ring shard = Some s \<Longrightarrow> shard < RING_LENGTH \<longrightarrow> s < RING_LENGTH"
    and *: "(if shard' \<in> fst ` set ring' then loop ring' ((shard' + 1) mod RING_LENGTH) else Some shard') = Some s'"
  have "(shard' + 1) mod RING_LENGTH < RING_LENGTH"
    by (simp add: RING_LENGTH_def)
  with ih * show "shard' < RING_LENGTH \<longrightarrow> s' < RING_LENGTH"
    by (metis option.inject)
qed

text \<open>C38: The search for a free shard returns as long as one shard is free, and never on a full ring.\<close>

theorem calcShard_returns_iff_room:
  assumes "ring_ok (clusterRingMap h)"
  shows "calcShard mHashFunc key h = None \<longleftrightarrow> length (clusterRingMap h) = RING_LENGTH"
proof
  assume "length (clusterRingMap h) = RING_LENGTH"
  then have "fst ` set (clusterRingMap h) = {..<RING_LENGTH}"
    using ring_card [OF assms] assms by (intro card_subset_eq) (auto simp: ring_ok_def)
  then show "calcShard mHashFunc key h = None"
    using calcShardLoop_full calcShardLoop_bound unfolding calcShard_def
    by (metis RING_LENGTH_def lessThan_iff mod_less_divisor not_None_eq zero_less_numeral)
next
  assume "calcShard mHashFunc key h = None"
  then have "\<not> length (clusterRingMap h) < RING_LENGTH"
    using calcShard_ok [OF assms, of mHashFunc key] by auto
  moreover have "card (fst ` set (clusterRingMap h)) \<le> card {..<RING_LENGTH}"
    using assms by (intro card_mono) (auto simp: ring_ok_def)
  ultimately show "length (clusterRingMap h) = RING_LENGTH"
    using ring_card [OF assms] by simp
qed

theorem calcShard_returns_iff_room_witness:
  "calcShard (\<lambda>_. 2000) ''3'' refRing \<noteq> None"
  using calcShard_returns_iff_room [OF refRing_ok(1)] by (simp add: refRing_def RING_LENGTH_def)

end
