(* ===== verification/Watch_Center.thy ===== *)
theory Watch_Center
  imports RocksDB_Store Events
begin

text \<open>
  \<^verbatim>\<open>object-store/watch\<close>: clients watch keys, and the observer of the RocksDB store queues every
  change of a watched key for each of them until the stream of the client fetches it. The locks of the
  class make each operation one step. The identifiers come from \<^verbatim>\<open>boost::uuids\<close> and are an
  argument of the registration.
\<close>

type_synonym WatchIdType = string

record WatchEntry =
  wt_key :: KeyType
  wt_value :: ValueType
  wt_version :: VersionType
  wt_recordVersion :: VersionType
  wt_exists :: bool

record WatchEntryWrap =
  mWatchId :: WatchIdType
  mEntries :: "WatchEntry list"

record WatchCenter =
  mKey2WatchEntryMap :: "KeyType \<Rightarrow> WatchEntryWrap list option"
  mWatchId2KeyMap :: "WatchIdType \<Rightarrow> KeyType list option"

definition newWatchCenter :: WatchCenter where
  "newWatchCenter = \<lparr>mKey2WatchEntryMap = Map.empty, mWatchId2KeyMap = Map.empty\<rparr>"

section \<open>One watched key\<close>

definition newWatchEntryWrap :: "WatchIdType \<Rightarrow> WatchEntryWrap" where
  "newWatchEntryWrap watchId = \<lparr>mWatchId = watchId, mEntries = []\<rparr>"

definition valueChange :: "KeyType \<Rightarrow> ValueType \<Rightarrow> VersionType \<Rightarrow> WatchEntryWrap \<Rightarrow> WatchEntryWrap" where
  "valueChange key v ver w = w\<lparr>mEntries := mEntries w @
     [\<lparr>wt_key = key, wt_value = v, wt_version = ver, wt_recordVersion = ver, wt_exists = True\<rparr>]\<rparr>"

definition keyDeleted :: "KeyType \<Rightarrow> VersionType \<Rightarrow> VersionType \<Rightarrow> WatchEntryWrap \<Rightarrow> WatchEntryWrap" where
  "keyDeleted key ver recordVersion w = w\<lparr>mEntries := mEntries w @
     [\<lparr>wt_key = key, wt_value = [], wt_version = ver, wt_recordVersion = recordVersion, wt_exists = False\<rparr>]\<rparr>"

definition purgeValueChange :: "WatchEntry list \<times> WatchEntryWrap \<Rightarrow> WatchEntry list \<times> WatchEntryWrap" where
  "purgeValueChange = (\<lambda>(vec, w). (vec @ mEntries w, w\<lparr>mEntries := []\<rparr>))"

section \<open>The center\<close>

text \<open>\<^verbatim>\<open>operator[]\<close> of the map of wraps: a missing key is entered with an empty vector.\<close>

definition wrapsOf :: "KeyType \<Rightarrow> WatchCenter \<Rightarrow> WatchEntryWrap list" where
  "wrapsOf key wc = (case mKey2WatchEntryMap wc key of None \<Rightarrow> [] | Some ws \<Rightarrow> ws)"

definition setWraps :: "KeyType \<Rightarrow> WatchEntryWrap list \<Rightarrow> WatchCenter \<Rightarrow> WatchCenter" where
  "setWraps key ws wc = wc\<lparr>mKey2WatchEntryMap := (mKey2WatchEntryMap wc)(key \<mapsto> ws)\<rparr>"

definition registerWatch :: "WatchIdType \<Rightarrow> KeyType list \<Rightarrow> WatchCenter \<Rightarrow> WatchCenter" where
  "registerWatch watchId keyVector wc =
     (let wc1 = fold (\<lambda>key c. setWraps key (wrapsOf key c @ [newWatchEntryWrap watchId]) c) keyVector wc
      in wc1\<lparr>mWatchId2KeyMap := (mWatchId2KeyMap wc1)(watchId \<mapsto> keyVector)\<rparr>)"

text \<open>The inner loop erases the first wrap with the identifier.\<close>

primrec eraseFirst :: "WatchIdType \<Rightarrow> WatchEntryWrap list \<Rightarrow> WatchEntryWrap list" where
  "eraseFirst watchId [] = []"
| "eraseFirst watchId (w # ws) = (if mWatchId w = watchId then ws else w # eraseFirst watchId ws)"

definition unRegisterKey :: "WatchIdType \<Rightarrow> KeyType \<Rightarrow> WatchCenter \<Rightarrow> WatchCenter" where
  "unRegisterKey watchId key wc =
     (let vec = eraseFirst watchId (wrapsOf key wc)
      in if vec = [] then wc\<lparr>mKey2WatchEntryMap := (mKey2WatchEntryMap wc)(key := None)\<rparr> else setWraps key vec wc)"

definition unRegisterWatch :: "WatchIdType \<Rightarrow> WatchCenter \<Rightarrow> bool \<times> WatchCenter" where
  "unRegisterWatch watchId wc = (case mWatchId2KeyMap wc watchId of
      None \<Rightarrow> (False, wc)
    | Some keys \<Rightarrow>
        let wc1 = fold (unRegisterKey watchId) keys wc
        in (True, wc1\<lparr>mWatchId2KeyMap := (mWatchId2KeyMap wc1)(watchId := None)\<rparr>))"

primrec purgeWraps :: "WatchIdType \<Rightarrow> WatchEntryWrap list \<Rightarrow> WatchEntry list \<Rightarrow> WatchEntry list \<times> WatchEntryWrap list" where
  "purgeWraps watchId [] vec = (vec, [])"
| "purgeWraps watchId (e # es) vec =
     (let (vec1, e1) = (if mWatchId e = watchId then purgeValueChange (vec, e) else (vec, e));
          (vec2, es1) = purgeWraps watchId es vec1
      in (vec2, e1 # es1))"

primrec purgeKeys :: "WatchIdType \<Rightarrow> KeyType list \<Rightarrow> WatchEntry list \<times> WatchCenter \<Rightarrow> WatchEntry list \<times> WatchCenter" where
  "purgeKeys watchId [] vc = vc"
| "purgeKeys watchId (key # keys) vc = (case vc of (vec, wc) \<Rightarrow>
     let (vec1, ws) = purgeWraps watchId (wrapsOf key wc) vec
     in purgeKeys watchId keys (vec1, setWraps key ws wc))"

definition purgeWatchValue :: "WatchIdType \<Rightarrow> WatchEntry list \<Rightarrow> WatchCenter \<Rightarrow> bool \<times> WatchEntry list \<times> WatchCenter" where
  "purgeWatchValue watchId vec wc = (case mWatchId2KeyMap wc watchId of
      None \<Rightarrow> (False, vec, wc)
    | Some keys \<Rightarrow> (True, purgeKeys watchId keys (vec, wc)))"

definition WC_onWriteValue :: "KeyType \<Rightarrow> ValueType \<Rightarrow> VersionType \<Rightarrow> WatchCenter \<Rightarrow> WatchCenter" where
  "WC_onWriteValue key v ver wc = (case mKey2WatchEntryMap wc key of
      None \<Rightarrow> wc
    | Some ws \<Rightarrow> setWraps key (map (valueChange key v ver) ws) wc)"

definition WC_onDeleteKey :: "KeyType \<Rightarrow> VersionType \<Rightarrow> VersionType \<Rightarrow> WatchCenter \<Rightarrow> WatchCenter" where
  "WC_onDeleteKey key ver deleteRecordVersion wc = (case mKey2WatchEntryMap wc key of
      None \<Rightarrow> wc
    | Some ws \<Rightarrow> setWraps key (map (keyDeleted key ver deleteRecordVersion) ws) wc)"

text \<open>\<^verbatim>\<open>WatchObserver\<close>: the other two callbacks assert.\<close>

fun WatchObserver_on :: "ObserverCall \<Rightarrow> WatchCenter \<Rightarrow> WatchCenter option" where
  "WatchObserver_on (OnWriteValue key v ver) wc = Some (WC_onWriteValue key v ver wc)"
| "WatchObserver_on (OnDeleteKey key ver deleteRecordVersion) wc = Some (WC_onDeleteKey key ver deleteRecordVersion wc)"
| "WatchObserver_on (OnReadValue key) wc = None"
| "WatchObserver_on (OnEvictKeys keys) wc = None"

section \<open>What a watcher waits for\<close>

text \<open>
  The abstract state: for each watch its keys, and for each of its keys the changes it has not fetched.
  A well-formed center keeps, for a key, one queue per watch of the key.
\<close>

definition WC_wf :: "WatchCenter \<Rightarrow> bool" where
  "WC_wf wc = (\<forall>k. distinct (map mWatchId (wrapsOf k wc)) \<and>
     (\<forall>i. i \<in> mWatchId ` set (wrapsOf k wc) \<longleftrightarrow> (\<exists>keys. mWatchId2KeyMap wc i = Some keys \<and> k \<in> set keys)) \<and>
     (\<forall>i keys. mWatchId2KeyMap wc i = Some keys \<longrightarrow> distinct keys))"

definition queueOf :: "WatchIdType \<Rightarrow> KeyType \<Rightarrow> WatchCenter \<Rightarrow> WatchEntry list" where
  "queueOf i k wc = concat (map mEntries (filter (\<lambda>w. mWatchId w = i) (wrapsOf k wc)))"

lemma wrapsOf_setWraps [simp]: "wrapsOf k' (setWraps k ws wc) = (if k' = k then ws else wrapsOf k' wc)"
  by (simp add: wrapsOf_def setWraps_def)

lemma wrapsOf_ids [simp]: "wrapsOf k (wc\<lparr>mWatchId2KeyMap := f\<rparr>) = wrapsOf k wc"
  by (simp add: wrapsOf_def)

lemma setWraps_ids [simp]: "mWatchId2KeyMap (setWraps k ws wc) = mWatchId2KeyMap wc"
  by (simp add: setWraps_def)

text \<open>The wraps of a key after each operation.\<close>

lemma registerWatch_ids [simp]:
  "mWatchId2KeyMap (registerWatch i keys wc) = (mWatchId2KeyMap wc)(i \<mapsto> keys)"
proof -
  have "mWatchId2KeyMap (fold (\<lambda>key c. setWraps key (wrapsOf key c @ [newWatchEntryWrap i]) c) ks c) = mWatchId2KeyMap c" for ks c
    by (induction ks arbitrary: c) simp_all
  then show ?thesis
    by (simp add: registerWatch_def Let_def)
qed

lemma registerWatch_wraps:
  assumes "distinct keys"
  shows "wrapsOf k (registerWatch i keys wc) = wrapsOf k wc @ (if k \<in> set keys then [newWatchEntryWrap i] else [])"
proof -
  have "wrapsOf k (fold (\<lambda>key c. setWraps key (wrapsOf key c @ [newWatchEntryWrap i]) c) keys c) =
      wrapsOf k c @ (if k \<in> set keys then [newWatchEntryWrap i] else [])" for c
    using assms by (induction keys arbitrary: c) auto
  then show ?thesis
    by (simp add: registerWatch_def Let_def)
qed

lemma unRegisterKey_wraps:
  "wrapsOf k (unRegisterKey i key wc) = (if k = key then eraseFirst i (wrapsOf k wc) else wrapsOf k wc)"
  "mWatchId2KeyMap (unRegisterKey i key wc) = mWatchId2KeyMap wc"
  by (auto simp: unRegisterKey_def wrapsOf_def setWraps_def Let_def)

lemma unRegisterWatch_effect:
  assumes "mWatchId2KeyMap wc i = Some keys" and "distinct keys"
  obtains wc' where "unRegisterWatch i wc = (True, wc')" "mWatchId2KeyMap wc' = (mWatchId2KeyMap wc)(i := None)"
    "\<And>k. wrapsOf k wc' = (if k \<in> set keys then eraseFirst i (wrapsOf k wc) else wrapsOf k wc)"
proof -
  have f: "wrapsOf k (fold (unRegisterKey i) keys c) = (if k \<in> set keys then eraseFirst i (wrapsOf k c) else wrapsOf k c)"
    "mWatchId2KeyMap (fold (unRegisterKey i) keys c) = mWatchId2KeyMap c" for k c
    using assms(2) by (induction keys arbitrary: c) (auto simp: unRegisterKey_wraps)
  show thesis
    by (rule that [of "(fold (unRegisterKey i) keys wc)\<lparr>mWatchId2KeyMap := (mWatchId2KeyMap wc)(i := None)\<rparr>"])
      (simp_all add: unRegisterWatch_def assms(1) f)
qed

lemma purgeWraps_eq:
  "purgeWraps i ws vec = (vec @ concat (map mEntries (filter (\<lambda>w. mWatchId w = i) ws)),
     map (\<lambda>w. if mWatchId w = i then w\<lparr>mEntries := []\<rparr> else w) ws)"
  by (induction ws arbitrary: vec) (auto simp: purgeValueChange_def)

lemma purgeKeys_effect:
  assumes "distinct keys"
  shows "fst (purgeKeys i keys (vec, wc)) = vec @ concat (map (\<lambda>k. queueOf i k wc) keys)"
    and "mWatchId2KeyMap (snd (purgeKeys i keys (vec, wc))) = mWatchId2KeyMap wc"
    and "wrapsOf k (snd (purgeKeys i keys (vec, wc))) =
      (if k \<in> set keys then map (\<lambda>w. if mWatchId w = i then w\<lparr>mEntries := []\<rparr> else w) (wrapsOf k wc) else wrapsOf k wc)"
  using assms
proof (induction keys arbitrary: vec wc)
  case (Cons key keys)
  {
    case 1
    then have "map (\<lambda>k. queueOf i k (setWraps key ws wc)) keys = map (\<lambda>k. queueOf i k wc) keys" for ws
      by (auto simp: queueOf_def)
    with 1 Cons.IH(1) show ?case
      by (simp add: purgeWraps_eq queueOf_def [of i key] cong: map_cong)
  next
    case 2
    with Cons.IH(2) show ?case
      by (simp add: purgeWraps_eq)
  next
    case 3
    with Cons.IH(3) show ?case
      by (auto simp: purgeWraps_eq)
  }
qed simp_all

lemma onWriteValue_effect:
  "wrapsOf k' (WC_onWriteValue k v ver wc) = (if k' = k then map (valueChange k v ver) (wrapsOf k wc) else wrapsOf k' wc)"
  "mWatchId2KeyMap (WC_onWriteValue k v ver wc) = mWatchId2KeyMap wc"
  by (auto simp: WC_onWriteValue_def wrapsOf_def setWraps_def split: option.splits)

lemma onDeleteKey_effect:
  "wrapsOf k' (WC_onDeleteKey k ver rv wc) = (if k' = k then map (keyDeleted k ver rv) (wrapsOf k wc) else wrapsOf k' wc)"
  "mWatchId2KeyMap (WC_onDeleteKey k ver rv wc) = mWatchId2KeyMap wc"
  by (auto simp: WC_onDeleteKey_def wrapsOf_def setWraps_def split: option.splits)

section \<open>The operations on the queues\<close>

lemma filter_other: "i \<notin> mWatchId ` set ws \<Longrightarrow> filter (\<lambda>w. mWatchId w \<noteq> i) ws = ws"
  by (induction ws) auto

lemma eraseFirst_distinct:
  "distinct (map mWatchId ws) \<Longrightarrow> eraseFirst i ws = filter (\<lambda>w. mWatchId w \<noteq> i) ws"
  by (induction ws) (auto simp: filter_other)

lemma WC_wf_ids:
  assumes "WC_wf wc" and "\<And>k. map mWatchId (wrapsOf k wc') = map mWatchId (wrapsOf k wc)"
    and "mWatchId2KeyMap wc' = mWatchId2KeyMap wc"
  shows "WC_wf wc'"
proof -
  have "mWatchId ` set (wrapsOf k wc') = mWatchId ` set (wrapsOf k wc)" for k
    using arg_cong [OF assms(2) [of k], of set] by simp
  with assms show ?thesis
    by (simp add: WC_wf_def)
qed

lemma filter_one:
  "distinct (map f ws) \<Longrightarrow> w \<in> set ws \<Longrightarrow> filter (\<lambda>x. f x = f w) ws = [w]"
  by (induction ws) (auto simp: filter_empty_conv image_iff)

lemma watched_filter:
  assumes "WC_wf wc" and "mWatchId2KeyMap wc i = Some keys"
  shows "k \<in> set keys \<Longrightarrow> \<exists>w. filter (\<lambda>w. mWatchId w = i) (wrapsOf k wc) = [w]"
    and "k \<notin> set keys \<Longrightarrow> filter (\<lambda>w. mWatchId w = i) (wrapsOf k wc) = []"
proof -
  have wf: "distinct (map mWatchId (wrapsOf k wc))" "i \<in> mWatchId ` set (wrapsOf k wc) \<longleftrightarrow> k \<in> set keys"
    using assms by (auto simp: WC_wf_def)
  show "\<exists>w. filter (\<lambda>w. mWatchId w = i) (wrapsOf k wc) = [w]" if "k \<in> set keys"
    using wf that filter_one [OF wf(1)] by auto
  show "filter (\<lambda>w. mWatchId w = i) (wrapsOf k wc) = []" if "k \<notin> set keys"
    using wf(2) that by (auto simp: filter_empty_conv)
qed

lemma filter_map_same:
  "(\<And>w. mWatchId (f w) = mWatchId w) \<Longrightarrow> filter (\<lambda>w. mWatchId w = i) (map f ws) = map f (filter (\<lambda>w. mWatchId w = i) ws)"
  by (simp add: filter_map comp_def)

text \<open>What a notification adds to the queue of a key.\<close>

fun noticed :: "KeyType \<Rightarrow> ObserverCall \<Rightarrow> WatchEntry list" where
  "noticed k (OnWriteValue key v ver) = (if key = k
     then [\<lparr>wt_key = key, wt_value = v, wt_version = ver, wt_recordVersion = ver, wt_exists = True\<rparr>] else [])"
| "noticed k (OnDeleteKey key ver recordVersion) = (if key = k
     then [\<lparr>wt_key = key, wt_value = [], wt_version = ver, wt_recordVersion = recordVersion, wt_exists = False\<rparr>] else [])"
| "noticed k _ = []"

lemma notified_queue:
  assumes "WC_wf wc" and "WatchObserver_on call wc = Some wc'"
  shows "WC_wf wc'" and "mWatchId2KeyMap wc' = mWatchId2KeyMap wc"
    and "mWatchId2KeyMap wc i = Some keys \<Longrightarrow> k \<in> set keys \<Longrightarrow> queueOf i k wc' = queueOf i k wc @ noticed k call"
proof -
  have ids: "mWatchId (valueChange k v ver w) = mWatchId w" "mWatchId (keyDeleted k ver rv w) = mWatchId w" for k v ver rv w
    by (simp_all add: valueChange_def keyDeleted_def)
  have comp: "mWatchId \<circ> valueChange k v ver = mWatchId" "mWatchId \<circ> keyDeleted k ver rv = mWatchId" for k v ver rv
    by (simp_all add: fun_eq_iff ids)
  show "WC_wf wc'" "mWatchId2KeyMap wc' = mWatchId2KeyMap wc"
    using assms(2) by (cases call; auto intro!: WC_wf_ids [OF assms(1)] simp: onWriteValue_effect onDeleteKey_effect comp)+
  assume i: "mWatchId2KeyMap wc i = Some keys" "k \<in> set keys"
  from watched_filter(1) [OF assms(1) this] obtain w where "filter (\<lambda>w. mWatchId w = i) (wrapsOf k wc) = [w]"
    by blast
  with assms(2) show "queueOf i k wc' = queueOf i k wc @ noticed k call"
    by (cases call) (auto simp: queueOf_def onWriteValue_effect onDeleteKey_effect filter_map_same ids valueChange_def keyDeleted_def)
qed

lemma registered_queue:
  assumes "WC_wf wc" and "mWatchId2KeyMap wc j = None" and "distinct keys"
  shows "WC_wf (registerWatch j keys wc)" and "queueOf j k (registerWatch j keys wc) = []"
    and "i \<noteq> j \<Longrightarrow> queueOf i k (registerWatch j keys wc) = queueOf i k wc"
proof -
  have new: "j \<notin> mWatchId ` set (wrapsOf k wc)" for k
    using assms(1,2) by (auto simp: WC_wf_def)
  show "WC_wf (registerWatch j keys wc)"
    using assms new unfolding WC_wf_def by (auto simp: registerWatch_wraps newWatchEntryWrap_def)
  have "filter (\<lambda>w. mWatchId w = j) (wrapsOf k wc) = []"
    using new [of k] by (auto simp: filter_empty_conv)
  then show "queueOf j k (registerWatch j keys wc) = []"
    by (simp add: queueOf_def registerWatch_wraps [OF assms(3)] newWatchEntryWrap_def)
  show "queueOf i k (registerWatch j keys wc) = queueOf i k wc" if "i \<noteq> j"
    using that by (simp add: queueOf_def registerWatch_wraps [OF assms(3)] newWatchEntryWrap_def)
qed

lemma unregistered_queue:
  assumes "WC_wf wc" and "unRegisterWatch j wc = (found, wc')"
  shows "WC_wf wc'" and "i \<noteq> j \<Longrightarrow> queueOf i k wc' = queueOf i k wc" and "mWatchId2KeyMap wc' = (mWatchId2KeyMap wc)(j := None)"
    and "found \<longleftrightarrow> mWatchId2KeyMap wc j \<noteq> None"
proof -
  have "WC_wf wc' \<and> (i \<noteq> j \<longrightarrow> queueOf i k wc' = queueOf i k wc) \<and> mWatchId2KeyMap wc' = (mWatchId2KeyMap wc)(j := None) \<and>
      (found \<longleftrightarrow> mWatchId2KeyMap wc j \<noteq> None)"
  proof (cases "mWatchId2KeyMap wc j")
    case None
    with assms show ?thesis
      by (auto simp: unRegisterWatch_def)
  next
    case (Some keys)
    with assms(1) have d: "distinct keys" "\<And>k. distinct (map mWatchId (wrapsOf k wc))"
      by (auto simp: WC_wf_def)
    have e: "mWatchId2KeyMap wc' = (mWatchId2KeyMap wc)(j := None)" "found"
      "wrapsOf k wc' = (if k \<in> set keys then filter (\<lambda>w. mWatchId w \<noteq> j) (wrapsOf k wc) else wrapsOf k wc)" for k
      using unRegisterWatch_effect [OF Some d(1)] assms(2) eraseFirst_distinct [OF d(2)] by (metis prod.inject)+
    have "j \<notin> mWatchId ` set (wrapsOf k wc)" if "k \<notin> set keys" for k
      using assms(1) Some that by (auto simp: WC_wf_def)
    with e have w: "wrapsOf k wc' = filter (\<lambda>w. mWatchId w \<noteq> j) (wrapsOf k wc)" for k
      by (simp add: filter_other)
    have "WC_wf wc'"
    proof -
      have "mWatchId ` set (wrapsOf k wc') = mWatchId ` set (wrapsOf k wc) - {j}" for k
        by (auto simp: w)
      with assms(1) show ?thesis
        unfolding WC_wf_def by (simp add: w e(1) distinct_map_filter)
    qed
    moreover have "i \<noteq> j \<longrightarrow> queueOf i k wc' = queueOf i k wc"
      by (auto simp: queueOf_def w intro!: arg_cong [where f = concat] arg_cong [where f = "map mEntries"] filter_cong)
    ultimately show ?thesis
      using e Some by simp
  qed
  then show "WC_wf wc'" "i \<noteq> j \<Longrightarrow> queueOf i k wc' = queueOf i k wc" "mWatchId2KeyMap wc' = (mWatchId2KeyMap wc)(j := None)"
      "found \<longleftrightarrow> mWatchId2KeyMap wc j \<noteq> None"
    by simp_all
qed

lemma purged_queue:
  assumes "WC_wf wc" and "purgeWatchValue j vec wc = (found, out, wc')"
  shows "WC_wf wc'" and "mWatchId2KeyMap wc' = mWatchId2KeyMap wc" and "i \<noteq> j \<Longrightarrow> queueOf i k wc' = queueOf i k wc"
    and "found \<longleftrightarrow> mWatchId2KeyMap wc j \<noteq> None"
    and "mWatchId2KeyMap wc j = Some keys \<Longrightarrow> out = vec @ concat (map (\<lambda>k. queueOf j k wc) keys)"
    and "mWatchId2KeyMap wc j = Some keys \<Longrightarrow> queueOf j k wc' = []"
proof -
  let ?f = "\<lambda>w. if mWatchId w = j then w\<lparr>mEntries := []\<rparr> else w"
  have "WC_wf wc' \<and> mWatchId2KeyMap wc' = mWatchId2KeyMap wc \<and> (i \<noteq> j \<longrightarrow> queueOf i k wc' = queueOf i k wc) \<and>
      (found \<longleftrightarrow> mWatchId2KeyMap wc j \<noteq> None) \<and>
      (\<forall>keys. mWatchId2KeyMap wc j = Some keys \<longrightarrow>
         out = vec @ concat (map (\<lambda>k. queueOf j k wc) keys) \<and> queueOf j k wc' = [])"
  proof (cases "mWatchId2KeyMap wc j")
    case None
    with assms show ?thesis
      by (auto simp: purgeWatchValue_def)
  next
    case (Some keys)
    then have d: "distinct keys"
      using assms(1) by (auto simp: WC_wf_def)
    have p: "found" "purgeKeys j keys (vec, wc) = (out, wc')"
      using assms(2) Some by (simp_all add: purgeWatchValue_def)
    note e = purgeKeys_effect [OF d, where i = j and vec = vec and wc = wc, unfolded p(2) fst_conv snd_conv]
    have ids: "mWatchId (?f w) = mWatchId w" for w
      by simp
    have "map mWatchId (map ?f ws) = map mWatchId ws" for ws
      by (simp add: comp_def)
    then have "WC_wf wc'"
      by (intro WC_wf_ids [OF assms(1)]) (simp_all add: e)
    moreover have "i \<noteq> j \<longrightarrow> queueOf i k wc' = queueOf i k wc"
      by (auto simp: queueOf_def e filter_map_same [OF ids] intro!: arg_cong [where f = concat])
    moreover have "queueOf j k wc' = []"
    proof (cases "k \<in> set keys")
      case True
      then show ?thesis
        by (simp add: queueOf_def e filter_map_same [OF ids])
    next
      case False
      then show ?thesis
        using watched_filter(2) [OF assms(1) Some] by (simp add: queueOf_def e)
    qed
    ultimately show ?thesis
      using Some p(1) e by simp
  qed
  then show "WC_wf wc'" "mWatchId2KeyMap wc' = mWatchId2KeyMap wc" "i \<noteq> j \<Longrightarrow> queueOf i k wc' = queueOf i k wc"
      "found \<longleftrightarrow> mWatchId2KeyMap wc j \<noteq> None"
      "mWatchId2KeyMap wc j = Some keys \<Longrightarrow> out = vec @ concat (map (\<lambda>k. queueOf j k wc) keys)"
      "mWatchId2KeyMap wc j = Some keys \<Longrightarrow> queueOf j k wc' = []"
    by simp_all
qed

section \<open>Any order of operations\<close>

text \<open>Registering needs a new identifier; the clients name a key once.\<close>

datatype WatchOp = WRegister WatchIdType "KeyType list" | WUnregister WatchIdType | WPurge WatchIdType | WNotify ObserverCall

inductive watch_step :: "WatchCenter \<Rightarrow> WatchOp \<Rightarrow> WatchCenter \<Rightarrow> bool" where
  registers: "mWatchId2KeyMap wc i = None \<Longrightarrow> distinct keys \<Longrightarrow> watch_step wc (WRegister i keys) (registerWatch i keys wc)"
| unregisters: "unRegisterWatch i wc = (found, wc') \<Longrightarrow> watch_step wc (WUnregister i) wc'"
| purges: "purgeWatchValue i [] wc = (found, out, wc') \<Longrightarrow> watch_step wc (WPurge i) wc'"
| notifies: "WatchObserver_on call wc = Some wc' \<Longrightarrow> watch_step wc (WNotify call) wc'"

inductive watch_run :: "WatchCenter \<Rightarrow> WatchOp list \<Rightarrow> WatchCenter \<Rightarrow> bool" where
  nothing: "watch_run wc [] wc"
| then_step: "watch_step wc op wc1 \<Longrightarrow> watch_run wc1 ops wc2 \<Longrightarrow> watch_run wc (op # ops) wc2"

inductive_cases watch_run_ConsE: "watch_run wc (op # ops) wc'"

fun touches :: "WatchIdType \<Rightarrow> WatchOp \<Rightarrow> bool" where
  "touches i (WRegister j _) = (i = j)"
| "touches i (WUnregister j) = (i = j)"
| "touches i (WPurge j) = (i = j)"
| "touches i (WNotify _) = False"

fun opChanges :: "KeyType \<Rightarrow> WatchOp \<Rightarrow> WatchEntry list" where
  "opChanges k (WNotify call) = noticed k call"
| "opChanges k _ = []"

lemma watch_step_queue:
  assumes "watch_step wc op wc'" and "WC_wf wc" and "\<not> touches i op" and "mWatchId2KeyMap wc i = Some keys"
  shows "WC_wf wc' \<and> mWatchId2KeyMap wc' i = Some keys \<and> (\<forall>k \<in> set keys. queueOf i k wc' = queueOf i k wc @ opChanges k op)"
  using assms
proof cases
  case (registers j ks)
  with registered_queue [OF assms(2), where j = j and keys = ks] assms(3,4) show ?thesis
    by simp
next
  case (unregisters j found)
  with unregistered_queue [OF assms(2), where j = j and found = found and wc' = wc'] assms(3,4) show ?thesis
    by simp
next
  case (purges j found out)
  with purged_queue [OF assms(2) purges(2)] assms(3,4) show ?thesis
    by simp
next
  case (notifies call)
  with notified_queue [OF assms(2), where call = call and wc' = wc'] assms(4) show ?thesis
    by simp
qed

lemma watch_run_queue:
  assumes "watch_run wc ops wc'" and "WC_wf wc" and "\<forall>op \<in> set ops. \<not> touches i op" and "mWatchId2KeyMap wc i = Some keys"
  shows "WC_wf wc' \<and> mWatchId2KeyMap wc' i = Some keys \<and>
    (\<forall>k \<in> set keys. queueOf i k wc' = queueOf i k wc @ concat (map (opChanges k) ops))"
  using assms
proof (induction rule: watch_run.induct)
  case (then_step wc op wc1 ops wc2)
  then show ?case
    using watch_step_queue [OF then_step.hyps(1) then_step.prems(1), of i keys] by simp
qed simp

end
