(* ===== verification/Cache_Eviction.thy ===== *)
theory Cache_Eviction
  imports Commands
begin

text \<open>
  \<^verbatim>\<open>kv-engine/strategy/CacheEviction\<close>: the observer of the leader's cache that keeps the keys in
  the order of their last use and submits commands that evict the least recently used ones. A node of
  the \<^verbatim>\<open>std::list\<close> has a number, which is what an iterator holds; using an iterator whose node is
  gone has no result. Sizes are 64-bit words. The proxy runs the callbacks one after another on one
  thread.
\<close>

record LRUEviction =
  mOptimal :: "64 word"
  mMinBatch :: nat
  mMaxBatch :: nat
  mCurUsage :: "64 word"
  mPendingEvictBatch :: "KeyType list"
  mUsed :: "(nat \<times> KeyType) list"
  mCacheMap :: "KeyType \<Rightarrow> (64 word \<times> nat) option"
  mFreshNode :: nat
  mCommandQueue :: "EvictCommand list"

definition kDefaultCapacity :: "64 word" where
  "kDefaultCapacity = 15 * 1024 * 1024 * 1024"

definition kDefaultOptimal :: "64 word" where
  "kDefaultOptimal = 10 * 1024 * 1024 * 1024"

definition kDefaultMinBatchToEvict :: nat where
  "kDefaultMinBatchToEvict = 100"

definition kDefaultMaxBatchToEvict :: nat where
  "kDefaultMaxBatchToEvict = 200"

definition newLRUEviction :: "64 word \<Rightarrow> 64 word \<Rightarrow> nat \<Rightarrow> nat \<Rightarrow> LRUEviction option" where
  "newLRUEviction capacity optimal minBatch maxBatch = do {
     assert (optimal \<le> capacity);
     Some \<lparr>mOptimal = optimal, mMinBatch = minBatch, mMaxBatch = maxBatch, mCurUsage = 0, mPendingEvictBatch = [],
       mUsed = [], mCacheMap = Map.empty, mFreshNode = 0, mCommandQueue = []\<rparr>
   }"

definition maybeSubmitEvictCommand :: "VersionType \<Rightarrow> LRUEviction \<Rightarrow> LRUEviction" where
  "maybeSubmitEvictCommand lastAppliedVersion l =
     (if mMinBatch l \<le> length (mPendingEvictBatch l)
      then l\<lparr>mCommandQueue := mCommandQueue l @ [\<lparr>mEvictKeys = mPendingEvictBatch l, mEvictVersion = lastAppliedVersion\<rparr>],
             mPendingEvictBatch := []\<rparr>
      else l)"

text \<open>\<^verbatim>\<open>push_front\<close> and \<^verbatim>\<open>erase\<close> of the list; moving the node of a tracked key to the
  front, with the size it is tracked with.\<close>

definition push_front :: "KeyType \<Rightarrow> 64 word \<Rightarrow> LRUEviction \<Rightarrow> LRUEviction" where
  "push_front key sz l = l\<lparr>mUsed := (mFreshNode l, key) # mUsed l, mCacheMap := (mCacheMap l)(key \<mapsto> (sz, mFreshNode l)),
     mFreshNode := mFreshNode l + 1\<rparr>"

definition eraseNode :: "nat \<Rightarrow> LRUEviction \<Rightarrow> LRUEviction option" where
  "eraseNode it l = do {
     assert (it \<in> fst ` set (mUsed l));
     Some (l\<lparr>mUsed := filter (\<lambda>p. fst p \<noteq> it) (mUsed l)\<rparr>)
   }"

definition LRU_onReadValue :: "KeyType \<Rightarrow> LRUEviction \<Rightarrow> LRUEviction option" where
  "LRU_onReadValue key l = (case mCacheMap l key of
      None \<Rightarrow> Some l
    | Some (sz, it) \<Rightarrow> do { l1 \<leftarrow> eraseNode it l; Some (push_front key sz l1) })"

text \<open>The eviction loop. \<^verbatim>\<open>mCacheMap[evictKey]\<close> of a key that is not there has size zero.\<close>

function evictLoop :: "LRUEviction \<Rightarrow> LRUEviction" where
  "evictLoop l =
     (if 0 < mCurUsage l \<and> mUsed l \<noteq> [] \<and> length (mPendingEvictBatch l) < mMaxBatch l then
        (let evictKey = snd (last (mUsed l));
             sz = (case mCacheMap l evictKey of None \<Rightarrow> 0 | Some (sz, _) \<Rightarrow> sz)
         in evictLoop (l\<lparr>mCacheMap := (mCacheMap l)(evictKey := None), mUsed := butlast (mUsed l),
              mPendingEvictBatch := std_set (evictKey # mPendingEvictBatch l), mCurUsage := mCurUsage l - sz\<rparr>))
      else l)"
  by pat_completeness auto
termination
  by (relation "measure (\<lambda>l. length (mUsed l))") auto

declare evictLoop.simps [simp del]

definition LRU_onWriteValue :: "VersionType \<Rightarrow> KeyType \<Rightarrow> 64 word \<Rightarrow> LRUEviction \<Rightarrow> LRUEviction option" where
  "LRU_onWriteValue lastAppliedVersion key valueSize l = do {
     let l0 = l\<lparr>mCurUsage := mCurUsage l + valueSize\<rparr>;
     l1 \<leftarrow> (case mCacheMap l0 key of
         Some (_, it) \<Rightarrow> do {
           l' \<leftarrow> eraseNode it l0;
           let l2 = push_front key valueSize l';
           Some (l2\<lparr>mCurUsage := mCurUsage l2 - valueSize\<rparr>)
         }
       | None \<Rightarrow> Some (push_front key valueSize l0));
     Some (if mOptimal l1 < mCurUsage l1 then maybeSubmitEvictCommand lastAppliedVersion (evictLoop l1) else l1)
   }"

text \<open>The callbacks of the observer; the one for a deleted key asserts.\<close>

fun CacheEviction_on :: "VersionType \<Rightarrow> ObserverCall \<Rightarrow> LRUEviction \<Rightarrow> LRUEviction option" where
  "CacheEviction_on ver (OnReadValue key) l = LRU_onReadValue key l"
| "CacheEviction_on ver (OnWriteValue key v _) l = LRU_onWriteValue ver key (of_nat (length v)) l"
| "CacheEviction_on ver (OnDeleteKey key _ _) l = None"
| "CacheEviction_on ver (OnEvictKeys keys) l = Some l"

section \<open>The list and the map agree\<close>

definition LRU_inv :: "LRUEviction \<Rightarrow> bool" where
  "LRU_inv l = (distinct (map fst (mUsed l)) \<and> distinct (map snd (mUsed l)) \<and>
     (\<forall>n k. (n, k) \<in> set (mUsed l) \<longleftrightarrow> (\<exists>sz. mCacheMap l k = Some (sz, n))) \<and> (\<forall>p \<in> set (mUsed l). fst p < mFreshNode l) \<and>
     length (mPendingEvictBatch l) \<le> mMaxBatch l \<and> distinct (mPendingEvictBatch l))"

text \<open>The keys in the order of their last use, the least recently used one last.\<close>

abbreviation recency :: "LRUEviction \<Rightarrow> KeyType list" where
  "recency l \<equiv> map snd (mUsed l)"

lemma LRU_tracked: "LRU_inv l \<Longrightarrow> mCacheMap l k \<noteq> None \<longleftrightarrow> k \<in> set (recency l)"
  unfolding LRU_inv_def by (force simp: image_iff)

lemma remove_node:
  assumes "distinct (map fst xs)" and "distinct (map snd xs)" and "(it, k) \<in> set xs"
  shows "map snd (filter (\<lambda>p. fst p \<noteq> it) xs) = remove1 k (map snd xs)"
  using assms
proof (induction xs)
  case (Cons x xs)
  show ?case
  proof (cases "x = (it, k)")
    case True
    then have "filter (\<lambda>p. fst p \<noteq> it) xs = xs"
      using Cons.prems(1) by (auto simp: filter_id_conv)
    with True show ?thesis
      by simp
  next
    case False
    with Cons.prems have "fst x \<noteq> it" "snd x \<noteq> k" "(it, k) \<in> set xs"
      by (auto simp: image_iff)
    with Cons show ?thesis
      by simp
  qed
qed simp

lemma push_front_inv:
  assumes "LRU_inv l" and "mUsed l1 = filter (\<lambda>p. snd p \<noteq> k) (mUsed l)" and "mCacheMap l1 = mCacheMap l"
    and "mFreshNode l1 = mFreshNode l" and "mPendingEvictBatch l1 = mPendingEvictBatch l" and "mMaxBatch l1 = mMaxBatch l"
  shows "LRU_inv (push_front k sz l1)"
proof -
  note inv = assms(1) [unfolded LRU_inv_def]
  have "mFreshNode l \<notin> fst ` set (mUsed l)"
    using inv by auto
  then show ?thesis
    using inv unfolding LRU_inv_def push_front_def
    by (auto simp: assms(2-6) distinct_map_filter image_iff less_Suc_eq split: if_splits)
qed

lemma LRU_move_front:
  assumes "LRU_inv l" and "mCacheMap l k = Some (sz0, it)"
  obtains l1 where "eraseNode it l = Some l1" "LRU_inv (push_front k sz l1)"
    "recency (push_front k sz l1) = k # remove1 k (recency l)" "mCurUsage l1 = mCurUsage l"
    "mPendingEvictBatch l1 = mPendingEvictBatch l" "mCommandQueue l1 = mCommandQueue l" "mOptimal l1 = mOptimal l"
proof -
  note inv = assms(1) [unfolded LRU_inv_def]
  have mem: "(it, k) \<in> set (mUsed l)"
    using inv assms(2) by blast
  let ?l1 = "l\<lparr>mUsed := filter (\<lambda>p. fst p \<noteq> it) (mUsed l)\<rparr>"
  have "fst p = it \<longleftrightarrow> snd p = k" if "p \<in> set (mUsed l)" for p
    using that mem inv by (metis eq_key_imp_eq_value distinct_map inj_on_eq_iff fst_conv snd_conv)
  then have same: "filter (\<lambda>p. fst p \<noteq> it) (mUsed l) = filter (\<lambda>p. snd p \<noteq> k) (mUsed l)"
    by (intro filter_cong) auto
  have "it \<in> fst ` set (mUsed l)"
    using mem by (metis fst_conv image_eqI)
  then have "eraseNode it l = Some ?l1"
    by (simp add: eraseNode_def)
  moreover have "LRU_inv (push_front k sz ?l1)"
    by (rule push_front_inv [OF assms(1)]) (simp_all add: same)
  moreover have "recency (push_front k sz ?l1) = k # remove1 k (recency l)"
    using remove_node [of "mUsed l" it k] inv mem by (simp add: push_front_def)
  ultimately show thesis
    using that by simp
qed

lemma LRU_new_front:
  assumes "LRU_inv l" and "mCacheMap l k = None"
  shows "LRU_inv (push_front k sz l)" and "recency (push_front k sz l) = k # recency l"
proof -
  have "filter (\<lambda>p. snd p \<noteq> k) (mUsed l) = mUsed l"
    using LRU_tracked [OF assms(1), of k] assms(2) by (auto simp: filter_id_conv image_iff)
  then show "LRU_inv (push_front k sz l)"
    using push_front_inv [OF assms(1), of l k] by simp
  show "recency (push_front k sz l) = k # recency l"
    by (simp add: push_front_def)
qed

text \<open>Keys that were handed over for eviction, submitted or about to be.\<close>

definition handedOver :: "LRUEviction \<Rightarrow> KeyType set" where
  "handedOver l = set (mPendingEvictBatch l) \<union> (\<Union>c \<in> set (mCommandQueue l). set (mEvictKeys c))"

lemma std_set_simps [simp]:
  "set (std_set xs) = set xs" "distinct (std_set xs)" "length (std_set xs) = card (set xs)"
  by (simp_all add: std_set_def)

lemma evictOne_inv:
  assumes "LRU_inv l" and "mUsed l = xs @ [(n, k)]" and "length (mPendingEvictBatch l) < mMaxBatch l"
  shows "LRU_inv (l\<lparr>mCacheMap := (mCacheMap l)(k := None), mUsed := xs,
    mPendingEvictBatch := std_set (k # mPendingEvictBatch l), mCurUsage := u\<rparr>)"
proof -
  have "card (set (k # mPendingEvictBatch l)) \<le> mMaxBatch l"
    using assms(3) card_length [of "k # mPendingEvictBatch l"] by simp
  moreover have "(m, k') \<in> set xs \<longleftrightarrow> (\<exists>sz. ((mCacheMap l)(k := None)) k' = Some (sz, m))" for m k'
  proof -
    have inv: "(m, k') \<in> set (mUsed l) \<longleftrightarrow> (\<exists>sz. mCacheMap l k' = Some (sz, m))" "k \<notin> snd ` set xs"
      using assms(1,2) by (auto simp: LRU_inv_def)
    then show ?thesis
      unfolding assms(2) by (cases "k' = k") (auto simp: image_iff)
  qed
  ultimately show ?thesis
    using assms(1,2) unfolding LRU_inv_def by simp
qed

lemma evictLoop_effect:
  assumes "LRU_inv l"
  shows "LRU_inv (evictLoop l) \<and> (\<exists>ev. recency l = recency (evictLoop l) @ ev \<and>
      set (mPendingEvictBatch (evictLoop l)) = set (mPendingEvictBatch l) \<union> set ev) \<and>
    mCommandQueue (evictLoop l) = mCommandQueue l"
  using assms
proof (induction l rule: evictLoop.induct)
  case (1 l)
  show ?case
  proof (cases "0 < mCurUsage l \<and> mUsed l \<noteq> [] \<and> length (mPendingEvictBatch l) < mMaxBatch l")
    case True
    then obtain n k xs where xs: "mUsed l = xs @ [(n, k)]"
      by (metis rev_exhaust surj_pair)
    define sz where "sz = (case mCacheMap l k of None \<Rightarrow> 0 | Some (sz, _) \<Rightarrow> sz)"
    let ?l = "l\<lparr>mCacheMap := (mCacheMap l)(k := None), mUsed := xs, mPendingEvictBatch := std_set (k # mPendingEvictBatch l),
      mCurUsage := mCurUsage l - sz\<rparr>"
    have step: "evictLoop l = evictLoop ?l"
      using True xs by (subst evictLoop.simps) (simp add: sz_def Let_def)
    have "LRU_inv ?l"
      using evictOne_inv [OF 1(2) xs] True by blast
    then have ih: "LRU_inv (evictLoop ?l) \<and> (\<exists>ev. recency ?l = recency (evictLoop ?l) @ ev \<and>
        set (mPendingEvictBatch (evictLoop ?l)) = set (mPendingEvictBatch ?l) \<union> set ev) \<and>
      mCommandQueue (evictLoop ?l) = mCommandQueue ?l"
      using 1(1) [OF True refl refl] xs by (simp add: sz_def)
    then obtain ev where ev: "recency ?l = recency (evictLoop ?l) @ ev"
        "set (mPendingEvictBatch (evictLoop ?l)) = set (mPendingEvictBatch ?l) \<union> set ev"
      by blast
    have "recency l = recency (evictLoop ?l) @ (ev @ [k])"
        "set (mPendingEvictBatch (evictLoop ?l)) = set (mPendingEvictBatch l) \<union> set (ev @ [k])"
      using ev xs by auto
    with ih show ?thesis
      unfolding step by simp
  next
    case False
    then have "evictLoop l = l"
      by (subst evictLoop.simps) auto
    with 1(2) show ?thesis
      by simp
  qed
qed

lemma maybeSubmit_effect:
  "LRU_inv l \<Longrightarrow> LRU_inv (maybeSubmitEvictCommand ver l)" "recency (maybeSubmitEvictCommand ver l) = recency l"
  "handedOver (maybeSubmitEvictCommand ver l) = handedOver l"
  by (auto simp: maybeSubmitEvictCommand_def LRU_inv_def handedOver_def)

text \<open>A read moves a tracked key to the front. A write moves or puts its key there; what it evicts are the
  keys at the end of the list.\<close>

lemma LRU_read:
  assumes "LRU_inv l"
  shows "\<exists>l'. LRU_onReadValue k l = Some l' \<and> LRU_inv l' \<and> handedOver l' = handedOver l \<and>
    recency l' = (if k \<in> set (recency l) then k # remove1 k (recency l) else recency l)"
proof (cases "mCacheMap l k")
  case None
  with LRU_tracked [OF assms, of k] assms show ?thesis
    by (auto simp: LRU_onReadValue_def)
next
  case (Some e)
  then obtain sz it where e: "mCacheMap l k = Some (sz, it)"
    by (cases e) simp
  from LRU_move_front [OF assms e, of sz] obtain l1 where l1: "eraseNode it l = Some l1" "LRU_inv (push_front k sz l1)"
    "recency (push_front k sz l1) = k # remove1 k (recency l)" "mPendingEvictBatch l1 = mPendingEvictBatch l"
    "mCommandQueue l1 = mCommandQueue l" .
  have "k \<in> set (recency l)"
    using LRU_tracked [OF assms, of k] e by simp
  with l1 e show ?thesis
    by (simp add: LRU_onReadValue_def handedOver_def push_front_def)
qed

lemma LRU_write:
  assumes "LRU_inv l"
  shows "\<exists>l' ev. LRU_onWriteValue ver k sz l = Some l' \<and> LRU_inv l' \<and> k # remove1 k (recency l) = recency l' @ ev \<and>
    handedOver l' = handedOver l \<union> set ev"
proof -
  let ?l0 = "l\<lparr>mCurUsage := mCurUsage l + sz\<rparr>"
  have inv0: "LRU_inv ?l0"
    using assms by (simp add: LRU_inv_def)
  obtain l1 where l1: "(case mCacheMap ?l0 k of
         Some (_, it) \<Rightarrow> do {
           l' \<leftarrow> eraseNode it ?l0;
           let l2 = push_front k sz l';
           Some (l2\<lparr>mCurUsage := mCurUsage l2 - sz\<rparr>)
         }
       | None \<Rightarrow> Some (push_front k sz ?l0)) = Some l1"
     "LRU_inv l1" "recency l1 = k # remove1 k (recency l)" "handedOver l1 = handedOver l"
  proof (cases "mCacheMap ?l0 k")
    case None
    have "k \<notin> set (recency l)"
      using LRU_tracked [OF assms, of k] None by simp
    then show thesis
      using that [of "push_front k sz ?l0"] LRU_new_front [OF inv0 None, of sz] None
      by (simp add: remove1_idem handedOver_def push_front_def)
  next
    case (Some e)
    then obtain s0 it where e: "mCacheMap ?l0 k = Some (s0, it)"
      by (cases e) simp
    from LRU_move_front [OF inv0 e, of sz] obtain l' where l': "eraseNode it ?l0 = Some l'" "LRU_inv (push_front k sz l')"
      "recency (push_front k sz l') = k # remove1 k (recency ?l0)" "mPendingEvictBatch l' = mPendingEvictBatch ?l0"
      "mCommandQueue l' = mCommandQueue ?l0" .
    have "LRU_inv ((push_front k sz l')\<lparr>mCurUsage := u\<rparr>)" for u
      using l'(2) by (simp add: LRU_inv_def)
    with l' e show thesis
      using that [of "(push_front k sz l')\<lparr>mCurUsage := mCurUsage (push_front k sz l') - sz\<rparr>"]
      by (simp add: Let_def handedOver_def push_front_def)
  qed
  let ?l' = "if mOptimal l1 < mCurUsage l1 then maybeSubmitEvictCommand ver (evictLoop l1) else l1"
  have "LRU_onWriteValue ver k sz l = Some ?l'"
    unfolding LRU_onWriteValue_def Let_def [of ?l0] by (simp only: l1(1) Option.bind.simps)
  moreover have "LRU_inv ?l' \<and> (\<exists>ev. recency l1 = recency ?l' @ ev \<and> handedOver ?l' = handedOver l1 \<union> set ev)"
    using evictLoop_effect [OF l1(2)] l1(2) by (auto simp: maybeSubmit_effect) (auto simp: handedOver_def)
  ultimately show ?thesis
    using l1(3,4) by metis
qed

section \<open>Runs of callbacks\<close>

primrec observe_all :: "VersionType \<Rightarrow> ObserverCall list \<Rightarrow> LRUEviction \<Rightarrow> LRUEviction option" where
  "observe_all ver [] l = Some l"
| "observe_all ver (call # calls) l = do { l1 \<leftarrow> CacheEviction_on ver call l; observe_all ver calls l1 }"

definition isDeleteCall :: "ObserverCall \<Rightarrow> bool" where
  "isDeleteCall call = (case call of OnDeleteKey _ _ _ \<Rightarrow> True | _ \<Rightarrow> False)"

definition writtenKeys :: "ObserverCall list \<Rightarrow> KeyType set" where
  "writtenKeys calls = {k. \<exists>v ver. OnWriteValue k v ver \<in> set calls}"

lemma observe_all_effect:
  assumes "LRU_inv l" and "\<forall>call \<in> set calls. \<not> isDeleteCall call"
  shows "\<exists>l'. observe_all ver calls l = Some l' \<and> LRU_inv l' \<and>
    set (recency l') \<union> handedOver l' = set (recency l) \<union> handedOver l \<union> writtenKeys calls"
  using assms
proof (induction calls arbitrary: l)
  case (Cons call calls)
  have "\<exists>l1. CacheEviction_on ver call l = Some l1 \<and> LRU_inv l1 \<and>
      set (recency l1) \<union> handedOver l1 = set (recency l) \<union> handedOver l \<union> writtenKeys [call]"
  proof (cases call)
    case (OnReadValue k)
    from LRU_read [OF Cons.prems(1), of k] obtain l1 where l1: "LRU_onReadValue k l = Some l1" "LRU_inv l1"
        "handedOver l1 = handedOver l" "recency l1 = (if k \<in> set (recency l) then k # remove1 k (recency l) else recency l)"
      by blast
    have "distinct (recency l)"
      using Cons.prems(1) by (simp add: LRU_inv_def)
    then have "set (recency l1) = set (recency l)"
      using l1(4) by (auto simp: set_remove1_eq simp del: set_map)
    with l1(1-3) OnReadValue show ?thesis
      by (simp add: writtenKeys_def)
  next
    case (OnWriteValue k v w)
    from LRU_write [OF Cons.prems(1), of ver k "of_nat (length v)"] obtain l1 ev where
      "LRU_onWriteValue ver k (of_nat (length v)) l = Some l1" "LRU_inv l1" "k # remove1 k (recency l) = recency l1 @ ev"
      "handedOver l1 = handedOver l \<union> set ev"
      by blast
    moreover have "insert k (set (recency l)) = set (recency l1) \<union> set ev"
      using arg_cong [OF calculation(3), of set] Cons.prems(1) by (auto simp: LRU_inv_def set_remove1_eq)
    ultimately show ?thesis
      using OnWriteValue by (auto simp: writtenKeys_def)
  next
    case (OnEvictKeys ks)
    with Cons.prems(1) show ?thesis
      by (simp add: writtenKeys_def)
  qed (use Cons.prems(2) in \<open>simp add: isDeleteCall_def\<close>)
  then obtain l1 where l1: "CacheEviction_on ver call l = Some l1" "LRU_inv l1"
      "set (recency l1) \<union> handedOver l1 = set (recency l) \<union> handedOver l \<union> writtenKeys [call]"
    by blast
  have "writtenKeys (call # calls) = writtenKeys [call] \<union> writtenKeys calls"
    by (auto simp: writtenKeys_def)
  with Cons.IH [OF l1(2)] Cons.prems(2) l1 show ?case
    by auto
qed (simp add: writtenKeys_def)

end
