(* ===== verification/Route_Messages.thy ===== *)
theory Route_Messages
  imports Messages
begin

text \<open>
  The messages of \<^verbatim>\<open>protocols/common.proto\<close> that describe clusters, routes and migrations. A
  repeated field is a list; a server address is its host name, of the form \<^verbatim>\<open>id@ip:port\<close>.
\<close>

datatype ClusterStatus = CS_INIT | CS_IN_SERVICE | CS_EXPORTING | CS_IMPORTING | CS_OUT_OF_SERVICE

type_synonym ClusterAddress = "string list"

record ClusterInfo =
  ci_addr :: ClusterAddress
  ci_status :: ClusterStatus

record ClusterSetGlobalInfo =
  gi_routeVersion :: "64 word"
  gi_clusterIds :: "32 word list"
  gi_currentMaxMigrationTaskId :: "64 word"
  gi_migrationTaskIds :: "64 word list"

datatype MigrationStatus = MS_NOT_START | MS_PREPARED | MS_RUNNING | MS_SUCCEEDED | MS_FAILED

datatype MigrationShardStatus = SS_INITED | SS_SCANNING | SS_EXPORTING | SS_MIGRATED | SS_STOPPED

record MigrationTask =
  mt_taskId :: "64 word"
  mt_sourceCluster :: ClusterAddress
  mt_targetCluster :: ClusterAddress
  mt_migrateShards :: "(nat \<times> MigrationShardStatus) list"
  mt_overallStatus :: MigrationStatus

record MigrationEvent =
  me_shard :: "nat \<times> MigrationShardStatus"
  me_message :: string

record MigrationProgress =
  mp_taskId :: "64 word"
  mp_events :: "MigrationEvent list"
  mp_overallStatus :: MigrationStatus

text \<open>An open enumeration: a value the server does not know is kept as its number.\<close>

datatype PartitionStrategy = HASH_MOD | UnknownStrategy int

datatype PlacementStrategy = CONSIST_HASHING | UnknownPlacement int

record RouteInfo =
  ri_version :: "64 word"
  ri_partitionStrategy :: PartitionStrategy
  ri_allShards :: "nat list"
  ri_placementStrategy :: PlacementStrategy
  ri_placementMap :: "(ClusterAddress \<times> nat list) list"
  ri_allClusters :: "ClusterAddress list"

definition emptyRouteInfo :: RouteInfo where
  "emptyRouteInfo = \<lparr>ri_version = 0, ri_partitionStrategy = HASH_MOD, ri_allShards = [], ri_placementStrategy = CONSIST_HASHING,
     ri_placementMap = [], ri_allClusters = []\<rparr>"

definition emptyMigrationTask :: MigrationTask where
  "emptyMigrationTask = \<lparr>mt_taskId = 0, mt_sourceCluster = [], mt_targetCluster = [], mt_migrateShards = [],
     mt_overallStatus = MS_NOT_START\<rparr>"

end
