(* ===== verification/Thread_Pool.thy ===== *)
theory Thread_Pool
  imports Goblin_Prelude
begin

text \<open>
  \<^verbatim>\<open>object-store/utils/ThreadPoolService\<close>: a queue of tasks with flags, some threads that claim
  and run tasks, and one that takes finished tasks off the front. Each access to the queue is under its
  lock or is one compare-and-exchange, and is one step of the model; a task is known by its number.
\<close>

type_synonym TaskID = nat

datatype TaskFlag = Initial | Doing | Finished

record 't PoolTask =
  mTaskID :: TaskID
  flag :: TaskFlag
  payload :: 't

record 't ThreadPoolService =
  mTaskQueue :: "'t PoolTask list"
  mPendingReplyQueueSize :: nat
  mMaxTaskID :: TaskID

definition newThreadPoolService :: "'t ThreadPoolService" where
  "newThreadPoolService = \<lparr>mTaskQueue = [], mPendingReplyQueueSize = 0, mMaxTaskID = 0\<rparr>"

definition allocateNewTaskID :: "'t ThreadPoolService \<Rightarrow> TaskID \<times> 't ThreadPoolService" where
  "allocateNewTaskID p = (mMaxTaskID p, p\<lparr>mMaxTaskID := mMaxTaskID p + 1\<rparr>)"

definition submit :: "TaskID \<Rightarrow> 't \<Rightarrow> 't ThreadPoolService \<Rightarrow> 't ThreadPoolService" where
  "submit i t p = p\<lparr>mPendingReplyQueueSize := mPendingReplyQueueSize p + 1,
     mTaskQueue := mTaskQueue p @ [\<lparr>mTaskID = i, flag = Initial, payload = t\<rparr>]\<rparr>"

text \<open>One turn of the thread that takes off finished tasks.\<close>

definition popThreadMain :: "'t ThreadPoolService \<Rightarrow> 't ThreadPoolService" where
  "popThreadMain p = (case mTaskQueue p of
      t # ts \<Rightarrow> if flag t = Finished then p\<lparr>mTaskQueue := ts, mPendingReplyQueueSize := mPendingReplyQueueSize p - 1\<rparr> else p
    | [] \<Rightarrow> p)"

text \<open>A turn of an executing thread: it claims the first task that nobody has claimed, runs it, and marks it
  as finished.\<close>

primrec claimFirst :: "'t PoolTask list \<Rightarrow> ('t PoolTask \<times> 't PoolTask list) option" where
  "claimFirst [] = None"
| "claimFirst (t # ts) = (if flag t = Initial then Some (t, t\<lparr>flag := Doing\<rparr> # ts)
     else map_option (\<lambda>(c, ts'). (c, t # ts')) (claimFirst ts))"

definition executeClaim :: "'t ThreadPoolService \<Rightarrow> ('t PoolTask \<times> 't ThreadPoolService) option" where
  "executeClaim p = map_option (\<lambda>(t, ts). (t, p\<lparr>mTaskQueue := ts\<rparr>)) (claimFirst (mTaskQueue p))"

definition executeRelease :: "TaskID \<Rightarrow> 't ThreadPoolService \<Rightarrow> 't ThreadPoolService" where
  "executeRelease i p = p\<lparr>mTaskQueue := map (\<lambda>t. if mTaskID t = i then t\<lparr>flag := Finished\<rparr> else t) (mTaskQueue p)\<rparr>"

section \<open>Any number of threads\<close>

text \<open>
  The pool with its history: the tasks in the order they were submitted, and in the order they were
  started. A thread releases a task it has claimed.
\<close>

inductive pool_step ::
  "'t ThreadPoolService \<times> TaskID list \<times> TaskID list \<Rightarrow> 't ThreadPoolService \<times> TaskID list \<times> TaskID list \<Rightarrow> bool" where
  submits: "allocateNewTaskID p = (i, p1) \<Longrightarrow> pool_step (p, sub, st) (submit i t p1, sub @ [i], st)"
| pops: "pool_step (p, sub, st) (popThreadMain p, sub, st)"
| claims: "executeClaim p = Some (t, p1) \<Longrightarrow> pool_step (p, sub, st) (p1, sub, st @ [mTaskID t])"
| releases: "t \<in> set (mTaskQueue p) \<Longrightarrow> flag t = Doing \<Longrightarrow> pool_step (p, sub, st) (executeRelease (mTaskID t) p, sub, st)"

abbreviation pool_steps where
  "pool_steps \<equiv> pool_step\<^sup>*\<^sup>*"

text \<open>The claimed tasks are a prefix of the queue, and the queue is the end of what was submitted.\<close>

definition pool_inv :: "'t ThreadPoolService \<times> TaskID list \<times> TaskID list \<Rightarrow> bool" where
  "pool_inv = (\<lambda>(p, sub, st). distinct sub \<and> (\<forall>i \<in> set sub. i < mMaxTaskID p) \<and> mPendingReplyQueueSize p = length (mTaskQueue p) \<and>
     (\<exists>gone claimed waiting. sub = gone @ map mTaskID claimed @ map mTaskID waiting \<and> mTaskQueue p = claimed @ waiting \<and>
        st = gone @ map mTaskID claimed \<and> (\<forall>t \<in> set claimed. flag t \<noteq> Initial) \<and> (\<forall>t \<in> set waiting. flag t = Initial)))"

lemma claimFirst_split:
  assumes "\<forall>t \<in> set claimed. flag t \<noteq> Initial" and "\<forall>t \<in> set waiting. flag t = Initial"
  shows "claimFirst (claimed @ waiting) =
    (case waiting of [] \<Rightarrow> None | t # ts \<Rightarrow> Some (t, claimed @ t\<lparr>flag := Doing\<rparr> # ts))"
  using assms by (induction claimed) (auto split: list.split)

lemma pool_step_inv:
  assumes "pool_step s s'" and "pool_inv s"
  shows "pool_inv s'"
  using assms
proof (induction rule: pool_step.induct)
  case (submits p i p1 sub st t)
  then obtain gone claimed waiting where *: "sub = gone @ map mTaskID claimed @ map mTaskID waiting"
      "mTaskQueue p = claimed @ waiting" "st = gone @ map mTaskID claimed" "\<forall>t \<in> set claimed. flag t \<noteq> Initial"
      "\<forall>t \<in> set waiting. flag t = Initial"
    by (auto simp: pool_inv_def)
  have "\<exists>g c w. sub @ [i] = g @ map mTaskID c @ map mTaskID w \<and> mTaskQueue (submit i t p1) = c @ w \<and>
      st = g @ map mTaskID c \<and> (\<forall>t \<in> set c. flag t \<noteq> Initial) \<and> (\<forall>t \<in> set w. flag t = Initial)"
    using submits(1) * by (intro exI [of _ gone] exI [of _ claimed] exI [of _ "waiting @ [\<lparr>mTaskID = i, flag = Initial, payload = t\<rparr>]"])
      (auto simp: submit_def allocateNewTaskID_def)
  moreover have "distinct (sub @ [i])" "\<forall>j \<in> set (sub @ [i]). j < mMaxTaskID (submit i t p1)"
      "mPendingReplyQueueSize (submit i t p1) = length (mTaskQueue (submit i t p1))"
    using submits by (auto simp: pool_inv_def submit_def allocateNewTaskID_def)
  ultimately show ?case
    by (simp add: pool_inv_def)
next
  case (pops p sub st)
  show ?case
  proof (cases "\<exists>t ts. mTaskQueue p = t # ts \<and> flag t = Finished")
    case True
    then obtain t ts where t: "mTaskQueue p = t # ts" "flag t = Finished"
      by blast
    from pops obtain gone claimed waiting where *: "sub = gone @ map mTaskID claimed @ map mTaskID waiting"
        "mTaskQueue p = claimed @ waiting" "st = gone @ map mTaskID claimed" "\<forall>t \<in> set claimed. flag t \<noteq> Initial"
        "\<forall>t \<in> set waiting. flag t = Initial"
      by (auto simp: pool_inv_def)
    then obtain c where c: "claimed = t # c"
      using t by (cases claimed) auto
    then have "\<exists>g c w. sub = g @ map mTaskID c @ map mTaskID w \<and> ts = c @ w \<and>
        st = g @ map mTaskID c \<and> (\<forall>t \<in> set c. flag t \<noteq> Initial) \<and> (\<forall>t \<in> set w. flag t = Initial)"
      using * t by (intro exI [of _ "gone @ [mTaskID t]"] exI [of _ c] exI [of _ waiting]) auto
    with pops t show ?thesis
      by (simp add: pool_inv_def popThreadMain_def)
  next
    case False
    then have "popThreadMain p = p"
      by (auto simp: popThreadMain_def split: list.split)
    with pops show ?thesis
      by simp
  qed
next
  case (claims p t p1 sub st)
  then obtain gone claimed waiting where *: "sub = gone @ map mTaskID claimed @ map mTaskID waiting"
      "mTaskQueue p = claimed @ waiting" "st = gone @ map mTaskID claimed" "\<forall>t \<in> set claimed. flag t \<noteq> Initial"
      "\<forall>t \<in> set waiting. flag t = Initial"
    by (auto simp: pool_inv_def)
  then obtain ts where w: "waiting = t # ts" "p1 = p\<lparr>mTaskQueue := claimed @ t\<lparr>flag := Doing\<rparr> # ts\<rparr>"
    using claims(1) claimFirst_split [of claimed waiting] by (auto simp: executeClaim_def split: list.splits)
  have "\<exists>g c w. sub = g @ map mTaskID c @ map mTaskID w \<and> mTaskQueue p1 = c @ w \<and>
      st @ [mTaskID t] = g @ map mTaskID c \<and> (\<forall>t \<in> set c. flag t \<noteq> Initial) \<and> (\<forall>t \<in> set w. flag t = Initial)"
    using * w by (intro exI [of _ gone] exI [of _ "claimed @ [t\<lparr>flag := Doing\<rparr>]"] exI [of _ ts]) auto
  then show ?case
    using claims(2) * w by (simp add: pool_inv_def)
next
  case (releases t p sub st)
  then obtain gone claimed waiting where *: "sub = gone @ map mTaskID claimed @ map mTaskID waiting"
      "mTaskQueue p = claimed @ waiting" "st = gone @ map mTaskID claimed" "\<forall>t \<in> set claimed. flag t \<noteq> Initial"
      "\<forall>t \<in> set waiting. flag t = Initial"
    by (auto simp: pool_inv_def)
  let ?f = "\<lambda>x. if mTaskID x = mTaskID t then x\<lparr>flag := Finished\<rparr> else x"
  have "t \<in> set claimed"
    using releases(1,2) * by auto
  moreover have "distinct (map mTaskID claimed @ map mTaskID waiting)"
    using releases(3) * by (simp add: pool_inv_def)
  ultimately have "\<forall>x \<in> set waiting. mTaskID x \<noteq> mTaskID t"
    by (auto simp: image_iff)
  then have "map ?f waiting = waiting"
    by (simp add: map_idI)
  moreover have "mTaskID \<circ> ?f = mTaskID"
    by (auto simp: fun_eq_iff)
  ultimately have "\<exists>g c w. sub = g @ map mTaskID c @ map mTaskID w \<and> map ?f (mTaskQueue p) = c @ w \<and>
      st = g @ map mTaskID c \<and> (\<forall>t \<in> set c. flag t \<noteq> Initial) \<and> (\<forall>t \<in> set w. flag t = Initial)"
    using * by (intro exI [of _ gone] exI [of _ "map ?f claimed"] exI [of _ waiting]) auto
  with releases(3) show ?case
    by (simp add: pool_inv_def executeRelease_def)
qed

lemma pool_steps_inv: "pool_steps s s' \<Longrightarrow> pool_inv s \<Longrightarrow> pool_inv s'"
  by (induction rule: rtranclp_induct) (auto intro: pool_step_inv)

lemma newThreadPool_inv: "pool_inv (newThreadPoolService, [], [])"
  by (auto simp: pool_inv_def newThreadPoolService_def)

end
