(* ===== verification/Migration_Manager.thy ===== *)
theory Migration_Manager
  imports Route_Messages Thread_Pool Str_Util "HOL-Library.Multiset"
begin

text \<open>
  \<^verbatim>\<open>object-store/migration/MigrationManager\<close>: the shards of a migration are scanned working set by
  working set; each batch that a scan delivers is exported by a task of its own, and the keys that
  could not be deleted afterwards are scanned again. What the engine and the other cluster answer is an
  argument of the operation that waits for it.
\<close>

text \<open>A scanned key with its value and two numbers. The scan fills in the time to live and the version, in
  this order; the response is declared with the version before the time to live, so that the version is
  kept in 32 bits.\<close>

type_synonym ScannedKey = "KeyType \<times> ValueType \<times> VersionType \<times> TTLType"

definition kWorkingSetFactor :: nat where
  "kWorkingSetFactor = 4"

definition kWorkingSetNamePrefix :: string where
  "kWorkingSetNamePrefix = ''cf_for_app''"

definition shardIdToColumnFamily :: "string \<Rightarrow> nat \<Rightarrow> nat \<Rightarrow> WSName" where
  "shardIdToColumnFamily prefixCFName shardId factor = prefixCFName @ to_string (shardId mod 2 ^ factor)"

section \<open>Tasks and shards\<close>

text \<open>A task of the thread pool: a scan of a working set, of all keys or of some, or the export of a batch.\<close>

datatype MigrationWork =
    ScanTask WSName "nat list" "KeyType list"
  | ExportTask WSName "nat list" "ScannedKey list"

record MigratingShardInfo =
  mShardId :: nat
  mScanTasks :: "TaskID set"
  mExportTasks :: "TaskID set"

definition newMigratingShardInfo :: "nat \<Rightarrow> MigratingShardInfo" where
  "newMigratingShardInfo shardId = \<lparr>mShardId = shardId, mScanTasks = {}, mExportTasks = {}\<rparr>"

definition addScanTask :: "TaskID \<Rightarrow> MigratingShardInfo \<Rightarrow> MigratingShardInfo" where
  "addScanTask i info = info\<lparr>mScanTasks := insert i (mScanTasks info)\<rparr>"

definition addExportTask :: "TaskID \<Rightarrow> MigratingShardInfo \<Rightarrow> MigratingShardInfo" where
  "addExportTask i info = info\<lparr>mExportTasks := insert i (mExportTasks info)\<rparr>"

definition shard_markScanTaskDone :: "TaskID \<Rightarrow> MigratingShardInfo \<Rightarrow> MigratingShardInfo" where
  "shard_markScanTaskDone i info = info\<lparr>mScanTasks := mScanTasks info - {i}\<rparr>"

definition shard_markExportTaskDone :: "TaskID \<Rightarrow> MigratingShardInfo \<Rightarrow> MigratingShardInfo" where
  "shard_markExportTaskDone i info = info\<lparr>mExportTasks := mExportTasks info - {i}\<rparr>"

definition isDone :: "MigratingShardInfo \<Rightarrow> bool" where
  "isDone info = (mScanTasks info = {} \<and> mExportTasks info = {})"

definition getProgressEvent :: "MigratingShardInfo \<Rightarrow> MigrationEvent" where
  "getProgressEvent info =
     \<lparr>me_shard = (mShardId info,
        if card (mExportTasks info) \<noteq> 0 then SS_EXPORTING
        else if card (mScanTasks info) \<noteq> 0 then SS_SCANNING else SS_MIGRATED),
      me_message = ''remaining scan: '' @ to_string (card (mScanTasks info)) @ '', remaining export: '' @
        to_string (card (mExportTasks info))\<rparr>"

section \<open>The manager\<close>

text \<open>\<open>mm_scanning\<close> are the scan tasks whose command the engine is executing, \<open>mm_reports\<close> is what
  the reporter has been called with.\<close>

record MigrationManager =
  mMigrationTaskID :: "64 word"
  mMigratingInfo :: "nat \<Rightarrow> MigratingShardInfo option"
  mThreadPoolService :: "MigrationWork ThreadPoolService"
  mm_scanning :: "(TaskID \<times> MigrationWork) list"
  mm_reports :: "MigrationProgress list"

definition newMigrationManager :: "TaskID \<Rightarrow> MigrationManager" where
  "newMigrationManager nextId = \<lparr>mMigrationTaskID = 0, mMigratingInfo = Map.empty,
     mThreadPoolService = newThreadPoolService\<lparr>mMaxTaskID := nextId\<rparr>, mm_scanning = [], mm_reports = []\<rparr>"

text \<open>\<^verbatim>\<open>mMigratingInfo[id]->f()\<close>: a missing entry is a null pointer.\<close>

definition onShard :: "nat \<Rightarrow> (MigratingShardInfo \<Rightarrow> MigratingShardInfo) \<Rightarrow> MigrationManager \<Rightarrow> MigrationManager option" where
  "onShard shardId f m = do {
     info \<leftarrow> mMigratingInfo m shardId;
     Some (m\<lparr>mMigratingInfo := (mMigratingInfo m)(shardId \<mapsto> f info)\<rparr>)
   }"

primrec onShards :: "nat list \<Rightarrow> (MigratingShardInfo \<Rightarrow> MigratingShardInfo) \<Rightarrow> MigrationManager \<Rightarrow> MigrationManager option" where
  "onShards [] f m = Some m"
| "onShards (shardId # shardIds) f m = do { m1 \<leftarrow> onShard shardId f m; onShards shardIds f m1 }"

definition newTaskID :: "MigrationManager \<Rightarrow> TaskID \<times> MigrationManager" where
  "newTaskID m = (let (i, p) = allocateNewTaskID (mThreadPoolService m) in (i, m\<lparr>mThreadPoolService := p\<rparr>))"

definition submitTask :: "TaskID \<Rightarrow> MigrationWork \<Rightarrow> MigrationManager \<Rightarrow> MigrationManager" where
  "submitTask i t m = m\<lparr>mThreadPoolService := submit i t (mThreadPoolService m)\<rparr>"

text \<open>Creating a scan task, announcing it to its shards and handing it to the pool.\<close>

definition startScan :: "WSName \<Rightarrow> nat list \<Rightarrow> KeyType list \<Rightarrow> MigrationManager \<Rightarrow> MigrationManager option" where
  "startScan wsName shardIds specificKeys m =
     (let (i, m1) = newTaskID m
      in do { m2 \<leftarrow> onShards shardIds (addScanTask i) m1; Some (submitTask i (ScanTask wsName shardIds specificKeys) m2) })"

definition markScanTaskDone :: "nat \<Rightarrow> TaskID \<Rightarrow> MigrationManager \<Rightarrow> MigrationManager option" where
  "markScanTaskDone shardId i m = onShard shardId (shard_markScanTaskDone i) m"

primrec markScanTasksDone :: "nat list \<Rightarrow> TaskID \<Rightarrow> MigrationManager \<Rightarrow> MigrationManager option" where
  "markScanTasksDone [] i m = Some m"
| "markScanTasksDone (shardId # shardIds) i m = do { m1 \<leftarrow> markScanTaskDone shardId i m; markScanTasksDone shardIds i m1 }"

text \<open>The first entry that is not done makes the migration a running one; the map is a finite one.\<close>

definition allDone :: "MigrationManager \<Rightarrow> bool" where
  "allDone m = (\<forall>info \<in> ran (mMigratingInfo m). isDone info)"

definition markExportTaskDone :: "nat \<Rightarrow> TaskID \<Rightarrow> MigrationManager \<Rightarrow> MigrationManager option" where
  "markExportTaskDone shardId i m = do {
     m1 \<leftarrow> onShard shardId (shard_markExportTaskDone i) m;
     info \<leftarrow> mMigratingInfo m1 shardId;
     Some (m1\<lparr>mm_reports := mm_reports m1 @ [\<lparr>mp_taskId = mMigrationTaskID m1, mp_events = [getProgressEvent info],
       mp_overallStatus = (if allDone m1 then MS_SUCCEEDED else MS_RUNNING)\<rparr>]\<rparr>)
   }"

primrec markExportTasksDone :: "nat list \<Rightarrow> TaskID \<Rightarrow> MigrationManager \<Rightarrow> MigrationManager option" where
  "markExportTasksDone [] i m = Some m"
| "markExportTasksDone (shardId # shardIds) i m = do { m1 \<leftarrow> markExportTaskDone shardId i m; markExportTasksDone shardIds i m1 }"

text \<open>\<^verbatim>\<open>ScanTask::run\<close> submits the first scan command.\<close>

definition ScanTask_run :: "TaskID \<Rightarrow> MigrationWork \<Rightarrow> MigrationManager \<Rightarrow> MigrationManager" where
  "ScanTask_run i t m = m\<lparr>mm_scanning := mm_scanning m @ [(i, t)]\<rparr>"

text \<open>\<^verbatim>\<open>ScanTask::onCommandFinished\<close> with the batch of a finished command and whether its iterator
  still has a value: in that case the next command is submitted.\<close>

definition ScanTask_onCommandFinished ::
  "TaskID \<Rightarrow> MigrationWork \<Rightarrow> ScannedKey list \<Rightarrow> bool \<Rightarrow> MigrationManager \<Rightarrow> MigrationManager option" where
  "ScanTask_onCommandFinished i t data hasValue m = (case t of
      ExportTask _ _ _ \<Rightarrow> None
    | ScanTask wsName shardIds specificKeys \<Rightarrow>
        let (e, m1) = newTaskID m
        in do {
          m2 \<leftarrow> onShards shardIds (addExportTask e) m1;
          let m3 = submitTask e (ExportTask wsName shardIds data) m2;
          if hasValue then Some m3
          else do {
            m4 \<leftarrow> markScanTasksDone shardIds i m3;
            Some (m4\<lparr>mm_scanning := filter (\<lambda>p. fst p \<noteq> i) (mm_scanning m4)\<rparr>)
          }
        })"

text \<open>\<^verbatim>\<open>exportLocalKeys\<close>: the request, and the loop that sends it until every result is good; the
  empty list of answers is a loop that is still trying.\<close>

definition exportRequest :: "ScannedKey list \<Rightarrow> WriteEntry list" where
  "exportRequest data = map (\<lambda>(key, v, t, ver). \<lparr>wen_key = key, wen_value = v, wen_enableTTL = (t \<noteq> 0), wen_ttl = ucast t,
     wen_version = ucast ver, wen_updateTime = 0, wen_udfMeta = DEFAULT_UDFMETA\<rparr>) data"

primrec exportLocalKeys :: "ResponseCode list list \<Rightarrow> nat option" where
  "exportLocalKeys [] = None"
| "exportLocalKeys (resp # resps) = (if \<forall>code \<in> set resp. code = RC_OK then Some 0 else map_option Suc (exportLocalKeys resps))"

text \<open>\<^verbatim>\<open>deleteLocalKeys\<close>: the codes are those of the results of the batch of removes.\<close>

definition deleteRequest :: "ScannedKey list \<Rightarrow> RemoveEntry list" where
  "deleteRequest data = map (\<lambda>(key, v, t, ver). \<lparr>den_key = key, den_version = ucast ver\<rparr>) data"

definition failedKeysOf :: "ScannedKey list \<Rightarrow> ResponseCode list \<Rightarrow> KeyType list" where
  "failedKeysOf data codes = map (fst \<circ> fst) (filter (\<lambda>(_, code). code \<noteq> RC_OK) (zip data codes))"

definition ExportTask_deleteLocalKeys ::
  "TaskID \<Rightarrow> MigrationWork \<Rightarrow> ResponseCode list \<Rightarrow> MigrationManager \<Rightarrow> MigrationManager option" where
  "ExportTask_deleteLocalKeys i t codes m = (case t of
      ScanTask _ _ _ \<Rightarrow> None
    | ExportTask wsName shardIds data \<Rightarrow> do {
        assert (length codes = length data);
        let failedKeys = failedKeysOf data codes;
        m1 \<leftarrow> (if failedKeys \<noteq> [] then startScan wsName shardIds failedKeys m else Some m);
        markExportTasksDone shardIds i m1
      })"

definition ExportTask_run ::
  "ResponseCode list list \<Rightarrow> ResponseCode list \<Rightarrow> TaskID \<Rightarrow> MigrationWork \<Rightarrow> MigrationManager \<Rightarrow> MigrationManager option" where
  "ExportTask_run answers codes i t m = do { _ \<leftarrow> exportLocalKeys answers; ExportTask_deleteLocalKeys i t codes m }"

text \<open>The shards of a task by working set; the map is ordered by the names.\<close>

definition shardsPerWS :: "nat list \<Rightarrow> (WSName \<times> nat list) list" where
  "shardsPerWS shards =
     map (\<lambda>ws. (ws, filter (\<lambda>s. shardIdToColumnFamily kWorkingSetNamePrefix s kWorkingSetFactor = ws) shards))
       (std_set (map (\<lambda>s. shardIdToColumnFamily kWorkingSetNamePrefix s kWorkingSetFactor) shards))"

primrec startScans :: "(WSName \<times> nat list) list \<Rightarrow> MigrationManager \<Rightarrow> MigrationManager option" where
  "startScans [] m = Some m"
| "startScans (w # ws) m = do { m1 \<leftarrow> startScan (fst w) (snd w) [] m; startScans ws m1 }"

text \<open>\<^verbatim>\<open>startMigration\<close>: its first loop enters the shards of the task, its second one starts a scan
  for each working set.\<close>

definition enterShards :: "MigrationTask \<Rightarrow> MigrationManager \<Rightarrow> MigrationManager" where
  "enterShards task m = m\<lparr>mMigrationTaskID := mt_taskId task,
     mMigratingInfo := fold (\<lambda>s f. f(s \<mapsto> newMigratingShardInfo s)) (map fst (mt_migrateShards task)) (mMigratingInfo m)\<rparr>"

definition startMigration :: "MigrationTask \<Rightarrow> MigrationManager \<Rightarrow> MigrationManager option" where
  "startMigration task m = startScans (shardsPerWS (map fst (mt_migrateShards task))) (enterShards task m)"

definition endMigration :: "MigrationManager \<Rightarrow> MigrationManager" where
  "endMigration m = m\<lparr>mMigratingInfo := Map.empty\<rparr>"

section \<open>Any interleaving\<close>

text \<open>
  The state of a migration: the manager, the exports that threads are executing, and the exports that have
  finished their work and still mark some of their shards. A handler is one step, except that the shards of
  an export are marked one by one.
\<close>

type_synonym MigrationState = "MigrationManager \<times> (TaskID \<times> MigrationWork) list \<times> (TaskID \<times> nat list) list"

text \<open>The tasks of the queue that no thread has claimed.\<close>

definition waiting :: "MigrationManager \<Rightarrow> (TaskID \<times> MigrationWork) list" where
  "waiting m = map (\<lambda>t. (mTaskID t, payload t)) (filter (\<lambda>t. flag t = Initial) (mTaskQueue (mThreadPoolService m)))"

inductive migration_step :: "MigrationState \<Rightarrow> MigrationState \<Rightarrow> bool" where
  claim_scan: "executeClaim (mThreadPoolService m) = Some (t, p) \<Longrightarrow> payload t = ScanTask ws S ks \<Longrightarrow>
     migration_step (m, ex, mk) (ScanTask_run (mTaskID t) (payload t) (m\<lparr>mThreadPoolService := p\<rparr>), ex, mk)"
| claim_export: "executeClaim (mThreadPoolService m) = Some (t, p) \<Longrightarrow> payload t = ExportTask ws S d \<Longrightarrow>
     migration_step (m, ex, mk) (m\<lparr>mThreadPoolService := p\<rparr>, (mTaskID t, payload t) # ex, mk)"
| scan_delivers: "(i, t) \<in> set (mm_scanning m) \<Longrightarrow> ScanTask_onCommandFinished i t d hasValue m = Some m' \<Longrightarrow>
     migration_step (m, ex, mk) (m', ex, mk)"
| export_works: "(i, ExportTask ws S d) \<in> set ex \<Longrightarrow> length codes = length d \<Longrightarrow>
     (if failedKeysOf d codes \<noteq> [] then startScan ws S (failedKeysOf d codes) m else Some m) = Some m' \<Longrightarrow>
     migration_step (m, ex, mk) (m', filter (\<lambda>p. fst p \<noteq> i) ex, (i, S) # mk)"
| export_marks: "mk = mk1 @ (i, shard # S) # mk2 \<Longrightarrow> markExportTaskDone shard i m = Some m' \<Longrightarrow>
     migration_step (m, ex, mk) (m', ex, mk1 @ (i, S) # mk2)"
| releases: "i \<notin> set (map fst (waiting m)) \<Longrightarrow>
     migration_step (m, ex, mk) (m\<lparr>mThreadPoolService := executeRelease i (mThreadPoolService m)\<rparr>, ex, mk)"
| pops: "migration_step (m, ex, mk) (m\<lparr>mThreadPoolService := popThreadMain (mThreadPoolService m)\<rparr>, ex, mk)"

abbreviation migration_steps where
  "migration_steps \<equiv> migration_step\<^sup>*\<^sup>*"

text \<open>What is to be done: tasks that wait, are scanning or are exporting.\<close>

definition live :: "MigrationState \<Rightarrow> (TaskID \<times> MigrationWork) list" where
  "live = (\<lambda>(m, ex, mk). waiting m @ mm_scanning m @ ex)"

definition scansOf :: "(TaskID \<times> MigrationWork) list \<Rightarrow> nat \<Rightarrow> TaskID set" where
  "scansOf L s = {i. \<exists>ws S ks. (i, ScanTask ws S ks) \<in> set L \<and> s \<in> set S}"

definition exportsOf :: "(TaskID \<times> MigrationWork) list \<Rightarrow> (TaskID \<times> nat list) list \<Rightarrow> nat \<Rightarrow> TaskID set" where
  "exportsOf L mk s = {i. (\<exists>ws S d. (i, ExportTask ws S d) \<in> set L \<and> s \<in> set S) \<or> (\<exists>S. (i, S) \<in> set mk \<and> s \<in> set S)}"

definition work_shards :: "MigrationWork \<Rightarrow> nat list" where
  "work_shards t = (case t of ScanTask _ S _ \<Rightarrow> S | ExportTask _ S _ \<Rightarrow> S)"

text \<open>The table that lists for every shard of the migration exactly the tasks that are live for it.\<close>

definition taskTable :: "nat set \<Rightarrow> (TaskID \<times> MigrationWork) list \<Rightarrow> (TaskID \<times> nat list) list \<Rightarrow> nat \<Rightarrow> MigratingShardInfo option" where
  "taskTable Sh L mk = (\<lambda>s. if s \<in> Sh
     then Some \<lparr>mShardId = s, mScanTasks = scansOf L s, mExportTasks = exportsOf L mk s\<rparr> else None)"

definition tasks_ok :: "nat set \<Rightarrow> TaskID \<Rightarrow> (TaskID \<times> MigrationWork) list \<Rightarrow> (TaskID \<times> nat list) list \<Rightarrow> bool" where
  "tasks_ok Sh n L mk =
     (distinct (map fst L @ map fst mk) \<and> (\<forall>i \<in> set (map fst L @ map fst mk). i < n) \<and>
      (\<forall>(i, t) \<in> set L. work_shards t \<noteq> [] \<and> distinct (work_shards t) \<and> set (work_shards t) \<subseteq> Sh) \<and>
      (\<forall>(i, S) \<in> set mk. distinct S \<and> set S \<subseteq> Sh))"

definition migration_inv :: "nat set \<Rightarrow> MigrationState \<Rightarrow> bool" where
  "migration_inv Sh = (\<lambda>(m, ex, mk).
     tasks_ok Sh (mMaxTaskID (mThreadPoolService m)) (live (m, ex, mk)) mk \<and>
     (\<forall>(i, t) \<in> set ex. \<exists>ws S d. t = ExportTask ws S d) \<and>
     mMigratingInfo m = taskTable Sh (live (m, ex, mk)) mk)"

lemma tasks_perm:
  assumes "mset L' = mset L"
  shows "tasks_ok Sh n L' mk = tasks_ok Sh n L mk" and "taskTable Sh L' mk = taskTable Sh L mk"
proof -
  have S: "set L' = set L"
    by (rule mset_eq_setD [OF assms])
  have "mset (map fst L') = mset (map fst L)"
    using assms by simp
  then have "distinct (map fst L') = distinct (map fst L)"
    by (rule mset_eq_imp_distinct_iff)
  then show "tasks_ok Sh n L' mk = tasks_ok Sh n L mk"
    using S by (simp add: tasks_ok_def)
  show "taskTable Sh L' mk = taskTable Sh L mk"
    using S by (simp add: taskTable_def scansOf_def exportsOf_def cong: if_cong)
qed

lemma table_scan:
  assumes "set S \<subseteq> Sh" and "set L' = insert (i, ScanTask ws S ks) (set L)"
  shows "(\<lambda>s. if s \<in> set S then map_option (addScanTask i) (taskTable Sh L mk s) else taskTable Sh L mk s) = taskTable Sh L' mk"
  using assms by (auto simp: taskTable_def scansOf_def exportsOf_def addScanTask_def fun_eq_iff)

lemma table_export:
  assumes "set S \<subseteq> Sh" and "set L' = insert (i, ExportTask ws S d) (set L)"
  shows "(\<lambda>s. if s \<in> set S then map_option (addExportTask i) (taskTable Sh L mk s) else taskTable Sh L mk s) = taskTable Sh L' mk"
  using assms by (auto simp: taskTable_def scansOf_def exportsOf_def addExportTask_def fun_eq_iff)

lemma table_scan_done:
  assumes "set S \<subseteq> Sh" and "set L = insert (i, ScanTask ws S ks) (set L')" and "i \<notin> fst ` set L'"
  shows "(\<lambda>s. if s \<in> set S then map_option (shard_markScanTaskDone i) (taskTable Sh L mk s) else taskTable Sh L mk s) = taskTable Sh L' mk"
proof -
  have "(i, t) \<notin> set L'" for t
    using assms(3) by (auto simp: image_iff)
  then have "scansOf L' s = (if s \<in> set S then scansOf L s - {i} else scansOf L s)" for s
    using assms(2) by (auto simp: scansOf_def)
  moreover have "exportsOf L mk s = exportsOf L' mk s" for s
    using assms(2) by (auto simp: exportsOf_def)
  ultimately show ?thesis
    using assms(1) by (auto simp: taskTable_def shard_markScanTaskDone_def fun_eq_iff)
qed

lemma table_exported:
  assumes "set L = insert (i, ExportTask ws S d) (set L')"
  shows "taskTable Sh L mk = taskTable Sh L' ((i, S) # mk)"
  using assms by (auto simp: taskTable_def scansOf_def exportsOf_def fun_eq_iff)

lemma table_marked:
  assumes "shard \<in> Sh" and "shard \<notin> set S" and "i \<notin> fst ` set L \<union> fst ` set mk1 \<union> fst ` set mk2"
  shows "(taskTable Sh L (mk1 @ (i, shard # S) # mk2))
      (shard \<mapsto> shard_markExportTaskDone i (the (taskTable Sh L (mk1 @ (i, shard # S) # mk2) shard))) =
    taskTable Sh L (mk1 @ (i, S) # mk2)"
proof -
  have notin: "(i, t) \<notin> set L" "(i, T) \<notin> set mk1" "(i, T) \<notin> set mk2" for t T
    using assms(3) by (auto simp: image_iff)
  have "exportsOf L (mk1 @ (i, shard # S) # mk2) shard - {i} = exportsOf L (mk1 @ (i, S) # mk2) shard"
    using assms(2) notin by (auto simp: exportsOf_def)
  moreover have "exportsOf L (mk1 @ (i, shard # S) # mk2) s = exportsOf L (mk1 @ (i, S) # mk2) s" if "s \<noteq> shard" for s
    using that by (auto simp: exportsOf_def)
  ultimately show ?thesis
    using assms(1) by (auto simp: taskTable_def shard_markExportTaskDone_def scansOf_def fun_eq_iff)
qed

lemma table_done:
  assumes "tasks_ok Sh n L mk" and "mMigratingInfo m = taskTable Sh L mk"
  shows "allDone m \<longleftrightarrow> L = [] \<and> (\<forall>(i, S) \<in> set mk. S = [])"
proof
  assume fin: "allDone m"
  then have all: "scansOf L s = {} \<and> exportsOf L mk s = {}" if "s \<in> Sh" for s
    using that assms(2) by (auto simp: allDone_def isDone_def taskTable_def ran_def split: if_splits)
  have "False" if "(i, t) \<in> set L" for i t
  proof -
    have "work_shards t \<noteq> []" "set (work_shards t) \<subseteq> Sh"
      using assms(1) that by (auto simp: tasks_ok_def)
    then obtain s where "s \<in> set (work_shards t)" "s \<in> Sh"
      by (cases "work_shards t") auto
    then have "i \<in> scansOf L s \<or> i \<in> exportsOf L mk s"
      using that by (cases t) (simp_all add: work_shards_def scansOf_def exportsOf_def, blast+)
    then show False
      using all [OF \<open>s \<in> Sh\<close>] by simp
  qed
  moreover have "S = []" if "(i, S) \<in> set mk" for i S
  proof (rule ccontr)
    assume "S \<noteq> []"
    moreover have "set S \<subseteq> Sh"
      using assms(1) that by (auto simp: tasks_ok_def)
    ultimately obtain s where "s \<in> set S" "s \<in> Sh"
      by (cases S) auto
    then show False
      using all [of s] that by (auto simp: exportsOf_def)
  qed
  ultimately show "L = [] \<and> (\<forall>(i, S) \<in> set mk. S = [])"
    by (cases L) auto
next
  assume "L = [] \<and> (\<forall>(i, S) \<in> set mk. S = [])"
  then have "scansOf L s = {}" "exportsOf L mk s = {}" for s
    by (force simp: scansOf_def exportsOf_def)+
  then show "allDone m"
    using assms(2) by (auto simp: allDone_def isDone_def taskTable_def ran_def split: if_splits)
qed

lemma onShards_effect:
  assumes "distinct S" and "\<forall>s \<in> set S. mMigratingInfo m s \<noteq> None"
  shows "onShards S f m = Some (m\<lparr>mMigratingInfo := (\<lambda>s. if s \<in> set S then map_option f (mMigratingInfo m s) else mMigratingInfo m s)\<rparr>)"
  using assms
proof (induction S arbitrary: m)
  case (Cons s S)
  then obtain info where info: "mMigratingInfo m s = Some info"
    by auto
  let ?m = "m\<lparr>mMigratingInfo := (mMigratingInfo m)(s \<mapsto> f info)\<rparr>"
  have "onShards S f ?m = Some (?m\<lparr>mMigratingInfo :=
      (\<lambda>s. if s \<in> set S then map_option f (mMigratingInfo ?m s) else mMigratingInfo ?m s)\<rparr>)"
    using Cons.prems by (intro Cons.IH) auto
  moreover have "(\<lambda>s. if s \<in> set S then map_option f (mMigratingInfo ?m s) else mMigratingInfo ?m s) =
      (\<lambda>s'. if s' \<in> set (s # S) then map_option f (mMigratingInfo m s') else mMigratingInfo m s')"
    using Cons.prems(1) info by (intro ext) auto
  ultimately have "onShards S f ?m = Some (?m\<lparr>mMigratingInfo :=
      (\<lambda>s'. if s' \<in> set (s # S) then map_option f (mMigratingInfo m s') else mMigratingInfo m s')\<rparr>)"
    by (rule back_subst)
  then show ?case
    using info by (simp add: onShard_def)
qed simp

lemma markScanTasksDone_eq: "markScanTasksDone S i m = onShards S (shard_markScanTaskDone i) m"
  by (induction S arbitrary: m) (simp_all add: markScanTaskDone_def)

lemma waiting_submit: "waiting (submitTask i t m) = waiting m @ [(i, t)]"
  by (simp add: waiting_def submitTask_def submit_def)

lemma claimFirst_waiting:
  "claimFirst q = Some (t, q') \<Longrightarrow>
   filter (\<lambda>t. flag t = Initial) q = t # filter (\<lambda>t. flag t = Initial) q'"
  by (induction q arbitrary: q') (auto split: if_splits)

lemma waiting_claim:
  "executeClaim (mThreadPoolService m) = Some (t, p) \<Longrightarrow>
   waiting m = (mTaskID t, payload t) # waiting (m\<lparr>mThreadPoolService := p\<rparr>) \<and> mMaxTaskID p = mMaxTaskID (mThreadPoolService m)"
  by (auto simp: waiting_def executeClaim_def dest!: claimFirst_waiting)

lemma waiting_pop: "waiting (m\<lparr>mThreadPoolService := popThreadMain (mThreadPoolService m)\<rparr>) = waiting m"
  by (auto simp: waiting_def popThreadMain_def split: list.split)

lemma startScan_effect:
  assumes "distinct S" and "\<forall>s \<in> set S. mMigratingInfo m s \<noteq> None" and "i = mMaxTaskID (mThreadPoolService m)"
  shows "\<exists>m'. startScan ws S ks m = Some m' \<and> waiting m' = waiting m @ [(i, ScanTask ws S ks)] \<and>
    mm_scanning m' = mm_scanning m \<and> mm_reports m' = mm_reports m \<and> mMaxTaskID (mThreadPoolService m') = i + 1 \<and>
    mMigratingInfo m' = (\<lambda>s. if s \<in> set S then map_option (addScanTask i) (mMigratingInfo m s) else mMigratingInfo m s)"
proof -
  let ?m = "m\<lparr>mThreadPoolService := (mThreadPoolService m)\<lparr>mMaxTaskID := i + 1\<rparr>\<rparr>"
  have "onShards S (addScanTask i) ?m = Some (?m\<lparr>mMigratingInfo :=
      (\<lambda>s. if s \<in> set S then map_option (addScanTask i) (mMigratingInfo ?m s) else mMigratingInfo ?m s)\<rparr>)"
    using assms by (intro onShards_effect) simp_all
  then show ?thesis
    using assms(3) by (simp add: startScan_def newTaskID_def allocateNewTaskID_def waiting_submit)
      (simp add: submitTask_def submit_def waiting_def cong: if_cong)
qed

lemma waiting_release:
  assumes "i \<notin> set (map fst (waiting m))"
  shows "waiting (m\<lparr>mThreadPoolService := executeRelease i (mThreadPoolService m)\<rparr>) = waiting m"
proof -
  have "filter (\<lambda>t. flag t = Initial) (map (\<lambda>t. if mTaskID t = i then t\<lparr>flag := Finished\<rparr> else t) q) =
      filter (\<lambda>t. flag t = Initial) q" if "i \<notin> set (map fst (map (\<lambda>t. (mTaskID t, payload t)) (filter (\<lambda>t. flag t = Initial) q)))"
      for q :: "MigrationWork PoolTask list"
    using that by (induction q) (auto split: if_splits)
  from this [OF assms [unfolded waiting_def]] show ?thesis
    by (simp add: waiting_def executeRelease_def)
qed

lemma deliver_effect:
  assumes "distinct S" and "\<forall>s \<in> set S. mMigratingInfo m s \<noteq> None" and "e = mMaxTaskID (mThreadPoolService m)"
  shows "\<exists>m'. ScanTask_onCommandFinished i (ScanTask ws S ks) d hasValue m = Some m' \<and>
    waiting m' = waiting m @ [(e, ExportTask ws S d)] \<and> mm_reports m' = mm_reports m \<and> mMaxTaskID (mThreadPoolService m') = e + 1 \<and>
    mm_scanning m' = (if hasValue then mm_scanning m else filter (\<lambda>p. fst p \<noteq> i) (mm_scanning m)) \<and>
    mMigratingInfo m' = (let f = (\<lambda>s. if s \<in> set S then map_option (addExportTask e) (mMigratingInfo m s) else mMigratingInfo m s)
      in if hasValue then f else (\<lambda>s. if s \<in> set S then map_option (shard_markScanTaskDone i) (f s) else f s))"
proof -
  let ?m = "m\<lparr>mThreadPoolService := (mThreadPoolService m)\<lparr>mMaxTaskID := e + 1\<rparr>\<rparr>"
  let ?f = "\<lambda>s. if s \<in> set S then map_option (addExportTask e) (mMigratingInfo m s) else mMigratingInfo m s"
  let ?m2 = "?m\<lparr>mMigratingInfo := ?f\<rparr>"
  let ?m3 = "submitTask e (ExportTask ws S d) ?m2"
  have m3: "mMigratingInfo ?m3 = ?f" "mm_scanning ?m3 = mm_scanning m" "mm_reports ?m3 = mm_reports m"
      "waiting ?m3 = waiting m @ [(e, ExportTask ws S d)]" "mMaxTaskID (mThreadPoolService ?m3) = e + 1"
    by (simp_all add: waiting_submit) (simp_all add: submitTask_def submit_def waiting_def)
  have "onShards S (addExportTask e) ?m = Some ?m2"
    using onShards_effect [of S ?m "addExportTask e"] assms(1,2) by (simp cong: if_cong)
  then have run: "ScanTask_onCommandFinished i (ScanTask ws S ks) d hasValue m =
      (if hasValue then Some ?m3 else do {
         m4 \<leftarrow> markScanTasksDone S i ?m3; Some (m4\<lparr>mm_scanning := filter (\<lambda>p. fst p \<noteq> i) (mm_scanning m4)\<rparr>) })"
    using assms(3) by (simp add: ScanTask_onCommandFinished_def newTaskID_def allocateNewTaskID_def Let_def del: onShards.simps)
  show ?thesis
  proof (cases hasValue)
    case True
    then show ?thesis
      using run m3 by (intro exI [where x = ?m3]) simp
  next
    case False
    let ?g = "\<lambda>s. if s \<in> set S then map_option (shard_markScanTaskDone i) (?f s) else ?f s"
    let ?m4 = "?m3\<lparr>mMigratingInfo := ?g, mm_scanning := filter (\<lambda>p. fst p \<noteq> i) (mm_scanning m)\<rparr>"
    have "markScanTasksDone S i ?m3 = Some (?m3\<lparr>mMigratingInfo := ?g\<rparr>)"
      unfolding markScanTasksDone_eq using onShards_effect [of S ?m3 "shard_markScanTaskDone i"] assms(1,2) m3(1)
      by (simp cong: if_cong)
    then have "ScanTask_onCommandFinished i (ScanTask ws S ks) d hasValue m = Some ?m4"
      using run False m3(2) by simp
    moreover have "waiting ?m4 = waiting ?m3"
      by (simp add: waiting_def)
    ultimately show ?thesis
      using False m3 by (intro exI [where x = ?m4]) simp
  qed
qed

lemma tasks_fresh:
  assumes "tasks_ok Sh n L mk" and "S \<noteq> []" and "distinct S" and "set S \<subseteq> Sh" and "work_shards t = S"
  shows "tasks_ok Sh (n + 1) ((n, t) # L) mk"
proof -
  have "n \<notin> set (map fst L @ map fst mk)"
    using assms(1) by (auto simp: tasks_ok_def)
  then show ?thesis
    using assms by (auto simp: tasks_ok_def less_Suc_eq)
qed

lemma tasks_gone:
  assumes "tasks_ok Sh n ((i, t) # L) mk"
  shows "tasks_ok Sh n L mk" and "tasks_ok Sh n L ((i, work_shards t) # mk)" and "i \<notin> fst ` set L"
  using assms by (auto simp: tasks_ok_def)

lemma pick_live:
  assumes "distinct (map fst xs)" and "(i, t) \<in> set xs"
  shows "mset xs = add_mset (i, t) (mset (filter (\<lambda>p. fst p \<noteq> i) xs))"
  using assms
proof (induction xs)
  case (Cons x xs)
  show ?case
  proof (cases "x = (i, t)")
    case True
    then have "filter (\<lambda>p. fst p \<noteq> i) xs = xs"
      using Cons.prems(1) by (force simp: filter_id_conv)
    then show ?thesis
      using True by simp
  next
    case False
    then have mem: "(i, t) \<in> set xs"
      using Cons.prems(2) by auto
    then have "i \<in> fst ` set xs"
      by force
    then have "fst x \<noteq> i"
      using Cons.prems(1) by auto
    with mem show ?thesis
      using Cons False by (simp add: add_mset_commute)
  qed
qed simp

lemma inv_perm:
  assumes "migration_inv Sh (m, ex, mk)" and "mset (live (m', ex', mk)) = mset (live (m, ex, mk))"
    and "mMaxTaskID (mThreadPoolService m') = mMaxTaskID (mThreadPoolService m)" and "mMigratingInfo m' = mMigratingInfo m"
    and "\<forall>(i, t) \<in> set ex'. \<exists>ws S d. t = ExportTask ws S d"
  shows "migration_inv Sh (m', ex', mk)"
  using assms by (simp add: migration_inv_def tasks_perm [OF assms(2)])

lemma inv_dom: "migration_inv Sh (m, ex, mk) \<Longrightarrow> set S \<subseteq> Sh \<Longrightarrow> \<forall>s \<in> set S. mMigratingInfo m s \<noteq> None"
  by (auto simp: migration_inv_def taskTable_def)

lemma inv_shards:
  assumes "migration_inv Sh st" and "(i, t) \<in> set (live st)"
  shows "work_shards t \<noteq> []" and "distinct (work_shards t)" and "set (work_shards t) \<subseteq> Sh"
  using assms by (cases st; force simp: migration_inv_def tasks_ok_def)+

text \<open>A new scan for shards of the migration.\<close>

lemma inv_startScan:
  assumes inv: "migration_inv Sh (m, ex, mk)" and S: "S \<noteq> []" "distinct S" "set S \<subseteq> Sh"
  shows "\<exists>m'. startScan ws S ks m = Some m' \<and> migration_inv Sh (m', ex, mk) \<and> mm_reports m' = mm_reports m"
proof -
  let ?n = "mMaxTaskID (mThreadPoolService m)" and ?L = "live (m, ex, mk)" and ?t = "ScanTask ws S ks"
  obtain m' where m': "startScan ws S ks m = Some m'" "waiting m' = waiting m @ [(?n, ?t)]"
      "mm_scanning m' = mm_scanning m" "mm_reports m' = mm_reports m" "mMaxTaskID (mThreadPoolService m') = ?n + 1"
      "mMigratingInfo m' = (\<lambda>s. if s \<in> set S then map_option (addScanTask ?n) (mMigratingInfo m s) else mMigratingInfo m s)"
    using startScan_effect [OF S(2) inv_dom [OF inv S(3)] refl, of ws ks] by blast
  have live: "mset (live (m', ex, mk)) = mset ((?n, ?t) # ?L)"
    using m'(2,3) by (simp add: live_def)
  have "tasks_ok Sh (?n + 1) ((?n, ?t) # ?L) mk"
    using inv S by (intro tasks_fresh [where S = S]) (simp_all add: migration_inv_def work_shards_def)
  moreover have "mMigratingInfo m' = taskTable Sh ((?n, ?t) # ?L) mk"
    using inv m'(6) table_scan [OF S(3), of "(?n, ?t) # ?L" ?n ws ks ?L mk] by (simp add: migration_inv_def cong: if_cong)
  ultimately have "migration_inv Sh (m', ex, mk)"
    using inv m'(5) by (simp add: migration_inv_def tasks_perm [OF live])
  then show ?thesis
    using m'(1,4) by blast
qed

text \<open>A scan delivers a batch.\<close>

lemma inv_deliver:
  assumes inv: "migration_inv Sh (m, ex, mk)" and scan: "(i, ScanTask ws S ks) \<in> set (mm_scanning m)"
  shows "\<exists>m'. ScanTask_onCommandFinished i (ScanTask ws S ks) d hasValue m = Some m' \<and> migration_inv Sh (m', ex, mk) \<and>
    mm_reports m' = mm_reports m"
proof -
  let ?n = "mMaxTaskID (mThreadPoolService m)" and ?L = "live (m, ex, mk)" and ?t = "ExportTask ws S d"
  have S: "S \<noteq> []" "distinct S" "set S \<subseteq> Sh"
    using inv_shards [OF inv, of i "ScanTask ws S ks"] scan by (simp_all add: live_def work_shards_def)
  obtain m' where m': "ScanTask_onCommandFinished i (ScanTask ws S ks) d hasValue m = Some m'" "waiting m' = waiting m @ [(?n, ?t)]"
      "mm_reports m' = mm_reports m" "mMaxTaskID (mThreadPoolService m') = ?n + 1"
      "mm_scanning m' = (if hasValue then mm_scanning m else filter (\<lambda>p. fst p \<noteq> i) (mm_scanning m))"
      "mMigratingInfo m' = (let f = (\<lambda>s. if s \<in> set S then map_option (addExportTask ?n) (mMigratingInfo m s) else mMigratingInfo m s)
        in if hasValue then f else (\<lambda>s. if s \<in> set S then map_option (shard_markScanTaskDone i) (f s) else f s))"
    using deliver_effect [OF S(2) inv_dom [OF inv S(3)] refl, of i ws ks d hasValue] by blast
  have ok: "tasks_ok Sh (?n + 1) ((?n, ?t) # ?L) mk"
    using inv S by (intro tasks_fresh [where S = S]) (simp_all add: migration_inv_def work_shards_def)
  have tab: "(\<lambda>s. if s \<in> set S then map_option (addExportTask ?n) (mMigratingInfo m s) else mMigratingInfo m s) =
      taskTable Sh ((?n, ?t) # ?L) mk"
    using inv table_export [OF S(3), of "(?n, ?t) # ?L" ?n ws d ?L mk] by (simp add: migration_inv_def cong: if_cong)
  have "tasks_ok Sh (?n + 1) (live (m', ex, mk)) mk \<and> mMigratingInfo m' = taskTable Sh (live (m', ex, mk)) mk"
  proof (cases hasValue)
    case True
    then have live: "mset (live (m', ex, mk)) = mset ((?n, ?t) # ?L)"
      using m'(2,5) by (simp add: live_def)
    then show ?thesis
      using ok tab m'(6) True by (simp add: tasks_perm [OF live])
  next
    case False
    have "distinct (map fst (mm_scanning m))"
      using inv by (simp add: migration_inv_def tasks_ok_def live_def)
    then have live: "mset ((i, ScanTask ws S ks) # live (m', ex, mk)) = mset ((?n, ?t) # ?L)"
      using m'(2,5) False pick_live [OF _ scan] by (simp add: live_def)
    have "tasks_ok Sh (?n + 1) ((i, ScanTask ws S ks) # live (m', ex, mk)) mk"
      using ok by (simp add: tasks_perm(1) [OF live])
    note gone = tasks_gone [OF this]
    have "taskTable Sh (live (m', ex, mk)) mk = (\<lambda>s. if s \<in> set S then map_option (shard_markScanTaskDone i)
        (taskTable Sh ((?n, ?t) # ?L) mk s) else taskTable Sh ((?n, ?t) # ?L) mk s)"
      using table_scan_done [OF S(3), of "(?n, ?t) # ?L" i ws ks "live (m', ex, mk)" mk] gone(3) mset_eq_setD [OF live] by simp
    then show ?thesis
      using gone(1) m'(6) tab False by (simp add: Let_def)
  qed
  then show ?thesis
    using inv m'(1,3,4) by (auto simp: migration_inv_def)
qed

text \<open>An export has done its work: its shards are left to be marked.\<close>

lemma inv_exported:
  assumes inv: "migration_inv Sh (m, ex, mk)" and ex: "(i, ExportTask ws S d) \<in> set ex"
  shows "migration_inv Sh (m, filter (\<lambda>p. fst p \<noteq> i) ex, (i, S) # mk)"
proof -
  let ?ex = "filter (\<lambda>p. fst p \<noteq> i) ex"
  have "distinct (map fst ex)"
    using inv by (simp add: migration_inv_def tasks_ok_def live_def)
  then have live: "mset ((i, ExportTask ws S d) # live (m, ?ex, (i, S) # mk)) = mset (live (m, ex, mk))"
    using pick_live [OF _ ex] by (simp add: live_def)
  have "tasks_ok Sh (mMaxTaskID (mThreadPoolService m)) ((i, ExportTask ws S d) # live (m, ?ex, (i, S) # mk)) mk"
    using inv by (simp add: migration_inv_def tasks_perm(1) [OF live])
  note gone = tasks_gone(2) [OF this]
  have "taskTable Sh (live (m, ex, mk)) mk = taskTable Sh (live (m, ?ex, (i, S) # mk)) ((i, S) # mk)"
    using table_exported [of "live (m, ex, mk)" i ws S d] mset_eq_setD [OF live] by simp
  then show ?thesis
    using inv gone by (auto simp: migration_inv_def work_shards_def)
qed

text \<open>Marking a shard never meets a null pointer, and reports success exactly when nothing is left.\<close>

lemma inv_marked:
  assumes inv: "migration_inv Sh (m, ex, mk1 @ (i, shard # S) # mk2)"
  shows "\<exists>m'. markExportTaskDone shard i m = Some m' \<and> migration_inv Sh (m', ex, mk1 @ (i, S) # mk2) \<and>
    (\<exists>r. mm_reports m' = mm_reports m @ [r] \<and>
      (mp_overallStatus r = MS_SUCCEEDED \<longleftrightarrow> live (m', ex, mk1 @ (i, S) # mk2) = [] \<and>
        (\<forall>(j, T) \<in> set (mk1 @ (i, S) # mk2). T = [])))"
proof -
  let ?mk = "mk1 @ (i, shard # S) # mk2" and ?mk' = "mk1 @ (i, S) # mk2" and ?L = "live (m, ex, mk1 @ (i, shard # S) # mk2)"
  have ok: "tasks_ok Sh (mMaxTaskID (mThreadPoolService m)) ?L ?mk"
    and tab: "mMigratingInfo m = taskTable Sh ?L ?mk"
    using inv by (simp_all add: migration_inv_def)
  have shard: "shard \<in> Sh" "shard \<notin> set S" "i \<notin> fst ` set ?L \<union> fst ` set mk1 \<union> fst ` set mk2"
    using ok by (auto simp: tasks_ok_def)
  have ok': "tasks_ok Sh (mMaxTaskID (mThreadPoolService m)) ?L ?mk'"
    using ok by (auto simp: tasks_ok_def)
  obtain info where info: "mMigratingInfo m shard = Some info"
    using shard(1) tab by (simp add: taskTable_def)
  let ?m1 = "m\<lparr>mMigratingInfo := (mMigratingInfo m)(shard \<mapsto> shard_markExportTaskDone i info)\<rparr>"
  have tab1: "mMigratingInfo ?m1 = taskTable Sh ?L ?mk'"
    using table_marked [OF shard] info tab by simp
  let ?r = "\<lparr>mp_taskId = mMigrationTaskID ?m1, mp_events = [getProgressEvent (shard_markExportTaskDone i info)],
    mp_overallStatus = (if allDone ?m1 then MS_SUCCEEDED else MS_RUNNING)\<rparr>"
  let ?m' = "?m1\<lparr>mm_reports := mm_reports m @ [?r]\<rparr>"
  have "markExportTaskDone shard i m = Some ?m'"
    using info by (simp add: markExportTaskDone_def onShard_def)
  moreover have live: "live (?m', ex, ?mk') = ?L"
    by (simp add: live_def waiting_def)
  moreover have "migration_inv Sh (?m', ex, ?mk')"
    using inv ok' tab1 live by (simp add: migration_inv_def)
  moreover have "mp_overallStatus ?r = MS_SUCCEEDED \<longleftrightarrow> ?L = [] \<and> (\<forall>(j, T) \<in> set ?mk'. T = [])"
    unfolding table_done [OF ok' tab1, symmetric] by simp
  ultimately show ?thesis
    by (intro exI [where x = ?m'] exI [where x = ?r] conjI) simp_all
qed

lemma migration_step_inv:
  assumes "migration_step st st'" and inv: "migration_inv Sh st"
  shows "migration_inv Sh st'"
  using assms(1)
proof cases
  case (claim_scan m t p ws S ks ex mk)
  have "waiting (ScanTask_run (mTaskID t) (payload t) (m\<lparr>mThreadPoolService := p\<rparr>)) = waiting (m\<lparr>mThreadPoolService := p\<rparr>)"
    by (simp add: waiting_def ScanTask_run_def)
  then show ?thesis
    unfolding claim_scan(2) using inv [unfolded claim_scan(1)] waiting_claim [OF claim_scan(3)]
    by (intro inv_perm [OF inv [unfolded claim_scan(1)]]) (simp_all add: live_def ScanTask_run_def migration_inv_def)
next
  case (claim_export m t p ws S d ex mk)
  then show ?thesis
    unfolding claim_export(2) using inv [unfolded claim_export(1)] waiting_claim [OF claim_export(3)]
    by (intro inv_perm [OF inv [unfolded claim_export(1)]]) (simp_all add: live_def migration_inv_def)
next
  case (scan_delivers i t m d hasValue m' ex mk)
  then obtain ws S ks where "t = ScanTask ws S ks"
    by (cases t) (auto simp: ScanTask_onCommandFinished_def)
  then show ?thesis
    using scan_delivers inv inv_deliver [of Sh m ex mk i ws S ks d hasValue] by auto
next
  case (export_works i ws S d ex codes m m' mk)
  have inv1: "migration_inv Sh (m, filter (\<lambda>p. fst p \<noteq> i) ex, (i, S) # mk)"
    using inv export_works by (auto intro: inv_exported)
  have S: "S \<noteq> []" "distinct S" "set S \<subseteq> Sh"
    using inv_shards [OF inv, of i "ExportTask ws S d"] export_works(1,3) by (simp_all add: live_def work_shards_def)
  show ?thesis
    using export_works(2,5) inv1 inv_startScan [OF inv1 S, of ws "failedKeysOf d codes"] by (auto split: if_splits)
next
  case (export_marks mk mk1 i shard S mk2 m m' ex)
  then show ?thesis
    using inv inv_marked [of Sh m ex mk1 i shard S mk2] by auto
next
  case (releases i m ex mk)
  then show ?thesis
    unfolding releases(2) using inv [unfolded releases(1)] waiting_release [OF releases(3)]
    by (intro inv_perm [OF inv [unfolded releases(1)]]) (simp_all add: live_def migration_inv_def executeRelease_def)
next
  case (pops m ex mk)
  then show ?thesis
    unfolding pops(2) using inv [unfolded pops(1)] waiting_pop [of m]
    by (intro inv_perm [OF inv [unfolded pops(1)]])
      (simp_all add: live_def migration_inv_def popThreadMain_def split: list.split)
qed

lemma migration_steps_inv: "migration_steps st st' \<Longrightarrow> migration_inv Sh st \<Longrightarrow> migration_inv Sh st'"
  by (induction rule: rtranclp_induct) (auto intro: migration_step_inv)

text \<open>A manager without a migration.\<close>

definition idle :: "MigrationManager \<Rightarrow> bool" where
  "idle m = (waiting m = [] \<and> mm_scanning m = [] \<and> mMigratingInfo m = Map.empty)"

text \<open>The loop that starts the scans runs beside the pool: the working sets whose scan is not started yet.\<close>

inductive migration_turn :: "MigrationState \<times> (WSName \<times> nat list) list \<Rightarrow> MigrationState \<times> (WSName \<times> nat list) list \<Rightarrow> bool" where
  works: "migration_step st st' \<Longrightarrow> migration_turn (st, wss) (st', wss)"
| starts: "startScan ws S [] m = Some m' \<Longrightarrow> migration_turn ((m, ex, mk), (ws, S) # wss) ((m', ex, mk), wss)"

abbreviation migration_turns where
  "migration_turns \<equiv> migration_turn\<^sup>*\<^sup>*"

definition turn_inv :: "nat set \<Rightarrow> MigrationState \<times> (WSName \<times> nat list) list \<Rightarrow> bool" where
  "turn_inv Sh = (\<lambda>(st, wss). migration_inv Sh st \<and> (\<forall>(ws, S) \<in> set wss. S \<noteq> [] \<and> distinct S \<and> set S \<subseteq> Sh))"

lemma migration_turn_inv:
  assumes "migration_turn a b" and "turn_inv Sh a"
  shows "turn_inv Sh b"
  using assms
proof cases
  case (works st st' wss)
  then show ?thesis
    using assms(2) migration_step_inv by (auto simp: turn_inv_def)
next
  case (starts ws S m m' ex mk wss)
  then show ?thesis
    using assms(2) inv_startScan [of Sh m ex mk S ws "[]"] by (auto simp: turn_inv_def)
qed

lemma migration_turns_inv: "migration_turns a b \<Longrightarrow> turn_inv Sh a \<Longrightarrow> turn_inv Sh b"
  by (induction rule: rtranclp_induct) (auto intro: migration_turn_inv)

lemma enterShards_inv:
  assumes "idle m" and "distinct (map fst (mt_migrateShards task))"
  shows "turn_inv (set (map fst (mt_migrateShards task)))
    ((enterShards task m, [], []), shardsPerWS (map fst (mt_migrateShards task)))"
proof -
  let ?shards = "map fst (mt_migrateShards task)"
  have "fold (\<lambda>s f. f(s \<mapsto> newMigratingShardInfo s)) xs g =
      (\<lambda>s. if s \<in> set xs then Some (newMigratingShardInfo s) else g s)" for xs :: "nat list" and g
    by (induction xs arbitrary: g) (auto simp: fun_eq_iff)
  moreover have "waiting (enterShards task m) = waiting m"
    by (simp add: waiting_def enterShards_def)
  ultimately have "migration_inv (set ?shards) (enterShards task m, [], [])"
    using assms(1) by (auto simp: migration_inv_def live_def tasks_ok_def taskTable_def idle_def newMigratingShardInfo_def
      enterShards_def scansOf_def exportsOf_def fun_eq_iff)
  moreover have "\<forall>(ws, S) \<in> set (shardsPerWS ?shards). S \<noteq> [] \<and> distinct S \<and> set S \<subseteq> set ?shards"
    using assms(2) by (auto simp: shardsPerWS_def std_set_def filter_empty_conv)
  ultimately show ?thesis
    by (simp add: turn_inv_def)
qed

text \<open>\<^verbatim>\<open>startMigration\<close> without other threads in between is one such sequence of turns, and it returns.\<close>

lemma startMigration_turns:
  assumes "idle m" and "distinct (map fst (mt_migrateShards task))"
  shows "\<exists>m'. startMigration task m = Some m' \<and>
    migration_turns ((enterShards task m, [], []), shardsPerWS (map fst (mt_migrateShards task))) ((m', [], []), [])"
proof -
  have "\<exists>m'. startScans wss m = Some m' \<and> migration_turns ((m, [], []), wss) ((m', [], []), [])"
    if "turn_inv Sh ((m, [], []), wss)" for Sh m wss
    using that
  proof (induction wss arbitrary: m)
    case (Cons w wss)
    obtain ws S where w: "w = (ws, S)"
      by (cases w)
    obtain m1 where m1: "startScan ws S [] m = Some m1" "migration_inv Sh (m1, [], [])"
      using inv_startScan [of Sh m "[]" "[]" S ws "[]"] Cons.prems w by (auto simp: turn_inv_def)
    then obtain m' where "startScans wss m1 = Some m'" "migration_turns ((m1, [], []), wss) ((m', [], []), [])"
      using Cons.IH [of m1] Cons.prems by (auto simp: turn_inv_def)
    then show ?case
      using m1(1) w by (auto intro: converse_rtranclp_into_rtranclp migration_turn.starts)
  qed simp
  from this [OF enterShards_inv [OF assms]] show ?thesis
    by (simp add: startMigration_def)
qed

end
