(* ===== verification/Service_Properties.thy ===== *)
theory Service_Properties
  imports Watch_Center Cache_Eviction Migration_Manager Reference_Lib
begin

text \<open>
  Properties of the services around the store: the watch center behind the persistent store, the eviction
  of the leader's cache, the thread pool, and the migration of shards.
\<close>

section \<open>Watches\<close>

text \<open>What an applied event tells the observers of the persistent store. Writes with a time to live are
  not announced.\<close>

fun eventCalls :: "Event \<Rightarrow> ObserverCall list" where
  "eventCalls (EvWrite w) = (if we_isNoOp w \<or> we_enableTTL w then [] else [OnWriteValue (we_key w) (we_value w) (we_version w)])"
| "eventCalls (EvImport w _) = (if we_isNoOp w \<or> we_enableTTL w then [] else [OnWriteValue (we_key w) (we_value w) (we_version w)])"
| "eventCalls (EvDelete d) = [OnDeleteKey (de_key d) (de_deletedVersion d) (de_version d)]"
| "eventCalls (EvRead _) = []"

fun notifications :: "WatchOp list \<Rightarrow> ObserverCall list" where
  "notifications (WNotify c # ops) = c # notifications ops"
| "notifications (_ # ops) = notifications ops"
| "notifications [] = []"

lemma rocks_write_calls:
  assumes "WriteEvent_apply (RocksDB_ops L) w r = Some (st, r')"
  shows "mRObserved r' = mRObserved r @ eventCalls (EvWrite w)"
  using assms by (auto simp: WriteEvent_apply_def RocksDB_ops_def Rocks_writeKV_def Rocks_writeTTLKV_def Rocks_observe_def batchAdd_def
    bind_eq_Some_conv split: if_splits)

lemma rocks_event_calls:
  assumes "apply_event (RocksDB_ops L) e r = Some (st, r')"
  shows "mRObserved r' = mRObserved r @ eventCalls e"
proof (cases e)
  case (EvDelete d)
  with assms show ?thesis
    by (auto simp: RocksDB_ops_def Rocks_deleteKV_def Rocks_observe_def batchAdd_def bind_eq_Some_conv)
qed (use assms rocks_write_calls [of L _ r st r'] in auto)

lemma rocks_events_calls:
  "apply_events (RocksDB_ops L) es r = Some (Status_ok, r') \<Longrightarrow> mRObserved r' = mRObserved r @ concat (map eventCalls es)"
proof (induction es arbitrary: r)
  case (Cons e es)
  then obtain st r1 where r1: "apply_event (RocksDB_ops L) e r = Some (st, r1)"
      "(if isOK st then apply_events (RocksDB_ops L) es r1 else Some (st, r1)) = Some (Status_ok, r')"
    by (auto simp: bind_eq_Some_conv)
  then have "apply_events (RocksDB_ops L) es r1 = Some (Status_ok, r')"
    by (auto split: if_splits)
  with Cons.IH [OF this] rocks_event_calls [OF r1(1)] show ?case
    by simp
qed simp

lemma opChanges_notifications: "concat (map (opChanges k) ops) = concat (map (noticed k) (notifications ops))"
  by (induction ops rule: notifications.induct) simp_all

text \<open>What an event changes about a watched key.\<close>

definition eventChanges :: "KeyType \<Rightarrow> Event list \<Rightarrow> WatchEntry list" where
  "eventChanges k es = concat (map (noticed k) (concat (map eventCalls es)))"



section \<open>Cache eviction\<close>

lemma newLRUEviction_inv: "newLRUEviction capacity optimal minBatch maxBatch = Some l \<Longrightarrow> LRU_inv l \<and> recency l = [] \<and> handedOver l = {}"
  by (auto simp: newLRUEviction_def LRU_inv_def handedOver_def bind_eq_Some_conv)

text \<open>C30: Under any sequence of reads, writes and evictions of the cache, every callback of the eviction
  strategy returns: no iterator is used after its node is gone. The list of uses and the map stay
  consistent, a batch of keys never exceeds the maximum, and the keys that were written are exactly those
  that are still tracked or were handed over for eviction.\<close>

theorem lru_tracks_written:
  assumes "newLRUEviction capacity optimal minBatch maxBatch = Some l" and "\<forall>call \<in> set calls. \<not> isDeleteCall call"
  shows "\<exists>l'. observe_all ver calls l = Some l' \<and> LRU_inv l' \<and> set (recency l') \<union> handedOver l' = writtenKeys calls"
  using observe_all_effect [OF _ assms(2), of l ver] newLRUEviction_inv [OF assms(1)] by simp

theorem lru_tracks_written_witness:
  "\<exists>l'. observe_all 9 [OnWriteValue ''a'' ''123456'' 5, OnReadValue ''a'', OnWriteValue ''b'' ''1'' 6]
     \<lparr>mOptimal = 5, mMinBatch = 1, mMaxBatch = 2, mCurUsage = 0, mPendingEvictBatch = [], mUsed = [], mCacheMap = Map.empty,
       mFreshNode = 0, mCommandQueue = []\<rparr> = Some l' \<and>
   LRU_inv l' \<and> set (recency l') \<union> handedOver l' = {''a'', ''b''}"
proof -
  have "writtenKeys [OnWriteValue ''a'' ''123456'' 5, OnReadValue ''a'', OnWriteValue ''b'' ''1'' 6] = {''a'', ''b''}"
    by (auto simp: writtenKeys_def)
  then show ?thesis
    using lru_tracks_written [of 10 5 1 2 _ "[OnWriteValue ''a'' ''123456'' 5, OnReadValue ''a'', OnWriteValue ''b'' ''1'' 6]" 9]
    by (simp add: newLRUEviction_def isDeleteCall_def)
qed

text \<open>Overwriting a tracked key leaves the usage as it is, whatever the sizes of the two values; the size that a
  later eviction gives back is the new one.\<close>

lemma overwrite_keeps_usage:
  assumes "LRU_inv l" and "mCacheMap l k = Some (sz0, it)" and "mCurUsage l \<le> mOptimal l"
  shows "\<exists>l' it'. LRU_onWriteValue ver k sz l = Some l' \<and> mCurUsage l' = mCurUsage l \<and> mCacheMap l' k = Some (sz, it')"
proof -
  let ?l0 = "l\<lparr>mCurUsage := mCurUsage l + sz\<rparr>"
  have "LRU_inv ?l0" "mCacheMap ?l0 k = Some (sz0, it)"
    using assms(1,2) by (simp_all add: LRU_inv_def)
  from LRU_move_front [OF this, of sz] obtain l1 where "eraseNode it ?l0 = Some l1" "mCurUsage l1 = mCurUsage ?l0"
      "mOptimal l1 = mOptimal ?l0" .
  moreover have "\<not> mOptimal l < mCurUsage l"
    using assms(3) by simp
  ultimately show ?thesis
    using assms(2) by (simp add: LRU_onWriteValue_def push_front_def Let_def)
qed

section \<open>The thread pool\<close>

text \<open>C31: However the threads of the pool, the thread that takes off finished tasks and the submitters
  interleave, the tasks are started in the order they were submitted and none of them twice.\<close>

theorem thread_pool_fifo:
  fixes p :: "MigrationWork ThreadPoolService"
  assumes "pool_steps (newThreadPoolService, [], []) (p, submitted, started)"
  shows "\<exists>rest. submitted = started @ rest \<and> distinct started \<and>
    rest = map mTaskID (filter (\<lambda>t. flag t = Initial) (mTaskQueue p))"
proof -
  have "pool_inv (p, submitted, started)"
    using pool_steps_inv [OF assms newThreadPool_inv] .
  then obtain gone claimed waiting where "submitted = gone @ map mTaskID claimed @ map mTaskID waiting"
      "mTaskQueue p = claimed @ waiting" "started = gone @ map mTaskID claimed" "\<forall>t \<in> set claimed. flag t \<noteq> Initial"
      "\<forall>t \<in> set waiting. flag t = Initial" "distinct submitted"
    by (auto simp: pool_inv_def)
  moreover from this have "filter (\<lambda>t. flag t = Initial) (mTaskQueue p) = waiting"
    by (simp add: filter_id_conv filter_empty_conv)
  ultimately show ?thesis
    by auto
qed

theorem thread_pool_fifo_witness:
  "\<exists>p :: MigrationWork ThreadPoolService. pool_steps (newThreadPoolService, [], []) (p, [0, 1], [0]) \<and>
     map mTaskID (filter (\<lambda>t. flag t = Initial) (mTaskQueue p)) = [1]"
proof -
  let ?t = "ScanTask ''cf'' [7] []"
  let ?p1 = "submit 0 ?t (newThreadPoolService\<lparr>mMaxTaskID := 1\<rparr>)"
  let ?p2 = "submit 1 ?t (?p1\<lparr>mMaxTaskID := 2\<rparr>)"
  obtain t p where p: "executeClaim ?p2 = Some (t, p)" "mTaskID t = 0"
    by (simp add: executeClaim_def submit_def newThreadPoolService_def)
  have "pool_step (newThreadPoolService, [], []) (?p1, [] @ [0], [])"
    by (rule submits) (simp add: allocateNewTaskID_def newThreadPoolService_def)
  moreover have "pool_step (?p1, [] @ [0], []) (?p2, ([] @ [0]) @ [1], [])"
    by (rule submits) (simp add: allocateNewTaskID_def submit_def)
  moreover have "pool_step (?p2, ([] @ [0]) @ [1], []) (p, ([] @ [0]) @ [1], [] @ [mTaskID t])"
    by (rule pool_step.claims) (rule p(1))
  ultimately have steps: "pool_steps (newThreadPoolService, [], []) (p, [0, 1], [0])"
    using p(2) by (auto intro: rtranclp_trans)
  from thread_pool_fifo [OF steps] steps show ?thesis
    by auto
qed

section \<open>Migration\<close>


text \<open>A run on one working set, until its only export has a shard to mark. What is left of the list of working
  sets does not matter to it.\<close>

lemma one_scan_run:
  assumes "w = ''cf_for_app7''"
    and "m0 = \<lparr>mMigrationTaskID = 0, mMigratingInfo = info(7 \<mapsto> newMigratingShardInfo 7),
      mThreadPoolService = newThreadPoolService, mm_scanning = [], mm_reports = []\<rparr>"
  shows "\<exists>m1. migration_turns ((m0, [], []), (w, [7]) # wss) ((m1, [], [(1, [7])]), wss) \<and>
    waiting m1 = [] \<and> mm_scanning m1 = [] \<and> mm_reports m1 = []"
proof -
  let ?scan = "ScanTask w [7] []" and ?exp = "ExportTask w [7] []"
  let ?info = "\<lambda>S E. info(7 \<mapsto> \<lparr>mShardId = 7, mScanTasks = S, mExportTasks = E\<rparr>)"
  let ?m = "\<lambda>info q n scanning. \<lparr>mMigrationTaskID = 0, mMigratingInfo = info,
    mThreadPoolService = \<lparr>mTaskQueue = q, mPendingReplyQueueSize = n, mMaxTaskID = n\<rparr>, mm_scanning = scanning, mm_reports = []\<rparr>"
  let ?ts = "\<lambda>f. \<lparr>mTaskID = 0, flag = f, payload = ?scan\<rparr>" and ?te = "\<lambda>f. \<lparr>mTaskID = 1, flag = f, payload = ?exp\<rparr>"
  have "migration_turn ((m0, [], []), (w, [7]) # wss) ((?m (?info {0} {}) [?ts Initial] 1 [], [], []), wss)"
    by (rule migration_turn.starts)
      (simp add: assms(2) newThreadPoolService_def startScan_def newTaskID_def allocateNewTaskID_def
        submitTask_def submit_def onShard_def newMigratingShardInfo_def addScanTask_def)
  moreover have "migration_step (?m (?info {0} {}) [?ts Initial] 1 [], [], []) (?m (?info {0} {}) [?ts Doing] 1 [(0, ?scan)], [], [])"
    using migration_step.claim_scan [of "?m (?info {0} {}) [?ts Initial] 1 []" "?ts Initial"]
    by (simp add: executeClaim_def ScanTask_run_def)
  moreover have "migration_step (?m (?info {0} {}) [?ts Doing] 1 [(0, ?scan)], [], [])
      (?m (?info {} {1}) [?ts Doing, ?te Initial] 2 [], [], [])"
    by (rule migration_step.scan_delivers [where i = 0 and t = ?scan and d = "[]" and hasValue = False])
      (simp_all add: ScanTask_onCommandFinished_def newTaskID_def allocateNewTaskID_def onShard_def addExportTask_def
        submitTask_def submit_def markScanTaskDone_def shard_markScanTaskDone_def)
  moreover have "migration_step (?m (?info {} {1}) [?ts Doing, ?te Initial] 2 [], [], [])
      (?m (?info {} {1}) [?ts Doing, ?te Doing] 2 [], [(1, ?exp)], [])"
    using migration_step.claim_export [of "?m (?info {} {1}) [?ts Doing, ?te Initial] 2 []" "?te Initial"]
    by (simp add: executeClaim_def)
  moreover have "migration_step (?m (?info {} {1}) [?ts Doing, ?te Doing] 2 [], [(1, ?exp)], [])
      (?m (?info {} {1}) [?ts Doing, ?te Doing] 2 [], [], [(1, [7])])"
    using migration_step.export_works [of 1 w "[7]" "[]" "[(1, ?exp)]" "[]" "?m (?info {} {1}) [?ts Doing, ?te Doing] 2 []"]
    by (simp add: failedKeysOf_def)
  ultimately have "migration_turns ((m0, [], []), (w, [7]) # wss) ((?m (?info {} {1}) [?ts Doing, ?te Doing] 2 [], [], [(1, [7])]), wss)"
    by (meson migration_turn.works converse_rtranclp_into_rtranclp rtranclp.rtrancl_refl)
  then show ?thesis
    by (intro exI [where x = "?m (?info {} {1}) [?ts Doing, ?te Doing] 2 []"]) (simp add: waiting_def)
qed

lemma to_string_7: "to_string 7 = ''7''"
  by code_simp

lemma to_string_8: "to_string 8 = ''8''"
  by code_simp

lemmas one_scan_defs = emptyMigrationTask_def newMigrationManager_def newThreadPoolService_def shardsPerWS_def enterShards_def
  shardIdToColumnFamily_def kWorkingSetFactor_def kWorkingSetNamePrefix_def std_set_def to_string_7 to_string_8

lemma marked_same: "markExportTaskDone shard i m = Some m' \<Longrightarrow> waiting m' = waiting m \<and> mm_scanning m' = mm_scanning m"
  by (auto simp: markExportTaskDone_def onShard_def waiting_def bind_eq_Some_conv)


text \<open>The scans that are not started yet are not counted: the first working set may be done, and success
  reported, before the scan of the second one exists.\<close>

lemma success_before_all_scans:
  "\<exists>m1 m2 r. migration_turns
      ((enterShards (emptyMigrationTask\<lparr>mt_migrateShards := [(7, SS_INITED), (8, SS_INITED)]\<rparr>) (newMigrationManager 0), [], []),
       shardsPerWS [7, 8]) ((m1, [], [(1, [7])]), [(''cf_for_app8'', [8])]) \<and>
    markExportTaskDone 7 1 m1 = Some m2 \<and> mm_reports m2 = mm_reports m1 @ [r] \<and> mp_overallStatus r = MS_SUCCEEDED"
proof -
  let ?task = "emptyMigrationTask\<lparr>mt_migrateShards := [(7, SS_INITED), (8, SS_INITED)]\<rparr>" and ?m = "newMigrationManager 0"
  let ?Sh = "set (map fst (mt_migrateShards ?task))"
  have ws: "shardsPerWS [7, 8] = [(''cf_for_app7'', [7]), (''cf_for_app8'', [8])]"
    by (simp add: one_scan_defs)
  obtain m1 where run: "migration_turns ((enterShards ?task ?m, [], []), shardsPerWS [7, 8]) ((m1, [], [] @ (1, 7 # []) # []), [(''cf_for_app8'', [8])])"
      "waiting m1 = []" "mm_scanning m1 = []"
    unfolding ws using one_scan_run [of "''cf_for_app7''" "enterShards ?task ?m" "[8 \<mapsto> newMigratingShardInfo 8]" "[(''cf_for_app8'', [8])]"]
    by (auto simp: one_scan_defs fun_upd_twist)
  have "turn_inv ?Sh ((enterShards ?task ?m, [], []), shardsPerWS [7, 8])"
    using enterShards_inv [of ?m ?task] by (simp add: idle_def waiting_def newMigrationManager_def newThreadPoolService_def)
  then have "migration_inv ?Sh (m1, [], [] @ (1, 7 # []) # [])"
    using migration_turns_inv [OF run(1)] unfolding turn_inv_def by blast
  from inv_marked [OF this] obtain m2 r where "markExportTaskDone 7 1 m1 = Some m2" "mm_reports m2 = mm_reports m1 @ [r]"
      "mp_overallStatus r = MS_SUCCEEDED \<longleftrightarrow> waiting m2 = [] \<and> mm_scanning m2 = []"
    by (auto simp: live_def)
  then show ?thesis
    using run marked_same [of 7 1 m1 m2] by auto
qed

end
