(* ===== verification/Object_Store.thy ===== *)
theory Object_Store
  imports Migration_Manager Command_Processor
begin

text \<open>
  \<^verbatim>\<open>object-store/ObjectStore\<close>: which shards the cluster is responsible for, the callback that refuses
  commands whose keys are not among them, and starting and ending a migration. What the object manager
  and the engine answer are arguments of the operations that wait for them.
\<close>

section \<open>Addresses and shards\<close>

type_synonym ClusterAddressFormat = string

definition clusterToAddressFormat :: "ClusterAddress \<Rightarrow> ClusterAddressFormat" where
  "clusterToAddressFormat addr = joinWith (CHR '','') addr"

definition addressFormatToCluster :: "ClusterAddressFormat \<Rightarrow> ClusterAddress" where
  "addressFormatToCluster addrFormat = tokenize addrFormat (CHR '','')"

text \<open>\<^verbatim>\<open>raftMembersToClusterAddress\<close>: the addresses of the members as the clients see them, each port at
  the same distance from the port of this node. Ports are unsigned 64-bit numbers.\<close>

primrec memberPorts :: "string list \<Rightarrow> ((string \<times> 64 word) list) option" where
  "memberPorts [] = Some []"
| "memberPorts (m # ms) = do {
     let ipPort = tokenize m (CHR '':'');
     assert (length ipPort = 2);
     port \<leftarrow> stoi (ipPort ! 1);
     rest \<leftarrow> memberPorts ms;
     Some ((ipPort ! 0, of_int port) # rest)
   }"

definition raftMembersToClusterAddress :: "64 word \<Rightarrow> nat \<Rightarrow> string list \<Rightarrow> ClusterAddress option" where
  "raftMembersToClusterAddress appPort selfId raftMemberInfo = do {
     assert (selfId \<le> length raftMemberInfo);
     members \<leftarrow> memberPorts raftMemberInfo;
     assert (0 < selfId);
     let basePort = snd (members ! (selfId - 1));
     Some (map (\<lambda>(i, ip, port). to_string (i + 1) @ ''@'' @ ip @ '':'' @ to_string (unat (appPort + port - basePort)))
       (zip [0..<length members] members))
   }"

definition ShardFactor_DEFAULT :: nat where
  "ShardFactor_DEFAULT = 12"

definition keyToShardId :: "KeyType \<Rightarrow> nat" where
  "keyToShardId key = unat (simpleHash key AND (2 ^ ShardFactor_DEFAULT - 1))"

definition TRX_KEY_PREFIX :: string where
  "TRX_KEY_PREFIX = ''/RMSTRX''"

definition RMSTRX_SHARD_IDX :: nat where
  "RMSTRX_SHARD_IDX = 1"

text \<open>The working sets the engine is started with, and the lookup function.\<close>

definition allWS :: "WSName list" where
  "allWS = map (\<lambda>i. kWorkingSetNamePrefix @ to_string i) [0..<2 ^ kWorkingSetFactor]"

definition wsLookupFunc :: "KeyType \<Rightarrow> WSName" where
  "wsLookupFunc key = shardIdToColumnFamily kWorkingSetNamePrefix (keyToShardId key) kWorkingSetFactor"

section \<open>Global information\<close>

record RouteInfoHelper =
  mRouteInfo :: RouteInfo
  mCluster2ShardIds :: "ClusterAddressFormat \<Rightarrow> nat set option"

definition newRouteInfoHelper :: RouteInfoHelper where
  "newRouteInfoHelper = \<lparr>mRouteInfo = emptyRouteInfo, mCluster2ShardIds = Map.empty\<rparr>"

definition getRouteVersion :: "RouteInfoHelper \<Rightarrow> 64 word" where
  "getRouteVersion h = ri_version (mRouteInfo h)"

definition getPartionStrategy :: "RouteInfoHelper \<Rightarrow> PartitionStrategy" where
  "getPartionStrategy h = ri_partitionStrategy (mRouteInfo h)"

text \<open>\<^verbatim>\<open>mCluster2ShardIds.at(cluster)\<close> throws when the cluster is not there.\<close>

definition checkIfInClusterScope :: "ClusterAddressFormat \<Rightarrow> nat \<Rightarrow> RouteInfoHelper \<Rightarrow> bool option" where
  "checkIfInClusterScope cluster shardId h = map_option (\<lambda>ids. shardId \<in> ids) (mCluster2ShardIds h cluster)"

definition insertShard :: "ClusterAddressFormat \<Rightarrow> nat \<Rightarrow> RouteInfoHelper \<Rightarrow> RouteInfoHelper" where
  "insertShard addrFormat i h = h\<lparr>mCluster2ShardIds :=
     (mCluster2ShardIds h)(addrFormat \<mapsto> insert i (case mCluster2ShardIds h addrFormat of None \<Rightarrow> {} | Some ids \<Rightarrow> ids))\<rparr>"

definition updateShardMap :: "RouteInfoHelper \<Rightarrow> RouteInfoHelper" where
  "updateShardMap h = fold (\<lambda>(cluster, shards). fold (insertShard (clusterToAddressFormat cluster)) shards)
     (ri_placementMap (mRouteInfo h)) h"

definition updateRouteInfo :: "RouteInfo \<Rightarrow> RouteInfoHelper \<Rightarrow> RouteInfoHelper" where
  "updateRouteInfo info h = updateShardMap (h\<lparr>mRouteInfo := info\<rparr>)"

record MigrationInfoHelp =
  mMigrationTask :: MigrationTask
  mShard2Status :: "nat \<Rightarrow> MigrationShardStatus option"

definition newMigrationInfoHelp :: MigrationInfoHelp where
  "newMigrationInfoHelp = \<lparr>mMigrationTask = emptyMigrationTask, mShard2Status = Map.empty\<rparr>"

definition getSourceCluster :: "MigrationInfoHelp \<Rightarrow> ClusterAddressFormat" where
  "getSourceCluster h = clusterToAddressFormat (mt_sourceCluster (mMigrationTask h))"

definition getTargetCluster :: "MigrationInfoHelp \<Rightarrow> ClusterAddressFormat" where
  "getTargetCluster h = clusterToAddressFormat (mt_targetCluster (mMigrationTask h))"

definition checkIfInMigrationShards :: "nat \<Rightarrow> MigrationInfoHelp \<Rightarrow> bool" where
  "checkIfInMigrationShards shardId h = (mShard2Status h shardId \<noteq> None)"

definition updateMigrationMap :: "MigrationInfoHelp \<Rightarrow> MigrationInfoHelp" where
  "updateMigrationMap h = fold (\<lambda>(shard, st) h. h\<lparr>mShard2Status := (mShard2Status h)(shard \<mapsto> st)\<rparr>)
     (mt_migrateShards (mMigrationTask h)) h"

definition updateMigrationTask :: "MigrationTask \<Rightarrow> MigrationInfoHelp \<Rightarrow> MigrationInfoHelp" where
  "updateMigrationTask task h = updateMigrationMap (h\<lparr>mMigrationTask := task\<rparr>)"

record GlobalInfo =
  mMyClusterAddrFormat :: ClusterAddressFormat
  mGStatus :: ClusterStatus
  mRouteInfoHelper :: RouteInfoHelper
  mMigrationInfoHelper :: MigrationInfoHelp
  mCachedMyClusterAddrFormat :: ClusterAddressFormat
  mCachedStatus :: ClusterStatus
  mCachedRouteInfoHelper :: RouteInfoHelper
  mCachedMigrationInfoHelper :: MigrationInfoHelp

definition newGlobalInfo :: GlobalInfo where
  "newGlobalInfo = \<lparr>mMyClusterAddrFormat = [], mGStatus = CS_INIT, mRouteInfoHelper = newRouteInfoHelper,
     mMigrationInfoHelper = newMigrationInfoHelp, mCachedMyClusterAddrFormat = [], mCachedStatus = CS_INIT,
     mCachedRouteInfoHelper = newRouteInfoHelper, mCachedMigrationInfoHelper = newMigrationInfoHelp\<rparr>"

definition updateLatestRouteInfo :: "RouteInfo \<Rightarrow> GlobalInfo \<Rightarrow> GlobalInfo" where
  "updateLatestRouteInfo info g = g\<lparr>mRouteInfoHelper := updateRouteInfo info (mRouteInfoHelper g),
     mCachedRouteInfoHelper := updateRouteInfo info (mCachedRouteInfoHelper g)\<rparr>"

definition updateLatestInfo :: "ClusterStatus \<Rightarrow> RouteInfo \<Rightarrow> MigrationTask \<Rightarrow> GlobalInfo \<Rightarrow> GlobalInfo" where
  "updateLatestInfo st info task g = g\<lparr>mGStatus := st,
     mRouteInfoHelper := updateRouteInfo info (mRouteInfoHelper g),
     mMigrationInfoHelper := updateMigrationTask task (mMigrationInfoHelper g),
     mCachedStatus := st,
     mCachedRouteInfoHelper := updateRouteInfo info (mCachedRouteInfoHelper g),
     mCachedMigrationInfoHelper := updateMigrationTask task (mCachedMigrationInfoHelper g)\<rparr>"

text \<open>The overload with the address of the cluster.\<close>

definition updateLatestInfoAddr :: "ClusterAddress \<Rightarrow> ClusterStatus \<Rightarrow> RouteInfo \<Rightarrow> MigrationTask \<Rightarrow> GlobalInfo \<Rightarrow> GlobalInfo" where
  "updateLatestInfoAddr clusterAddr st info task g =
     (updateLatestInfo st info task g)\<lparr>mMyClusterAddrFormat := clusterToAddressFormat clusterAddr,
        mCachedMyClusterAddrFormat := clusterToAddressFormat clusterAddr\<rparr>"

section \<open>The service object\<close>

text \<open>\<open>os_routeRequests\<close> counts the requests for route information that were sent.\<close>

record ObjectStore =
  mGlobalInfo :: GlobalInfo
  mRefreshingRouteInfo :: bool
  mMigrationManager :: "MigrationManager option"
  os_routeRequests :: nat

definition refreshRouteInfo :: "ObjectStore \<Rightarrow> ObjectStore" where
  "refreshRouteInfo os = (if mRefreshingRouteInfo os then os
     else os\<lparr>mRefreshingRouteInfo := True, os_routeRequests := os_routeRequests os + 1\<rparr>)"

text \<open>The callback of the request: the code of the answer is not looked at.\<close>

definition onRouteInfo :: "RouteInfo \<Rightarrow> ObjectStore \<Rightarrow> ObjectStore" where
  "onRouteInfo info os = os\<lparr>mGlobalInfo := updateLatestRouteInfo info (mGlobalInfo os), mRefreshingRouteInfo := False\<rparr>"

text \<open>\<^verbatim>\<open>preExecuteCallBack\<close>: the loop over the keys of the command.\<close>

definition isMiniTrxKey :: "KeyType list \<Rightarrow> bool" where
  "isMiniTrxKey keys = list_all (\<lambda>key. take (length TRX_KEY_PREFIX) key = TRX_KEY_PREFIX) keys"

definition shardOfKey :: "bool \<Rightarrow> KeyType \<Rightarrow> nat" where
  "shardOfKey isMini key = (if isMini then RMSTRX_SHARD_IDX else keyToShardId key)"

primrec checkKeys :: "'s KVStore \<Rightarrow> GlobalInfo \<Rightarrow> bool \<Rightarrow> KeyType list \<Rightarrow> 's \<Rightarrow> (Status \<times> 's) option" where
  "checkKeys K g isMini [] s = Some (Status_ok, s)"
| "checkKeys K g isMini (key # keys) s = do {
     let shardId = shardOfKey isMini key;
     inScope \<leftarrow> checkIfInClusterScope (mCachedMyClusterAddrFormat g) shardId (mCachedRouteInfoHelper g);
     if \<not> inScope then
       if mCachedStatus g = CS_IMPORTING \<and> checkIfInMigrationShards shardId (mCachedMigrationInfoHelper g)
       then checkKeys K g isMini keys s
       else Some (Status_wrongRoute ''routed to a wrong cluster'', s)
     else if mCachedStatus g = CS_EXPORTING \<and> checkIfInMigrationShards shardId (mCachedMigrationInfoHelper g) then do {
       (st, _, s1) \<leftarrow> kv_readMeta K key defaultMeta s;
       if isNotFound st then Some (Status_migratedRoute (getTargetCluster (mCachedMigrationInfoHelper g)), s1)
       else checkKeys K g isMini keys s1
     }
     else checkKeys K g isMini keys s
   }"

definition preExecuteCallBack ::
  "'s KVStore \<Rightarrow> ObjectStore \<Rightarrow> RequestHeader \<Rightarrow> KeyType list option \<Rightarrow> 's \<Rightarrow> (Status \<times> ObjectStore \<times> 's) option" where
  "preExecuteCallBack K os header targetKeys s =
     (let g = mGlobalInfo os; routeInfo = mCachedRouteInfoHelper g
      in if rh_routeVersion header < getRouteVersion routeInfo
         then Some (Status_clientRouteOutOfDate ''client needs to refresh route info'', os, s)
         else if getRouteVersion routeInfo < rh_routeVersion header
         then Some (Status_serverRouteOutOfDate ''server refreshing route, please try again'', refreshRouteInfo os, s)
         else if mCachedStatus g = CS_OUT_OF_SERVICE
         then Some (Status_outOfService ''server is not in good state'', os, s)
         else if getPartionStrategy routeInfo \<noteq> HASH_MOD
         then Some (Status_notSupported ''invalid partition strategy'', os, s)
         else do {
           keys \<leftarrow> targetKeys;
           (st, s1) \<leftarrow> checkKeys K g (isMiniTrxKey keys) keys s;
           Some (st, os, s1)
         })"

text \<open>The callback as the command processor calls it.\<close>

definition preExecuteFunc :: "'s KVStore \<Rightarrow> ObjectStore \<Rightarrow> 's PreExecute" where
  "preExecuteFunc K os = (\<lambda>now header targetKeys s. map_option (\<lambda>(st, os', s'). (st, s')) (preExecuteCallBack K os header targetKeys s))"

section \<open>Leadership and migration\<close>

record OnStartupResponse =
  su_code :: ResponseCode
  su_status :: ClusterStatus
  su_routeInfo :: RouteInfo
  su_migrationTask :: MigrationTask

text \<open>\<^verbatim>\<open>becomeLeaderCallBack\<close> reports the start until the object manager answers with success; the empty list
  of answers is a loop that is still trying.\<close>

primrec reportStartup :: "ClusterAddress \<Rightarrow> OnStartupResponse list \<Rightarrow> ObjectStore \<Rightarrow> (Status \<times> ObjectStore) option" where
  "reportStartup cluster [] os = None"
| "reportStartup cluster (resp # resps) os =
     (if su_code resp \<noteq> RC_OK then reportStartup cluster resps os
      else Some (Status_ok, os\<lparr>mGlobalInfo :=
        updateLatestInfoAddr cluster (su_status resp) (su_routeInfo resp) (su_migrationTask resp) (mGlobalInfo os)\<rparr>))"

definition becomeLeaderCallBack ::
  "string \<Rightarrow> nat \<Rightarrow> OnStartupResponse list \<Rightarrow> string list \<Rightarrow> ObjectStore \<Rightarrow> (Status \<times> ObjectStore) option" where
  "becomeLeaderCallBack ipPortStr selfId resps clusterInfo os = do {
     let ipWithPort = tokenize ipPortStr (CHR '':'');
     assert (length ipWithPort = 2);
     port \<leftarrow> stoi (ipWithPort ! 1);
     cluster \<leftarrow> raftMembersToClusterAddress (of_int port) selfId clusterInfo;
     reportStartup cluster resps os
   }"

text \<open>\<^verbatim>\<open>getResponse\<close> is the code the engine answers to the read that asks for the leadership. The thread pool of
  the manager draws its task ids from a counter of the process.\<close>

definition triggerMigration ::
  "ResponseCode \<Rightarrow> TaskID \<Rightarrow> ClusterStatus \<Rightarrow> RouteInfo \<Rightarrow> MigrationTask \<Rightarrow> ObjectStore \<Rightarrow> (Status \<times> ObjectStore) option" where
  "triggerMigration code nextId st routeInfo task os =
     (if mMigrationManager os \<noteq> None then Some (Status_notSupported ''already has a migration task running'', os)
      else if code = RC_NOT_LEADER then Some (Status_notLeader [], os)
      else do {
        m \<leftarrow> startMigration task (newMigrationManager nextId);
        Some (Status_ok, os\<lparr>mGlobalInfo := updateLatestInfo st routeInfo task (mGlobalInfo os), mMigrationManager := Some m\<rparr>)
      })"

definition finishMigration ::
  "ResponseCode \<Rightarrow> ClusterStatus \<Rightarrow> RouteInfo \<Rightarrow> MigrationTask \<Rightarrow> ObjectStore \<Rightarrow> Status \<times> ObjectStore" where
  "finishMigration code st routeInfo task os =
     (if code = RC_NOT_LEADER then (Status_notLeader [], os)
      else
        let curStatus = mGStatus (mGlobalInfo os)
        in if curStatus = CS_EXPORTING \<and> mMigrationManager os \<noteq> None \<or> curStatus = CS_IMPORTING \<and> mMigrationManager os = None
           then (Status_ok, os\<lparr>mMigrationManager := None, mGlobalInfo := updateLatestInfo st routeInfo task (mGlobalInfo os)\<rparr>)
           else (Status_notSupported ''no on-going migration'', os))"

section \<open>The scope of a cluster\<close>

definition scopeOf :: "RouteInfoHelper \<Rightarrow> ClusterAddressFormat \<Rightarrow> nat set" where
  "scopeOf h cluster = (case mCluster2ShardIds h cluster of None \<Rightarrow> {} | Some ids \<Rightarrow> ids)"

text \<open>The shards that a route information lists for a cluster.\<close>

primrec listedIn :: "(ClusterAddress \<times> nat list) list \<Rightarrow> ClusterAddressFormat \<Rightarrow> nat set" where
  "listedIn [] cluster = {}"
| "listedIn (p # ps) cluster = (if cluster = clusterToAddressFormat (fst p) then set (snd p) else {}) \<union> listedIn ps cluster"

definition listedShards :: "RouteInfo \<Rightarrow> ClusterAddressFormat \<Rightarrow> nat set" where
  "listedShards info cluster = listedIn (ri_placementMap info) cluster"

lemma listedIn_iff: "s \<in> listedIn ps cluster \<longleftrightarrow> (\<exists>c ss. (c, ss) \<in> set ps \<and> clusterToAddressFormat c = cluster \<and> s \<in> set ss)"
proof (induction ps)
  case (Cons p ps)
  obtain c ss where "p = (c, ss)"
    by (cases p)
  with Cons show ?case
    by (cases "cluster = clusterToAddressFormat c") (simp_all, blast+)
qed simp

lemma insertShard_scope:
  "scopeOf (insertShard addrFormat i h) cluster = scopeOf h cluster \<union> (if cluster = addrFormat then {i} else {})"
  "mCluster2ShardIds (insertShard addrFormat i h) cluster = None \<longleftrightarrow> mCluster2ShardIds h cluster = None \<and> cluster \<noteq> addrFormat"
  by (auto simp: scopeOf_def insertShard_def)

lemma insertShards_scope:
  "scopeOf (fold (insertShard addrFormat) ss h) cluster = scopeOf h cluster \<union> (if cluster = addrFormat then set ss else {})"
  by (induction ss arbitrary: h) (simp_all add: insertShard_scope)

lemma insertShards_dom:
  "mCluster2ShardIds (fold (insertShard addrFormat) ss h) cluster = None \<longleftrightarrow>
    mCluster2ShardIds h cluster = None \<and> \<not> (cluster = addrFormat \<and> ss \<noteq> [])"
  by (induction ss arbitrary: h) (auto simp: insertShard_scope(2))

lemma updateRouteInfo_scope:
  "scopeOf (updateRouteInfo info h) cluster = scopeOf h cluster \<union> listedShards info cluster"
  "mCluster2ShardIds (updateRouteInfo info h) cluster = None \<longleftrightarrow> mCluster2ShardIds h cluster = None \<and> listedShards info cluster = {}"
proof -
  let ?enter = "\<lambda>(c, ss). fold (insertShard (clusterToAddressFormat c)) ss"
  have "scopeOf (fold ?enter ps h) cluster = scopeOf h cluster \<union> listedIn ps cluster \<and>
    (mCluster2ShardIds (fold ?enter ps h) cluster = None \<longleftrightarrow> mCluster2ShardIds h cluster = None \<and> listedIn ps cluster = {})" for ps h
  proof (induction ps arbitrary: h)
    case (Cons p ps)
    obtain c ss where "p = (c, ss)"
      by (cases p)
    with Cons [of "fold (insertShard (clusterToAddressFormat c)) ss h"] show ?case
      by (simp add: insertShards_scope insertShards_dom Un_assoc)
  qed simp
  then show "scopeOf (updateRouteInfo info h) cluster = scopeOf h cluster \<union> listedShards info cluster"
    and "mCluster2ShardIds (updateRouteInfo info h) cluster = None \<longleftrightarrow> mCluster2ShardIds h cluster = None \<and> listedShards info cluster = {}"
    by (simp_all add: updateRouteInfo_def updateShardMap_def listedShards_def scopeOf_def)
qed

end
