(* ===== verification/Object_Properties.thy ===== *)
theory Object_Properties
  imports Object_Store Command_Properties
begin

text \<open>
  Properties of the object store: which keys its cluster is responsible for, and that a command with other
  keys is refused before it does anything.
\<close>

lemma keyToShardId_mod: "keyToShardId key = unat (simpleHash key) mod 4096"
proof -
  have "(2 ^ ShardFactor_DEFAULT - 1 :: 64 word) = mask 12"
    by (simp add: ShardFactor_DEFAULT_def mask_eq_exp_minus_1)
  then show ?thesis
    by (simp add: keyToShardId_def take_bit_eq_mask [symmetric] take_bit_eq_mod unat_mod_distrib)
qed

lemma keyToShardId_bound: "keyToShardId key < 4096"
  by (simp add: keyToShardId_mod)

section \<open>The callback before execution\<close>

text \<open>Whether the callback lets a key pass, apart from keys that have moved away already.\<close>

definition keyInScope :: "GlobalInfo \<Rightarrow> nat set \<Rightarrow> bool \<Rightarrow> KeyType \<Rightarrow> bool" where
  "keyInScope g ids isMini key = (shardOfKey isMini key \<in> ids \<or>
     mCachedStatus g = CS_IMPORTING \<and> checkIfInMigrationShards (shardOfKey isMini key) (mCachedMigrationInfoHelper g))"

definition routeMatches :: "GlobalInfo \<Rightarrow> RequestHeader \<Rightarrow> bool" where
  "routeMatches g header = (getRouteVersion (mCachedRouteInfoHelper g) = rh_routeVersion header \<and>
     mCachedStatus g \<noteq> CS_OUT_OF_SERVICE \<and> getPartionStrategy (mCachedRouteInfoHelper g) = HASH_MOD)"

lemma preExecute_matching:
  assumes "routeMatches (mGlobalInfo os) header"
  shows "preExecuteFunc K os now header (Some keys) s = checkKeys K (mGlobalInfo os) (isMiniTrxKey keys) keys s"
proof (cases "checkKeys K (mGlobalInfo os) (isMiniTrxKey keys) keys s")
  case None
  with assms show ?thesis
    by (simp add: preExecuteFunc_def preExecuteCallBack_def routeMatches_def Let_def)
next
  case (Some r)
  with assms show ?thesis
    by (cases r) (simp add: preExecuteFunc_def preExecuteCallBack_def routeMatches_def Let_def)
qed

lemma checkKeys_pass:
  assumes "mCluster2ShardIds (mCachedRouteInfoHelper g) (mCachedMyClusterAddrFormat g) = Some ids"
    and "mCachedStatus g \<noteq> CS_EXPORTING" and "\<forall>key \<in> set keys. keyInScope g ids isMini key"
  shows "checkKeys K g isMini keys s = Some (Status_ok, s)"
  using assms by (induction keys) (auto simp: checkIfInClusterScope_def keyInScope_def Let_def)

context kv_command_store
begin

lemma checkKeys_effect:
  assumes "inv s" and "mCluster2ShardIds (mCachedRouteInfoHelper g) (mCachedMyClusterAddrFormat g) = Some ids"
  shows "\<exists>st s'. checkKeys K g isMini keys s = Some (st, s') \<and> inv s' \<and> view s' = view s \<and> resident s' = resident s \<and>
    locks s' = locks s \<and>
    (st = Status_ok \<or> st = Status_wrongRoute ''routed to a wrong cluster'' \<or>
     st = Status_migratedRoute (getTargetCluster (mCachedMigrationInfoHelper g))) \<and>
    ((\<exists>key \<in> set keys. \<not> keyInScope g ids isMini key) \<longrightarrow> st \<noteq> Status_ok)"
  using assms(1)
proof (induction keys arbitrary: s)
  case (Cons key keys)
  from readMeta_law [OF Cons.prems, of key defaultMeta] obtain st meta s1 where
    m: "kv_readMeta K key defaultMeta s = Some (st, meta, s1)" "inv s1" "view s1 = view s" "resident s1 = resident s" "locks s1 = locks s"
    by blast
  let ?shard = "shardOfKey isMini key" and ?mig = "checkIfInMigrationShards (shardOfKey isMini key) (mCachedMigrationInfoHelper g)"
  have scope: "checkIfInClusterScope (mCachedMyClusterAddrFormat g) ?shard (mCachedRouteInfoHelper g) = Some (?shard \<in> ids)"
    using assms(2) by (simp add: checkIfInClusterScope_def)
  consider (wrong) "\<not> keyInScope g ids isMini key" | (moved) "?shard \<in> ids" "mCachedStatus g = CS_EXPORTING" ?mig "isNotFound st"
    | (there) "?shard \<in> ids" "mCachedStatus g = CS_EXPORTING" ?mig "\<not> isNotFound st"
    | (pass) "keyInScope g ids isMini key" "\<not> (?shard \<in> ids \<and> mCachedStatus g = CS_EXPORTING \<and> ?mig)"
    by blast
  then show ?case
  proof cases
    case wrong
    then have "checkKeys K g isMini (key # keys) s = Some (Status_wrongRoute ''routed to a wrong cluster'', s)"
      by (auto simp: scope keyInScope_def Let_def)
    then show ?thesis
      using Cons.prems by (simp add: Status_wrongRoute_def Status_ok_def)
  next
    case moved
    then have "checkKeys K g isMini (key # keys) s = Some (Status_migratedRoute (getTargetCluster (mCachedMigrationInfoHelper g)), s1)"
      using m(1) by (simp add: scope Let_def)
    then show ?thesis
      using m(2-) by (simp add: Status_migratedRoute_def Status_ok_def)
  next
    case there
    then have "checkKeys K g isMini (key # keys) s = checkKeys K g isMini keys s1" "keyInScope g ids isMini key"
      using m(1) by (simp_all add: scope Let_def keyInScope_def)
    then show ?thesis
      using Cons.IH [OF m(2)] m(3-) by simp
  next
    case pass
    then have "checkKeys K g isMini (key # keys) s = checkKeys K g isMini keys s"
      by (auto simp: scope Let_def keyInScope_def)
    then show ?thesis
      using Cons.IH [OF Cons.prems] pass(1) by simp
  qed
qed simp

lemma preExecute_keeps: "pre_keeps inv view resident locks (Some (preExecuteFunc K os))"
proof -
  have loop: "inv s' \<and> view s' = view s \<and> resident s' = resident s \<and> locks s' = locks s"
    if "checkKeys K g isMini keys s = Some (st, s')" "inv s" for g isMini keys st s s'
    using that
  proof (induction keys arbitrary: s)
    case (Cons key keys)
    from readMeta_law [OF Cons.prems(2), of key defaultMeta] obtain st1 meta s1 where
      m: "kv_readMeta K key defaultMeta s = Some (st1, meta, s1)" "inv s1" "view s1 = view s" "resident s1 = resident s" "locks s1 = locks s"
      by blast
    show ?case
      using Cons m by (auto simp: bind_eq_Some_conv Let_def split: if_splits)
  qed simp
  have "inv s' \<and> view s' = view s \<and> resident s' = resident s \<and> locks s' = locks s"
    if "preExecuteFunc K os now h ks s = Some (st, s')" "inv s" for now h ks s st s'
    using that loop by (auto simp: preExecuteFunc_def preExecuteCallBack_def bind_eq_Some_conv Let_def split: if_splits)
  then show ?thesis
    by (auto simp: pre_keeps_def keeps_def stable_def)
qed

text \<open>The answer to a refused transaction. Its route hint is made of the message of a wrong route.\<close>

lemma refused_reply:
  assumes "st = Status_wrongRoute ''routed to a wrong cluster'' \<or> st = Status_migratedRoute hint"
  shows "\<exists>c' r. replyError (Trans_ops ip K) st (newTrans req, p) = Some c' \<and> mReplies c' = [r] \<and> trr_results r = [] \<and>
    h_code (trr_header r) = (if isWrongRoute st then RC_WRONG_ROUTE else RC_MIGRATED_ROUTE) \<and>
    h_routeHint (trr_header r) = (if isWrongRoute st then [''routed to a wrong cluster''] else [])"
proof -
  have "tokenize ''routed to a wrong cluster'' CHR '','' = [''routed to a wrong cluster'']"
    by code_simp
  then show ?thesis
    using assms
    by (auto simp: replyError_def Trans_ops_def Trans_initSuccessResponse_def Trans_fillResponseAndReply_def toResponseCode_def
      Status_wrongRoute_def Status_migratedRoute_def isOK_def isPrecondUnMatched_def isInvalidArg_def isNotSupported_def
      isWrongRoute_def isMigratedRoute_def fillHeader_def callback_def newTrans_def emptyHeader_def Let_def)
qed

lemma trans_refused:
  assumes inv: "inv (mKVStorePtr p)" and keys: "Trans_getTargetKeys (newTrans req) = Some keys"
    and av: "available (locks (mKVStorePtr p)) keys True" and g: "g = mGlobalInfo os" and route: "routeMatches g (tr_header req)"
    and ids: "mCluster2ShardIds (mCachedRouteInfoHelper g) (mCachedMyClusterAddrFormat g) = Some ids"
    and bad: "\<exists>key \<in> set keys. \<not> keyInScope g ids (isMiniTrxKey keys) key"
  shows "\<exists>c' r s'. doExecute (Trans_ops ip K) (Some (preExecuteFunc K os)) now (newTrans req, p) =
        Some ([], c', p\<lparr>mKVStorePtr := s'\<rparr>) \<and>
      mReplies c' = [r] \<and> (h_code (trr_header r) = RC_WRONG_ROUTE \<and> h_routeHint (trr_header r) = [''routed to a wrong cluster''] \<or>
       h_code (trr_header r) = RC_MIGRATED_ROUTE \<and> h_routeHint (trr_header r) = []) \<and> trr_results r = [] \<and>
      inv s' \<and> locks s' = locks (mKVStorePtr p) \<and> view s' = view (mKVStorePtr p)"
proof -
  define P where "P s1 s2 c3 = (view s2 = view s1 \<and> (\<exists>r. mReplies c3 = [r] \<and>
      (h_code (trr_header r) = RC_WRONG_ROUTE \<and> h_routeHint (trr_header r) = [''routed to a wrong cluster''] \<or>
       h_code (trr_header r) = RC_MIGRATED_ROUTE \<and> h_routeHint (trr_header r) = []) \<and> trr_results r = []))" for s1 s2 and c3 :: TransContext
  have body: "\<exists>st c2 s2 c3. doExecute_body (Trans_ops ip K) (Some (preExecuteFunc K os)) now (newTrans req, p\<lparr>mKVStorePtr := s1\<rparr>) =
        Some (True, st, [], [], c2, p\<lparr>mKVStorePtr := s2\<rparr>) \<and>
      inv s2 \<and> locks s2 = locks s1 \<and> Trans_getTargetKeys c2 = Some keys \<and> replyError (Trans_ops ip K) st (c2, p) = Some c3 \<and> P s1 s2 c3"
    if "inv s1" for s1
  proof -
    from checkKeys_effect [OF that ids, of "isMiniTrxKey keys" keys] bad obtain st s2 where
      ck: "checkKeys K g (isMiniTrxKey keys) keys s1 = Some (st, s2)" "inv s2" "view s2 = view s1" "locks s2 = locks s1"
        "st = Status_wrongRoute ''routed to a wrong cluster'' \<or> st = Status_migratedRoute (getTargetCluster (mCachedMigrationInfoHelper g))"
      by blast
    have "\<not> isOK st"
      using ck(5) by (auto simp: isOK_def Status_wrongRoute_def Status_migratedRoute_def)
    moreover have "preExecuteFunc K os now (tr_header req) (Some keys) s1 = Some (st, s2)"
      using preExecute_matching [of os "tr_header req" K now keys s1] route ck(1) by (simp add: g)
    ultimately have "doExecute_body (Trans_ops ip K) (Some (preExecuteFunc K os)) now (newTrans req, p\<lparr>mKVStorePtr := s1\<rparr>) =
        Some (True, st, [], [], newTrans req, p\<lparr>mKVStorePtr := s2\<rparr>)"
      using keys by (simp add: doExecute_body_def runPreExecute_def Trans_ops_def newTrans_def)
    moreover from refused_reply [OF ck(5), of ip req p] obtain c3 r where
      "replyError (Trans_ops ip K) st (newTrans req, p) = Some c3" "mReplies c3 = [r]" "trr_results r = []"
      "(h_code (trr_header r) = RC_WRONG_ROUTE \<and> h_routeHint (trr_header r) = [''routed to a wrong cluster''] \<or>
       h_code (trr_header r) = RC_MIGRATED_ROUTE \<and> h_routeHint (trr_header r) = [])"
      by (cases "isWrongRoute st") auto
    then have "P s1 s2 c3"
      using ck(3) by (simp add: P_def)
    ultimately show ?thesis
      using ck(2,4) keys \<open>replyError (Trans_ops ip K) st (newTrans req, p) = Some c3\<close> by blast
  qed
  have ops: "cmd_prepare (Trans_ops ip K) now = lockTargets K Trans_getTargetKeys True"
      "cmd_finish (Trans_ops ip K) now = applyAndUnlock K Trans_getTargetKeys True"
    by (simp_all add: Trans_ops_def)
  obtain s1 s2 c3 s3 where "view s1 = view (mKVStorePtr p)" "P s1 s2 c3"
      "doExecute (Trans_ops ip K) (Some (preExecuteFunc K os)) now (newTrans req, p) = Some ([], c3, p\<lparr>mKVStorePtr := s3\<rparr>)"
      "inv s3" "view s3 = view s2" "locks s3 = locks (mKVStorePtr p)"
    by (rule doExecute_error [OF ops inv av keys body])
  then show ?thesis
    by (auto simp: P_def)
qed

text \<open>A transaction the callback lets pass runs as without the callback.\<close>

lemma trans_passes:
  assumes "Trans_getTargetKeys (newTrans req) = Some keys" and "g = mGlobalInfo os" and "routeMatches g (tr_header req)"
    and "mCluster2ShardIds (mCachedRouteInfoHelper g) (mCachedMyClusterAddrFormat g) = Some ids"
    and "mCachedStatus g \<noteq> CS_EXPORTING" and "\<forall>key \<in> set keys. keyInScope g ids (isMiniTrxKey keys) key"
  shows "doExecute (Trans_ops ip K) (Some (preExecuteFunc K os)) now (newTrans req, p) =
    doExecute (Trans_ops ip K) None now (newTrans req, p)"
proof -
  have body: "doExecute_body (Trans_ops ip K) (Some (preExecuteFunc K os)) now (newTrans req, p1) =
      doExecute_body (Trans_ops ip K) None now (newTrans req, p1)" for p1
    using preExecute_matching [of os "tr_header req" K now keys "mKVStorePtr p1"] checkKeys_pass [OF assms(4-6), of K "mKVStorePtr p1"]
      assms(1-3) by (simp add: doExecute_body_def runPreExecute_def Trans_ops_def newTrans_def isOK_def Status_ok_def)
  show ?thesis
  proof (cases "cmd_prepare (Trans_ops ip K) now (newTrans req, mKVStorePtr p)")
    case (Some r)
    then obtain st s1 where "cmd_prepare (Trans_ops ip K) now (newTrans req, mKVStorePtr p) = Some (st, newTrans req, s1)"
      by (cases r) (auto simp: Trans_ops_def lockTargets_def bind_eq_Some_conv split: if_splits)
    then show ?thesis
      by (simp add: doExecute_def body Let_def)
  qed (simp add: doExecute_def)
qed

end

section \<open>Routing\<close>



text \<open>C27: The scope of a cluster never shrinks. After any sequence of route updates a shard is in the scope of a
  cluster exactly when some of the updates, not only the last one, listed it for the cluster.\<close>

theorem route_scope_never_shrinks:
  "scopeOf (fold updateRouteInfo infos newRouteInfoHelper) cluster = (\<Union>info \<in> set infos. listedShards info cluster)"
proof -
  have "scopeOf (fold updateRouteInfo infos h) cluster = scopeOf h cluster \<union> (\<Union>info \<in> set infos. listedShards info cluster)" for h
    by (induction infos arbitrary: h) (simp_all add: updateRouteInfo_scope Un_assoc)
  then show ?thesis
    by (simp add: scopeOf_def newRouteInfoHelper_def)
qed

end
