(* ===== verification/Spec2Isabelle.thy ===== *)
theory Spec2Isabelle
  imports Version_Store Store_Properties Command_Properties Path_Properties Edge_Properties Ring_Properties Service_Properties Object_Properties
begin

text \<open>
  A verification development for Goblin, a replicated key-value store with transactions.

  \<^bold>\<open>The program.\<close> A client sends a command (put, get, delete, import, connect, generate or a
  transaction) to the leader of a cluster. The command processor
  (\<^verbatim>\<open>server/src/kv-engine/execution/CommandProcessor\<close>) locks the keys of the command, executes
  it on a stack of stores (\<^verbatim>\<open>kv-engine/store\<close>), allocates a version for the events it produced,
  applies the events to the leader's cache, and hands them to the raft event store
  (\<^verbatim>\<open>kv-engine/raft/RaftEventStore\<close>), which turns them into encrypted log entries. The reply
  loop (\<^verbatim>\<open>kv-engine/raft/ReplyLoop\<close>) waits for the commit of the entry and answers the client. On
  every replica the apply loop (\<^verbatim>\<open>kv-engine/execution/EventApplyLoop\<close>) loads the committed
  entries, applies them to the RocksDB store and saves the index it has reached as a milestone, from
  which it recovers after a crash. The object manager (\<^verbatim>\<open>server/src/object-manager\<close>) distributes
  shards over clusters with a hash ring. The object store (\<^verbatim>\<open>server/src/object-store\<close>) is the service around
  the engine: it moves shards to another cluster, and tells watchers about changes of keys.

  \<^bold>\<open>The model.\<close> A definition has the name of the method it translates, with the class first where
  two classes share it (\<^verbatim>\<open>InMem_readKV\<close>, \<^verbatim>\<open>Rocks_readKV\<close>). A class is a record of its
  members, a method a function on it that returns the changed record. A method that can fail an
  assertion, run into undefined behaviour or block forever has an \<^verbatim>\<open>option\<close> as its result, and
  \<^const>\<open>None\<close> is that case; the errors a method reports are values of \<^verbatim>\<open>Status\<close>. A
  polymorphic interface (\<^verbatim>\<open>KVStore\<close>, \<^verbatim>\<open>Command\<close>) is a record of methods, and a store
  that delegates to another one takes its record. Versions, times and deadlines are machine words.
  The clock, \<^verbatim>\<open>std::hash\<close>, RocksDB, protobuf, encryption and the raft library are parameters:
  what is assumed of them are the predicates \<^verbatim>\<open>rocksdb_spec\<close>, \<^verbatim>\<open>protobuf_spec\<close>,
  \<^verbatim>\<open>codec_spec\<close> and \<^verbatim>\<open>raft_log_spec\<close>, each shown to be satisfiable by the instances of
  \<^verbatim>\<open>Reference_Lib\<close> and \<^verbatim>\<open>Reference_Codec\<close>.

  \<^bold>\<open>Theories.\<close>
  \<^item> \<^verbatim>\<open>Goblin_Prelude\<close>, \<^verbatim>\<open>Str_Util\<close>: types, \<^verbatim>\<open>Status\<close>, \<^verbatim>\<open>StrUtil\<close>, decimal numbers.
  \<^item> \<^verbatim>\<open>Version_Store\<close>: the allocator of versions.
  \<^item> \<^verbatim>\<open>KV_Store\<close>: the store interface, the forwarding stores, and the contracts of a source, a sink and a
    cache; \<^verbatim>\<open>Routed_Store\<close>: a family of caches behind a routing function is a cache.
  \<^item> \<^verbatim>\<open>InMemory_Store\<close>, \<^verbatim>\<open>Concur_Store\<close>, \<^verbatim>\<open>WS_Store\<close>, \<^verbatim>\<open>RocksDB_Store\<close>,
    \<^verbatim>\<open>Temporal_Store\<close>: the stores; \<^verbatim>\<open>Store_Stack\<close>: the stack of a leader.
  \<^item> \<^verbatim>\<open>Events\<close>: events, bundles and their effect on a store and on a view.
  \<^item> \<^verbatim>\<open>Messages\<close>, \<^verbatim>\<open>Commands\<close>, \<^verbatim>\<open>Trans_Command\<close>, \<^verbatim>\<open>Generate_Command\<close>: requests, responses and
    the commands; \<^verbatim>\<open>Command_Processor\<close>: their execution.
  \<^item> \<^verbatim>\<open>Command_Contract\<close>, \<^verbatim>\<open>Command_Instances\<close>: what the processor relies on of a command, and that the
    commands provide it; \<^verbatim>\<open>Command_Correct\<close>, \<^verbatim>\<open>Trans_Correct\<close>: what each command does.
  \<^item> \<^verbatim>\<open>Raft_Event_Store\<close>, \<^verbatim>\<open>Reply_Loop\<close>, \<^verbatim>\<open>Event_Apply_Loop\<close>: replication; \<^verbatim>\<open>Raft_Log\<close>: the loader
    and the persist queue against the log; \<^verbatim>\<open>Crash_Recovery\<close>, \<^verbatim>\<open>Replica_Steps\<close>: the apply loop
    with crashes, as an invariant and as a step relation.
  \<^item> \<^verbatim>\<open>Cache_Eviction\<close>: the strategy that evicts the least recently used keys of the leader's cache.
  \<^item> \<^verbatim>\<open>Route_Messages\<close>: the messages about clusters, routes and migrations; \<^verbatim>\<open>Hash_Ring\<close>: the hash ring of
    the object manager.
  \<^item> \<^verbatim>\<open>Watch_Center\<close>, \<^verbatim>\<open>Thread_Pool\<close>, \<^verbatim>\<open>Migration_Manager\<close>: the services of the object store;
    \<^verbatim>\<open>Object_Store\<close>: the scope of its cluster, the check before a command is executed, and starting and
    ending a migration.
  \<^item> \<^verbatim>\<open>Store_Properties\<close>, \<^verbatim>\<open>Command_Properties\<close>, \<^verbatim>\<open>Replica_Properties\<close>, \<^verbatim>\<open>Path_Properties\<close>,
    \<^verbatim>\<open>Edge_Properties\<close>, \<^verbatim>\<open>Ring_Properties\<close>, \<^verbatim>\<open>Service_Properties\<close>,
    \<^verbatim>\<open>Object_Properties\<close>: the properties.

  \<^bold>\<open>What is shown.\<close> The stack of stores behaves like one map from keys to entries with a deadline:
  reads, writes, deletes and evictions refine it, and locks are balanced. Every command on that stack
  hands over exactly the events that explain the change of the leader's view; a transaction does so
  as a whole or, when a condition fails, not at all. The persist queue and the loader keep the order
  of the log. A replica shows at any time, crashes included, the effect of a prefix of the committed
  log, catches up with it, and agrees with every other replica that has applied the same part. A
  client hears of success only after the entry of its write has been seen committed. Stored values can
  be read again within the length the format has room for, and compaction drops nothing that can be
  seen. The hash ring partitions the shards, and moves only what a new cluster takes over. A
  watch delivers exactly the announced changes of its keys, in order; the eviction strategy tracks exactly
  the written keys; the thread pool starts tasks in order; a migration reports success when, and only when,
  no started task is left. Some
  properties record behaviour that is not what the code means to do: a lost write that releases a
  read, an import that ends the process, meta data that is too long, deadlines that wrap around,
  versions that repeat, a full ring.

  \<^bold>\<open>Interfaces as locales.\<close> \<^verbatim>\<open>kv_source\<close>, \<^verbatim>\<open>kv_sink\<close>, \<^verbatim>\<open>kv_cache\<close>,
  \<^verbatim>\<open>kv_overlay\<close> and \<^verbatim>\<open>kv_routed\<close> (stores), \<^verbatim>\<open>kv_locking_cache\<close>,
  \<^verbatim>\<open>kv_command_store\<close> and \<^verbatim>\<open>kv_command\<close> (commands), \<^verbatim>\<open>kv_durable\<close> (what the
  apply loop relies on). Each is interpreted on the definitions of the program; the properties are
  their facts for the leader's stack and for the RocksDB store.

  \<^bold>\<open>Bounds and loops.\<close> Loops over lists are recursion on the list. The loops that wait (for the
  term, for the commit) take the list of what the raft library answers in each pass; the empty list is a
  loop that is still waiting, and it is shown that they end once an answer decides. The search for a
  free shard of the ring is a partial function. The apply loop is a step relation, one pass a step;
  as many passes as there are bundles left are enough to catch up. Log indexes and terms are natural
  numbers, as they count entries in a log that is in memory.

  \<^bold>\<open>Not modelled.\<close> Threads and queues of the execution service, since each operation runs under a
  lock or on one thread and is a step of the model; metrics and logging; opening, checkpointing and
  closing RocksDB; the key service; configuration, DNS, TLS and files; the gRPC servers and clients of
  the object store and the object manager; the command that scans a snapshot for a migration; the
  administration tool; the Java client. Their effect on the modelled state is a call of a modelled operation or
  none.
\<close>

end
